(* ===== verification/Prelude.thy ===== *)
theory Prelude
  imports Main "HOL-Library.Char_ord" "HOL-Library.List_Lexorder" "HOL-Library.AList"
    "HOL-Library.Word" "HOL-Library.Multiset"
begin

text \<open>
  Shared vocabulary of the development: the integer widths of the Go sources, the two shapes a
  fallible Go function has (an \<open>error\<close> result, a value and an \<open>error\<close>), Go maps that the code
  iterates over or takes the length of, and the lemma collections the component proofs draw on.
\<close>

section \<open>Machine integers, strings and time\<close>

text \<open>
  A Go \<open>string\<close> or \<open>[]byte\<close> is a sequence of bytes; an Isabelle \<open>char\<close> is one byte, so both are
  \<open>string\<close> here, and \<open>length\<close> is Go's \<open>len\<close>.  Go's \<open>int\<close> carries configured sizes and lengths
  and is modelled by \<open>int\<close>; the values the protocol does arithmetic on keep their width.
\<close>

type_synonym uint16 = "16 word"
type_synonym uint64 = "64 word"
type_synonym int64 = "64 word"  \<comment> \<open>read with \<open>sint\<close>\<close>
type_synonym bytes = string

text \<open>
  \<open>time.Time\<close> is the number of nanoseconds since the Unix epoch, \<open>time.Duration\<close> a number of
  nanoseconds.  \<open>UnixMilli\<close> rounds towards minus infinity and is truncated to 64 bits; \<open>Sub\<close>
  saturates at the bounds of an \<open>int64\<close>.
\<close>

type_synonym time = int
type_synonym duration = int

definition UnixMilli :: "time \<Rightarrow> int64" where
  "UnixMilli t = word_of_int (t div 1000000)"

definition zero_time :: time where
  "zero_time = - 62135596800 * 1000000000"

definition time_Sub :: "time \<Rightarrow> time \<Rightarrow> duration" where
  "time_Sub t u = max (- (2 ^ 63)) (min (2 ^ 63 - 1) (t - u))"

definition len :: "'a list \<Rightarrow> int" where
  "len xs = int (length xs)"

section \<open>Fallible functions\<close>

text \<open>
  A Go function that returns only an \<open>error\<close> is an \<open>'e option\<close> (\<open>None\<close> is \<open>nil\<close>); one that returns
  \<open>(T, error)\<close> is a sum, \<open>Inl\<close> the error.
\<close>

definition first_err :: "'e option \<Rightarrow> 'e option \<Rightarrow> 'e option" where
  "first_err a b = (case a of None \<Rightarrow> b | Some e \<Rightarrow> Some e)"

definition guard_err :: "bool \<Rightarrow> 'e \<Rightarrow> 'e option" where
  "guard_err b e = (if b then Some e else None)"

definition ebind :: "'e + 'a \<Rightarrow> ('a \<Rightarrow> 'e + 'b) \<Rightarrow> 'e + 'b" where
  "ebind r f = (case r of Inl e \<Rightarrow> Inl e | Inr x \<Rightarrow> f x)"

definition echeck :: "'e + 'a \<Rightarrow> ('a \<Rightarrow> 'e option) \<Rightarrow> 'e option" where
  "echeck r f = (case r of Inl e \<Rightarrow> Some e | Inr x \<Rightarrow> f x)"

fun check_all :: "('a \<Rightarrow> 'e option) \<Rightarrow> 'a list \<Rightarrow> 'e option" where
  "check_all f [] = None"
| "check_all f (x # xs) = (case f x of Some e \<Rightarrow> Some e | None \<Rightarrow> check_all f xs)"

fun emap :: "('a \<Rightarrow> 'e + 'b) \<Rightarrow> 'a list \<Rightarrow> 'e + 'b list" where
  "emap f [] = Inr []"
| "emap f (x # xs) = ebind (f x) (\<lambda>y. ebind (emap f xs) (\<lambda>ys. Inr (y # ys)))"

section \<open>Go maps with a length and an iteration order\<close>

text \<open>
  Where the code ranges over a map or takes its \<open>len\<close>, the map is an association list with
  distinct keys; its order stands for one iteration order, and no result below depends on it.
\<close>

type_synonym ('k, 'v) gomap = "('k \<times> 'v) list"

abbreviation map_get :: "('k, 'v) gomap \<Rightarrow> 'k \<Rightarrow> 'v option" where
  "map_get m k \<equiv> map_of m k"

abbreviation map_put :: "'k \<Rightarrow> 'v \<Rightarrow> ('k, 'v) gomap \<Rightarrow> ('k, 'v) gomap" where
  "map_put k v m \<equiv> AList.update k v m"

abbreviation map_del :: "'k \<Rightarrow> ('k, 'v) gomap \<Rightarrow> ('k, 'v) gomap" where
  "map_del k m \<equiv> AList.delete k m"

definition map_ok :: "('k, 'v) gomap \<Rightarrow> bool" where
  "map_ok m \<longleftrightarrow> distinct (map fst m)"

section \<open>Lemma collections\<close>

named_theorems err_simps \<open>rewriting of the sequencing combinators of fallible functions\<close>
named_theorems word_nat \<open>moving comparisons and additions on words to natural numbers\<close>

lemma first_err_simps [err_simps, simp]:
  "first_err None b = b" "first_err (Some e) b = Some e" "first_err a None = a"
  by (simp_all add: first_err_def split: option.splits)

lemma first_err_None [err_simps, simp]:
  "first_err a b = None \<longleftrightarrow> a = None \<and> b = None"
  by (simp add: first_err_def split: option.splits)

lemma guard_err_None [err_simps, simp]: "guard_err b e = None \<longleftrightarrow> \<not> b"
  by (simp add: guard_err_def)

lemma guard_err_Some [err_simps, simp]: "guard_err b e = Some e' \<longleftrightarrow> b \<and> e' = e"
  by (auto simp: guard_err_def)

lemma ebind_simps [err_simps, simp]: "ebind (Inl e) f = Inl e" "ebind (Inr x) f = f x"
  by (simp_all add: ebind_def)

lemma ebind_Inr [err_simps]: "ebind r f = Inr y \<longleftrightarrow> (\<exists>x. r = Inr x \<and> f x = Inr y)"
  by (simp add: ebind_def split: sum.splits)

lemma ebind_Inl [err_simps]:
  "ebind r f = Inl e \<longleftrightarrow> r = Inl e \<or> (\<exists>x. r = Inr x \<and> f x = Inl e)"
  by (simp add: ebind_def split: sum.splits)

lemma echeck_simps [err_simps, simp]: "echeck (Inl e) f = Some e" "echeck (Inr x) f = f x"
  by (simp_all add: echeck_def)

lemma echeck_None [err_simps]: "echeck r f = None \<longleftrightarrow> (\<exists>x. r = Inr x \<and> f x = None)"
  by (simp add: echeck_def split: sum.splits)

lemma check_all_None [err_simps]: "check_all f xs = None \<longleftrightarrow> (\<forall>x\<in>set xs. f x = None)"
  by (induction xs) (auto split: option.splits)

lemma check_all_Some: "check_all f xs = Some e \<Longrightarrow> \<exists>x\<in>set xs. f x = Some e"
  by (induction xs) (auto split: option.splits)

lemma emap_Inr: "(\<And>x. x \<in> set xs \<Longrightarrow> f x = Inr (g x)) \<Longrightarrow> emap f xs = Inr (map g xs)"
  by (induction xs) auto

lemma len_simps [simp]:
  "len [] = 0" "len (x # xs) = 1 + len xs" "len (xs @ ys) = len xs + len ys" "0 \<le> len xs"
  by (simp_all add: len_def)

lemma len_eq_0 [simp]: "len xs = 0 \<longleftrightarrow> xs = []"
  by (simp add: len_def)

lemma len_pos [simp]: "0 < len xs \<longleftrightarrow> xs \<noteq> []"
  by (simp add: len_def)

lemma map_ok_Nil [simp]: "map_ok []"
  by (simp add: map_ok_def)

lemma map_ok_put [intro]: "map_ok m \<Longrightarrow> map_ok (map_put k v m)"
  by (simp add: map_ok_def distinct_update)

lemma map_ok_del [intro]: "map_ok m \<Longrightarrow> map_ok (map_del k m)"
  by (simp add: map_ok_def distinct_delete)

lemma map_get_put [simp]: "map_get (map_put k v m) k' = (if k' = k then Some v else map_get m k')"
  by (simp add: update_conv')

lemma map_get_del [simp]: "map_get (map_del k m) k' = (if k' = k then None else map_get m k')"
  by (simp add: delete_conv')

lemma word_less_iff_nat [word_nat]: "a < b \<longleftrightarrow> unat a < unat b"
  for a b :: "'a::len word"
  by (simp add: word_less_nat_alt)

lemma word_le_iff_nat [word_nat]: "a \<le> b \<longleftrightarrow> unat a \<le> unat b"
  for a b :: "'a::len word"
  by (simp add: word_le_nat_alt)

lemma unat_Suc_less [word_nat]: "a < b \<Longrightarrow> unat (a + 1) = Suc (unat a)"
  for a b :: "'a::len word"
proof -
  assume "a < b"
  then have "unat a < unat b" by (simp add: word_less_nat_alt)
  also have "unat b < 2 ^ LENGTH('a)" by (rule unsigned_less)
  finally have "unat a + 1 < 2 ^ LENGTH('a)"
    using \<open>unat a < unat b\<close> \<open>unat b < 2 ^ LENGTH('a)\<close> by linarith
  then show ?thesis by (simp add: unat_word_ariths)
qed

lemma unat_diff_le [word_nat]: "b \<le> a \<Longrightarrow> unat (a - b) = unat a - unat b"
  for a b :: "'a::len word"
  by (simp add: unat_sub)

end
