(* ===== verification/Go_Bytes.thy ===== *)
theory Go_Bytes
  imports Prelude
begin

text \<open>
  The parts of Go's \<open>unicode/utf8\<close>, \<open>unicode\<close>, \<open>strings\<close>, \<open>sort\<close> and \<open>strconv\<close> that the sources
  use, on byte strings: rune decoding and UTF-8 validity, control characters, and the decimal
  formatting and reading of integers.
\<close>

section \<open>UTF-8\<close>

definition byte :: "char \<Rightarrow> int" where
  "byte c = of_char c"

definition chr :: "int \<Rightarrow> char" where
  "chr n = char_of n"

definition byte_in :: "int \<Rightarrow> int \<Rightarrow> char \<Rightarrow> bool" where
  "byte_in lo hi c \<longleftrightarrow> lo \<le> byte c \<and> byte c \<le> hi"

text \<open>The number of bytes of the well-formed rune at the front, 0 when there is none.\<close>

fun utf8_size :: "string \<Rightarrow> nat" where
  "utf8_size [] = 0"
| "utf8_size (b0 # s) =
     (if byte b0 < 128 then 1
      else if byte_in 194 223 b0 then
        (case s of b1 # _ \<Rightarrow> if byte_in 128 191 b1 then 2 else 0 | _ \<Rightarrow> 0)
      else if byte_in 224 239 b0 then
        (case s of b1 # b2 # _ \<Rightarrow>
           if byte_in (if byte b0 = 224 then 160 else 128) (if byte b0 = 237 then 159 else 191) b1
             \<and> byte_in 128 191 b2 then 3 else 0
         | _ \<Rightarrow> 0)
      else if byte_in 240 244 b0 then
        (case s of b1 # b2 # b3 # _ \<Rightarrow>
           if byte_in (if byte b0 = 240 then 144 else 128) (if byte b0 = 244 then 143 else 191) b1
             \<and> byte_in 128 191 b2 \<and> byte_in 128 191 b3 then 4 else 0
         | _ \<Rightarrow> 0)
      else 0)"

text \<open>\<open>utf8.DecodeRuneInString\<close>: an ill-formed sequence is \<open>RuneError\<close> of width 1.\<close>

definition rune_error :: int where
  "rune_error = 65533"

definition DecodeRune :: "string \<Rightarrow> int \<times> nat" where
  "DecodeRune s = (case s of [] \<Rightarrow> (rune_error, 0) | b0 # r \<Rightarrow>
     (case utf8_size s of
        0 \<Rightarrow> (rune_error, 1)
      | Suc 0 \<Rightarrow> (byte b0, 1)
      | Suc (Suc 0) \<Rightarrow> ((byte b0 - 192) * 64 + (byte (r ! 0) - 128), 2)
      | Suc (Suc (Suc 0)) \<Rightarrow>
          ((byte b0 - 224) * 4096 + (byte (r ! 0) - 128) * 64 + (byte (r ! 1) - 128), 3)
      | _ \<Rightarrow> ((byte b0 - 240) * 262144 + (byte (r ! 0) - 128) * 4096
             + (byte (r ! 1) - 128) * 64 + (byte (r ! 2) - 128), 4)))"

lemma utf8_size_bound: "utf8_size s \<le> length s"
  by (cases s) (simp_all split: list.splits)

declare utf8_size.simps(2) [simp del]

lemma DecodeRune_size: "s \<noteq> [] \<Longrightarrow> 0 < snd (DecodeRune s) \<and> snd (DecodeRune s) \<le> length s"
  using utf8_size_bound [of s] by (cases s) (auto simp: DecodeRune_def split: nat.splits)

text \<open>\<open>range\<close> over a string, and \<open>utf8.ValidString\<close>.\<close>

function runes :: "string \<Rightarrow> int list" where
  "runes [] = []"
| "runes (c # s) = fst (DecodeRune (c # s)) # runes (drop (snd (DecodeRune (c # s))) (c # s))"
  by pat_completeness auto
termination
proof (relation "measure length")
  fix c s
  show "(drop (snd (DecodeRune (c # s))) (c # s), c # s) \<in> measure length"
    using DecodeRune_size [of "c # s"] by simp
qed simp

function ValidString :: "string \<Rightarrow> bool" where
  "ValidString [] = True"
| "ValidString (c # s) =
     (if utf8_size (c # s) = 0 then False else ValidString (drop (utf8_size (c # s)) (c # s)))"
  by pat_completeness auto
termination
  by (relation "measure length") (auto simp: drop_Cons')

definition RuneStart :: "char \<Rightarrow> bool" where
  "RuneStart c \<longleftrightarrow> \<not> byte_in 128 191 c"

definition IsControl :: "int \<Rightarrow> bool" where
  "IsControl r \<longleftrightarrow> (0 \<le> r \<and> r < 32) \<or> (127 \<le> r \<and> r < 160)"

section \<open>Decimal numbers\<close>

definition is_digit :: "char \<Rightarrow> bool" where
  "is_digit c \<longleftrightarrow> byte_in 48 57 c"

function utoa :: "int \<Rightarrow> string" where
  "utoa n = (if n < 10 then [chr (48 + n)] else utoa (n div 10) @ [chr (48 + n mod 10)])"
  by pat_completeness auto
termination
  by (relation "measure nat") auto

declare utoa.simps [simp del]

definition itoa :: "int \<Rightarrow> string" where
  "itoa n = (if n < 0 then CHR ''-'' # utoa (- n) else utoa n)"

fun digits_value :: "int \<Rightarrow> string \<Rightarrow> int" where
  "digits_value acc [] = acc"
| "digits_value acc (c # s) = digits_value (10 * acc + (byte c - 48)) s"

text \<open>\<open>strconv.ParseUint\<close> and \<open>strconv.ParseInt\<close> in base 10 on a number literal.\<close>

definition ParseUint :: "nat \<Rightarrow> string \<Rightarrow> int option" where
  "ParseUint w s = (if s \<noteq> [] \<and> list_all is_digit s \<and> digits_value 0 s < 2 ^ w
     then Some (digits_value 0 s) else None)"

definition ParseInt :: "nat \<Rightarrow> string \<Rightarrow> int option" where
  "ParseInt w s = (case s of
     [] \<Rightarrow> None
   | c # r \<Rightarrow> if c = CHR ''-'' then
        (if r \<noteq> [] \<and> list_all is_digit r \<and> digits_value 0 r \<le> 2 ^ (w - 1)
         then Some (- digits_value 0 r) else None)
      else (if list_all is_digit s \<and> digits_value 0 s < 2 ^ (w - 1)
         then Some (digits_value 0 s) else None))"

section \<open>Lemmas\<close>

lemma byte_range: "0 \<le> byte c" "byte c < 256"
proof -
  have eq: "byte c mod 256 = byte c" by (simp add: byte_def)
  have "0 \<le> byte c mod 256" "byte c mod 256 < 256" by simp_all
  then show "0 \<le> byte c" "byte c < 256" unfolding eq .
qed

lemma byte_chr: "0 \<le> n \<Longrightarrow> n < 256 \<Longrightarrow> byte (chr n) = n"
  by (simp add: byte_def chr_def)

lemma chr_byte [simp]: "chr (byte c) = c"
  by (simp add: byte_def chr_def)

lemma byte_eq_iff: "byte a = byte b \<longleftrightarrow> a = b"
  by (metis chr_byte)

lemma digit_range: "0 \<le> n \<Longrightarrow> n < 10 \<Longrightarrow> is_digit (chr (48 + n)) \<and> byte (chr (48 + n)) - 48 = n"
  by (simp add: is_digit_def byte_in_def byte_chr)

lemma digits_value_append: "digits_value acc (s @ t) = digits_value (digits_value acc s) t"
  by (induction s arbitrary: acc) auto

lemma utoa_value: "0 \<le> n \<Longrightarrow> digits_value 0 (utoa n) = n"
proof (induction n rule: utoa.induct)
  case (1 n)
  show ?case
  proof (cases "n < 10")
    case True
    then show ?thesis using 1 digit_range [of n] by (simp add: utoa.simps [of n])
  next
    case False
    then show ?thesis
      using 1 digit_range [of "n mod 10"]
      by (simp add: utoa.simps [of n] digits_value_append)
  qed
qed

lemma utoa_digits: "0 \<le> n \<Longrightarrow> utoa n \<noteq> [] \<and> list_all is_digit (utoa n)"
proof (induction n rule: utoa.induct)
  case (1 n)
  then show ?case
    using digit_range [of n] digit_range [of "n mod 10"]
    by (cases "n < 10") (auto simp: utoa.simps [of n])
qed

lemma ParseUint_utoa: "0 \<le> n \<Longrightarrow> n < 2 ^ w \<Longrightarrow> ParseUint w (utoa n) = Some n"
  by (simp add: ParseUint_def utoa_value utoa_digits)

lemma utoa_not_minus: "0 \<le> n \<Longrightarrow> utoa n = c # r \<Longrightarrow> c \<noteq> CHR ''-''"
  using utoa_digits [of n] by (auto simp: is_digit_def byte_in_def byte_def)

lemma ParseInt_itoa: "- (2 ^ (w - 1)) \<le> n \<Longrightarrow> n < 2 ^ (w - 1) \<Longrightarrow> ParseInt w (itoa n) = Some n"
proof (cases "n < 0")
  case True
  assume "- (2 ^ (w - 1)) \<le> n"
  with True show ?thesis
    using utoa_value [of "- n"] utoa_digits [of "- n"] by (simp add: ParseInt_def itoa_def)
next
  case False
  assume bound: "n < 2 ^ (w - 1)"
  from False have n: "0 \<le> n" by simp
  then obtain c r where u: "utoa n = c # r"
    using utoa_digits [of n] by (cases "utoa n") auto
  with n have "c \<noteq> CHR ''-''" by (rule utoa_not_minus)
  with n bound show ?thesis
    using utoa_value [OF n] utoa_digits [OF n] by (simp add: ParseInt_def itoa_def u)
qed

end
