(* ===== verification/Go_Json.thy ===== *)
theory Go_Json
  imports Go_Bytes "HOL-Library.Monad_Syntax"
begin

text \<open>
  Go's \<open>encoding/json\<close> as the sources use it, on bytes.  A parsed value keeps the exact text it was
  read from: the white space between tokens, number literals and the unprocessed bodies of strings,
  so that \<open>unparse\<close> gives back the bytes a \<open>json.RawMessage\<close> holds.  \<open>json.Valid\<close>, the
  compaction and HTML escaping that \<open>json.Marshal\<close> applies to a raw message, string quoting, and the
  decoding of objects into structs (exact and case-folded member names, unknown members, \<open>null\<close>)
  are functions of these values.  The wording of the decoder's diagnostics is reduced to their kind.
\<close>

section \<open>Values with their concrete text\<close>

datatype json =
    JNull
  | JBool bool
  | JNum string
  | JStr string
  | JArr string jelems
  | JObj string jmembers
and jelems =
    ENil
  | ECons string json string jelems
and jmembers =
    MNil
  | MCons string string string string json string jmembers

primrec unparse :: "json \<Rightarrow> string"
  and unparse_elems :: "jelems \<Rightarrow> string"
  and unparse_members :: "jmembers \<Rightarrow> string" where
  "unparse JNull = ''null''"
| "unparse (JBool b) = (if b then ''true'' else ''false'')"
| "unparse (JNum n) = n"
| "unparse (JStr b) = CHR 0x22 # b @ [CHR 0x22]"
| "unparse (JArr w es) = CHR ''['' # w @ unparse_elems es @ '']''"
| "unparse (JObj w ms) = CHR ''{'' # w @ unparse_members ms @ ''}''"
| "unparse_elems ENil = []"
| "unparse_elems (ECons a v b es) =
     a @ unparse v @ b @ (case es of ENil \<Rightarrow> [] | _ \<Rightarrow> CHR '','' # unparse_elems es)"
| "unparse_members MNil = []"
| "unparse_members (MCons a k b c v d ms) =
     a @ CHR 0x22 # k @ CHR 0x22 # b @ CHR '':'' # c @ unparse v @ d
       @ (case ms of MNil \<Rightarrow> [] | _ \<Rightarrow> CHR '','' # unparse_members ms)"

section \<open>Scanning\<close>

definition is_ws :: "char \<Rightarrow> bool" where
  "is_ws c \<longleftrightarrow> c = CHR '' '' \<or> c = CHR 0x09 \<or> c = CHR 0x0A \<or> c = CHR 0x0D"

abbreviation skip_ws :: "string \<Rightarrow> string" where
  "skip_ws s \<equiv> dropWhile is_ws s"

definition hex_val :: "char \<Rightarrow> int option" where
  "hex_val c =
     (if byte_in 48 57 c then Some (byte c - 48)
      else if byte_in 97 102 c then Some (byte c - 87)
      else if byte_in 65 70 c then Some (byte c - 55)
      else None)"

definition is_hex :: "char \<Rightarrow> bool" where
  "is_hex c \<longleftrightarrow> hex_val c \<noteq> None"

definition is_escape :: "char \<Rightarrow> bool" where
  "is_escape c \<longleftrightarrow> c \<in> {CHR ''b'', CHR ''f'', CHR ''n'', CHR ''r'', CHR ''t'', CHR 0x5C, CHR ''/'', CHR 0x22}"

text \<open>
  One character or escape sequence of a string literal; then the body of a literal after its
  opening quote, and what follows the closing one.
\<close>

definition scan_unit :: "string \<Rightarrow> (string \<times> string) option" where
  "scan_unit s = (case s of [] \<Rightarrow> None | c # s1 \<Rightarrow>
     if c = CHR 0x5C then
       (case s1 of [] \<Rightarrow> None | e # s2 \<Rightarrow>
          if is_escape e then Some ([c, e], s2)
          else if e = CHR ''u'' \<and> 4 \<le> length s2 \<and> list_all is_hex (take 4 s2)
          then Some (c # e # take 4 s2, drop 4 s2)
          else None)
     else if c = CHR 0x22 \<or> byte c < 32 then None
     else Some ([c], s1))"

lemma scan_unit_cases:
  assumes "scan_unit s = Some (u, r)"
  obtains (esc) e where "is_escape e" "u = [CHR 0x5C, e]" "s = CHR 0x5C # e # r"
  | (hex) h where "list_all is_hex h" "length h = 4" "u = CHR 0x5C # CHR ''u'' # h"
      "s = CHR 0x5C # CHR ''u'' # h @ r"
  | (plain) c where "c \<noteq> CHR 0x5C" "c \<noteq> CHR 0x22" "32 \<le> byte c" "u = [c]" "s = c # r"
proof (cases s)
  case Nil
  with assms show ?thesis by (simp add: scan_unit_def)
next
  case (Cons c s1)
  show ?thesis
  proof (cases "c = CHR 0x5C")
    case False
    with Cons assms plain show ?thesis by (simp add: scan_unit_def split: if_splits)
  next
    case c: True
    show ?thesis
    proof (cases s1)
      case Nil
      with Cons c assms show ?thesis by (simp add: scan_unit_def)
    next
      case s1: (Cons e s2)
      show ?thesis
      proof (cases "is_escape e")
        case True
        with Cons c s1 assms esc show ?thesis by (simp add: scan_unit_def)
      next
        case False
        with Cons c s1 assms have u: "e = CHR ''u''" "4 \<le> length s2" "list_all is_hex (take 4 s2)"
            "u = c # e # take 4 s2" "r = drop 4 s2"
          by (simp_all add: scan_unit_def split: if_splits)
        then have "s2 = take 4 s2 @ r" by simp
        with u Cons c s1 hex [of "take 4 s2"] show ?thesis by simp
      qed
    qed
  qed
qed

lemma scan_unit_split:
  assumes "scan_unit s = Some (u, r)"
  shows "s = u @ r" "u \<noteq> []" "hd u \<noteq> CHR 0x22" "scan_unit (u @ t) = Some (u, t)"
  using assms by (cases rule: scan_unit_cases; simp add: scan_unit_def is_escape_def; fail)+

function scan_str :: "string \<Rightarrow> (string \<times> string) option" where
  "scan_str s = (case s of [] \<Rightarrow> None | c # s1 \<Rightarrow>
     if c = CHR 0x22 then Some ([], s1)
     else (case scan_unit s of None \<Rightarrow> None | Some (u, t) \<Rightarrow>
        (case scan_str t of None \<Rightarrow> None | Some (b, r) \<Rightarrow> Some (u @ b, r))))"
  by pat_completeness auto
termination
proof (relation "measure length")
  fix s x xs p u t
  assume "s = x # xs" "scan_unit s = Some p" "(u, t) = p"
  then show "(t, s) \<in> measure length"
    using scan_unit_split(1,2) [of s u t] by auto
qed simp

declare scan_str.simps [simp del]

definition scan_sign :: "string \<Rightarrow> string \<times> string" where
  "scan_sign s = (case s of c # r \<Rightarrow> if c = CHR ''+'' \<or> c = CHR ''-'' then ([c], r) else ([], s)
     | [] \<Rightarrow> ([], s))"

definition scan_frac :: "string \<Rightarrow> (string \<times> string) option" where
  "scan_frac s = (case s of
     c # r \<Rightarrow> if c = CHR ''.'' then
         (if takeWhile is_digit r = [] then None
          else Some (c # takeWhile is_digit r, dropWhile is_digit r))
       else Some ([], s)
   | [] \<Rightarrow> Some ([], s))"

definition scan_exp :: "string \<Rightarrow> (string \<times> string) option" where
  "scan_exp s = (case s of
     c # r \<Rightarrow> if c = CHR ''e'' \<or> c = CHR ''E'' then
         (if takeWhile is_digit (snd (scan_sign r)) = [] then None
          else Some (c # fst (scan_sign r) @ takeWhile is_digit (snd (scan_sign r)),
                     dropWhile is_digit (snd (scan_sign r))))
       else Some ([], s)
   | [] \<Rightarrow> Some ([], s))"

definition scan_mag :: "string \<Rightarrow> (string \<times> string) option" where
  "scan_mag s = (case s of
     c # r \<Rightarrow> if c = CHR ''0'' then Some ([c], r)
       else if is_digit c then Some (c # takeWhile is_digit r, dropWhile is_digit r) else None
   | [] \<Rightarrow> None)"

definition scan_minus :: "string \<Rightarrow> string \<times> string" where
  "scan_minus s = (case s of c # r \<Rightarrow> if c = CHR ''-'' then ([c], r) else ([], s) | [] \<Rightarrow> ([], s))"

definition scan_num :: "string \<Rightarrow> (string \<times> string) option" where
  "scan_num s =
     do { (m, s1) \<leftarrow> scan_mag (snd (scan_minus s));
          (f, s2) \<leftarrow> scan_frac s1;
          (e, s3) \<leftarrow> scan_exp s2;
          Some (fst (scan_minus s) @ m @ f @ e, s3) }"

fun scan_lit :: "string \<Rightarrow> string \<Rightarrow> string option" where
  "scan_lit [] s = Some s"
| "scan_lit (x # xs) [] = None"
| "scan_lit (x # xs) (c # s) = (if x = c then scan_lit xs s else None)"

text \<open>
  The recursive descent spends one unit of fuel per call; \<open>parse_fuel\<close> below is shown to be enough.
  The second argument is the number of further levels of nesting allowed: the scanner refuses more
  than 10000.
\<close>

fun parse_value :: "nat \<Rightarrow> int \<Rightarrow> string \<Rightarrow> (json \<times> string) option"
  and parse_elems :: "nat \<Rightarrow> int \<Rightarrow> string \<Rightarrow> (jelems \<times> string) option"
  and parse_members :: "nat \<Rightarrow> int \<Rightarrow> string \<Rightarrow> (jmembers \<times> string) option" where
  "parse_value 0 d s = None"
| "parse_value (Suc n) d s = (case s of [] \<Rightarrow> None | c # r \<Rightarrow>
     if c = CHR 0x22 then
       (case scan_str r of None \<Rightarrow> None | Some (b, t) \<Rightarrow> Some (JStr b, t))
     else if c = CHR ''{'' then
       (if d \<le> 0 then None
        else (case skip_ws r of
            x # t \<Rightarrow> if x = CHR ''}'' then Some (JObj (takeWhile is_ws r) MNil, t)
              else (case parse_members n (d - 1) r of None \<Rightarrow> None
                    | Some (ms, t) \<Rightarrow> Some (JObj [] ms, t))
          | [] \<Rightarrow> None))
     else if c = CHR ''['' then
       (if d \<le> 0 then None
        else (case skip_ws r of
            x # t \<Rightarrow> if x = CHR '']'' then Some (JArr (takeWhile is_ws r) ENil, t)
              else (case parse_elems n (d - 1) r of None \<Rightarrow> None
                    | Some (es, t) \<Rightarrow> Some (JArr [] es, t))
          | [] \<Rightarrow> None))
     else if c = CHR ''n'' then map_option (\<lambda>t. (JNull, t)) (scan_lit ''ull'' r)
     else if c = CHR ''t'' then map_option (\<lambda>t. (JBool True, t)) (scan_lit ''rue'' r)
     else if c = CHR ''f'' then map_option (\<lambda>t. (JBool False, t)) (scan_lit ''alse'' r)
     else map_option (\<lambda>(x, t). (JNum x, t)) (scan_num s))"
| "parse_elems 0 d s = None"
| "parse_elems (Suc n) d s =
     (case parse_value n d (skip_ws s) of None \<Rightarrow> None | Some (v, t) \<Rightarrow>
        (case skip_ws t of [] \<Rightarrow> None | x # u \<Rightarrow>
           if x = CHR '']'' then Some (ECons (takeWhile is_ws s) v (takeWhile is_ws t) ENil, u)
           else if x = CHR '','' then
             (case parse_elems n d u of None \<Rightarrow> None
              | Some (es, r) \<Rightarrow> Some (ECons (takeWhile is_ws s) v (takeWhile is_ws t) es, r))
           else None))"
| "parse_members 0 d s = None"
| "parse_members (Suc n) d s =
     (case skip_ws s of [] \<Rightarrow> None | q # s1 \<Rightarrow>
        if q \<noteq> CHR 0x22 then None else
        (case scan_str s1 of None \<Rightarrow> None | Some (k, s2) \<Rightarrow>
           (case skip_ws s2 of [] \<Rightarrow> None | p # s3 \<Rightarrow>
              if p \<noteq> CHR '':'' then None else
              (case parse_value n d (skip_ws s3) of None \<Rightarrow> None | Some (v, t) \<Rightarrow>
                 (case skip_ws t of [] \<Rightarrow> None | x # u \<Rightarrow>
                    if x = CHR ''}'' then
                      Some (MCons (takeWhile is_ws s) k (takeWhile is_ws s2) (takeWhile is_ws s3) v
                              (takeWhile is_ws t) MNil, u)
                    else if x = CHR '','' then
                      (case parse_members n d u of None \<Rightarrow> None
                       | Some (ms, r) \<Rightarrow>
                           Some (MCons (takeWhile is_ws s) k (takeWhile is_ws s2) (takeWhile is_ws s3) v
                                   (takeWhile is_ws t) ms, r))
                    else None)))))"

definition parse_fuel :: "string \<Rightarrow> nat" where
  "parse_fuel s = Suc (Suc (2 * length s))"

definition max_nesting :: int where
  "max_nesting = 10000"

text \<open>One value at the front of the input, and the input as exactly one value.\<close>

definition decode_first :: "string \<Rightarrow> (json \<times> string) option" where
  "decode_first s = parse_value (parse_fuel s) max_nesting (skip_ws s)"

definition parse_doc :: "string \<Rightarrow> json option" where
  "parse_doc s = (case decode_first s of None \<Rightarrow> None
     | Some (v, r) \<Rightarrow> if list_all is_ws r then Some v else None)"

definition json_Valid :: "bytes \<Rightarrow> bool" where
  "json_Valid s \<longleftrightarrow> parse_doc s \<noteq> None"

section \<open>String literals\<close>

definition hex4 :: "char \<Rightarrow> char \<Rightarrow> char \<Rightarrow> char \<Rightarrow> int" where
  "hex4 a b c d = ((the (hex_val a) * 16 + the (hex_val b)) * 16 + the (hex_val c)) * 16 + the (hex_val d)"

definition EncodeRune :: "int \<Rightarrow> string" where
  "EncodeRune r =
     (if r < 128 then [chr r]
      else if r < 2048 then [chr (192 + r div 64), chr (128 + r mod 64)]
      else if r > 1114111 \<or> (55296 \<le> r \<and> r \<le> 57343) then [chr 239, chr 191, chr 189]
      else if r < 65536 then
        [chr (224 + r div 4096), chr (128 + r div 64 mod 64), chr (128 + r mod 64)]
      else [chr (240 + r div 262144), chr (128 + r div 4096 mod 64), chr (128 + r div 64 mod 64),
            chr (128 + r mod 64)])"

definition escape_char :: "char \<Rightarrow> char" where
  "escape_char e =
     (if e = CHR ''b'' then CHR 0x08 else if e = CHR ''f'' then CHR 0x0C
      else if e = CHR ''n'' then CHR 0x0A else if e = CHR ''r'' then CHR 0x0D
      else if e = CHR ''t'' then CHR 0x09 else e)"

text \<open>
  The value of a string body: escapes are resolved, a surrogate pair is one rune, a lone surrogate
  and every ill-formed byte become U+FFFD.
\<close>

function unquote :: "string \<Rightarrow> string" where
  "unquote [] = []"
| "unquote (c # s) =
     (if c = CHR 0x5C then
        (case s of
           [] \<Rightarrow> []
         | e # s1 \<Rightarrow>
             if e = CHR ''u'' then
               (case s1 of
                  h1 # h2 # h3 # h4 # s2 \<Rightarrow>
                    (let r = hex4 h1 h2 h3 h4 in
                     if 55296 \<le> r \<and> r \<le> 57343 then
                       (case s2 of
                          b # u # g1 # g2 # g3 # g4 # s3 \<Rightarrow>
                            (let r2 = hex4 g1 g2 g3 g4 in
                             if b = CHR 0x5C \<and> u = CHR ''u'' \<and> r \<le> 56319 \<and> 56320 \<le> r2 \<and> r2 \<le> 57343
                             then EncodeRune ((r - 55296) * 1024 + (r2 - 56320) + 65536) @ unquote s3
                             else EncodeRune rune_error @ unquote s2)
                        | _ \<Rightarrow> EncodeRune rune_error @ unquote s2)
                     else EncodeRune r @ unquote s2)
                | _ \<Rightarrow> [])
             else escape_char e # unquote s1)
      else if utf8_size (c # s) = 0 then EncodeRune rune_error @ unquote s
      else take (utf8_size (c # s)) (c # s) @ unquote (drop (utf8_size (c # s)) (c # s)))"
  by pat_completeness auto
termination
  by (relation "measure length") (auto simp: drop_Cons')

definition hex_digit :: "int \<Rightarrow> char" where
  "hex_digit n = (if n < 10 then chr (48 + n) else chr (87 + n))"

definition u_escape :: "int \<Rightarrow> string" where
  "u_escape r = [CHR 0x5C, CHR ''u'', hex_digit (r div 4096), hex_digit (r div 256 mod 16),
                 hex_digit (r div 16 mod 16), hex_digit (r mod 16)]"

definition escape_byte :: "char \<Rightarrow> string" where
  "escape_byte c =
     (if c = CHR 0x5C \<or> c = CHR 0x22 then [CHR 0x5C, c]
      else if c = CHR 0x08 then [CHR 0x5C, CHR ''b'']
      else if c = CHR 0x0C then [CHR 0x5C, CHR ''f'']
      else if c = CHR 0x0A then [CHR 0x5C, CHR ''n'']
      else if c = CHR 0x0D then [CHR 0x5C, CHR ''r'']
      else if c = CHR 0x09 then [CHR 0x5C, CHR ''t'']
      else if byte c < 32 \<or> c = CHR ''<'' \<or> c = CHR ''>'' \<or> c = CHR ''&'' then u_escape (byte c)
      else [c])"

text \<open>The literal body \<open>json.Marshal\<close> writes for a Go string.\<close>

function quote_body :: "string \<Rightarrow> string" where
  "quote_body [] = []"
| "quote_body (c # s) =
     (if byte c < 128 then escape_byte c @ quote_body s
      else if utf8_size (c # s) = 0 then u_escape rune_error @ quote_body s
      else (let n = utf8_size (c # s); t = take n (c # s) in
            (if t = [CHR 0xE2, CHR 0x80, CHR 0xA8] then u_escape 8232
             else if t = [CHR 0xE2, CHR 0x80, CHR 0xA9] then u_escape 8233
             else t) @ quote_body (drop n (c # s))))"
  by pat_completeness auto
termination
  by (relation "measure length") (auto simp: drop_Cons')

section \<open>Compaction\<close>

text \<open>
  \<open>json.Marshal\<close> writes a \<open>json.RawMessage\<close> without insignificant white space and with the
  characters \<open><\<close>, \<open>>\<close>, \<open>&\<close>, U+2028 and U+2029 escaped.
\<close>

fun html_escape :: "string \<Rightarrow> string" where
  "html_escape [] = []"
| "html_escape (c # s) =
     (if c = CHR ''<'' \<or> c = CHR ''>'' \<or> c = CHR ''&'' then u_escape (byte c) @ html_escape s
      else (case s of
          c1 # c2 # s2 \<Rightarrow>
            if c = CHR 0xE2 \<and> c1 = CHR 0x80 \<and> (c2 = CHR 0xA8 \<or> c2 = CHR 0xA9)
            then u_escape (if c2 = CHR 0xA8 then 8232 else 8233) @ html_escape s2
            else c # html_escape s
        | _ \<Rightarrow> c # html_escape s))"

primrec compact_json :: "json \<Rightarrow> json"
  and compact_elems :: "jelems \<Rightarrow> jelems"
  and compact_members :: "jmembers \<Rightarrow> jmembers" where
  "compact_json JNull = JNull"
| "compact_json (JBool b) = JBool b"
| "compact_json (JNum n) = JNum n"
| "compact_json (JStr b) = JStr (html_escape b)"
| "compact_json (JArr w es) = JArr [] (compact_elems es)"
| "compact_json (JObj w ms) = JObj [] (compact_members ms)"
| "compact_elems ENil = ENil"
| "compact_elems (ECons a v b es) = ECons [] (compact_json v) [] (compact_elems es)"
| "compact_members MNil = MNil"
| "compact_members (MCons a k b c v d ms) =
     MCons [] (html_escape k) [] [] (compact_json v) [] (compact_members ms)"

section \<open>Building values\<close>

definition jstr :: "string \<Rightarrow> json" where
  "jstr s = JStr (quote_body s)"

definition juint :: "'a::len word \<Rightarrow> json" where
  "juint w = JNum (utoa (uint w))"

definition jint :: "int64 \<Rightarrow> json" where
  "jint w = JNum (itoa (sint w))"

fun mk_elems :: "json list \<Rightarrow> jelems" where
  "mk_elems [] = ENil"
| "mk_elems (v # vs) = ECons [] v [] (mk_elems vs)"

fun mk_members :: "(string \<times> json) list \<Rightarrow> jmembers" where
  "mk_members [] = MNil"
| "mk_members ((k, v) # ms) = MCons [] k [] [] v [] (mk_members ms)"

definition jarr :: "json list \<Rightarrow> json" where
  "jarr vs = JArr [] (mk_elems vs)"

definition jobj :: "(string \<times> json) list \<Rightarrow> json" where
  "jobj ms = JObj [] (mk_members ms)"

text \<open>A raw message inside a marshalled value; an invalid one makes \<open>json.Marshal\<close> fail.\<close>

definition jraw :: "bytes \<Rightarrow> json option" where
  "jraw r = (if r = [] then Some JNull else map_option compact_json (parse_doc r))"

declare unquote.simps(2) [simp del] quote_body.simps(2) [simp del] html_escape.simps(2) [simp del]

section \<open>Decoding into Go values\<close>

datatype json_error =
    JSyntaxError
  | JTypeError
  | JUnknownField string
  | JDuplicate string

primrec elems_list :: "jelems \<Rightarrow> json list" where
  "elems_list ENil = []"
| "elems_list (ECons a v b es) = v # elems_list es"

primrec members_list :: "jmembers \<Rightarrow> (string \<times> json) list" where
  "members_list MNil = []"
| "members_list (MCons a k b c v d ms) = (unquote k, v) # members_list ms"

text \<open>
  Each decoder takes the value the destination holds: \<open>null\<close> leaves a scalar or a struct alone.  A
  destination slice keeps the elements it has while it is refilled, as the decoder does.
\<close>

type_synonym 'a decoder = "'a \<Rightarrow> json \<Rightarrow> json_error + 'a"

definition dec_string :: "string decoder" where
  "dec_string old v = (case v of JNull \<Rightarrow> Inr old | JStr b \<Rightarrow> Inr (unquote b) | _ \<Rightarrow> Inl JTypeError)"

definition dec_bool :: "bool decoder" where
  "dec_bool old v = (case v of JNull \<Rightarrow> Inr old | JBool b \<Rightarrow> Inr b | _ \<Rightarrow> Inl JTypeError)"

definition dec_uint :: "'a::len word decoder" where
  "dec_uint old v = (case v of JNull \<Rightarrow> Inr old
     | JNum n \<Rightarrow> (case ParseUint LENGTH('a) n of None \<Rightarrow> Inl JTypeError | Some k \<Rightarrow> Inr (word_of_int k))
     | _ \<Rightarrow> Inl JTypeError)"

definition dec_int :: "int64 decoder" where
  "dec_int old v = (case v of JNull \<Rightarrow> Inr old
     | JNum n \<Rightarrow> (case ParseInt 64 n of None \<Rightarrow> Inl JTypeError | Some k \<Rightarrow> Inr (word_of_int k))
     | _ \<Rightarrow> Inl JTypeError)"

definition dec_raw :: "bytes decoder" where
  "dec_raw old v = Inr (unparse v)"

fun dec_elems :: "'a decoder \<Rightarrow> 'a \<Rightarrow> 'a list \<Rightarrow> json list \<Rightarrow> json_error + 'a list" where
  "dec_elems f z olds [] = Inr []"
| "dec_elems f z olds (v # vs) =
     ebind (f (case olds of [] \<Rightarrow> z | x # _ \<Rightarrow> x) v) (\<lambda>y.
     ebind (dec_elems f z (tl olds) vs) (\<lambda>ys. Inr (y # ys)))"

definition dec_slice :: "'a decoder \<Rightarrow> 'a \<Rightarrow> 'a list decoder" where
  "dec_slice f z old v = (case v of JNull \<Rightarrow> Inr [] | JArr w es \<Rightarrow> dec_elems f z old (elems_list es)
     | _ \<Rightarrow> Inl JTypeError)"

definition dec_pointer :: "'a decoder \<Rightarrow> 'a \<Rightarrow> 'a option decoder" where
  "dec_pointer f z old v = (case v of JNull \<Rightarrow> Inr None
     | _ \<Rightarrow> ebind (f (case old of None \<Rightarrow> z | Some x \<Rightarrow> x) v) (\<lambda>y. Inr (Some y)))"

text \<open>
  Member names match a field exactly or, failing that, under simple case folding; the only
  non-ASCII runes that fold to ASCII letters are U+017F (to S) and U+212A (to K).
\<close>

fun fold_name :: "string \<Rightarrow> string" where
  "fold_name [] = []"
| "fold_name (c # s) =
     (if byte_in 97 122 c then chr (byte c - 32) # fold_name s
      else (case s of
          c1 # s1 \<Rightarrow>
            if c = CHR 0xC5 \<and> c1 = CHR 0xBF then CHR ''S'' # fold_name s1
            else if c = CHR 0xE2 \<and> c1 = CHR 0x84 \<and> s1 \<noteq> [] \<and> hd s1 = CHR 0xAA
            then CHR ''K'' # fold_name (tl s1)
            else c # fold_name s
        | [] \<Rightarrow> [c]))"

type_synonym 'r fields = "(string \<times> 'r decoder) list"

definition find_field :: "'r fields \<Rightarrow> string \<Rightarrow> 'r decoder option" where
  "find_field fs k = (case map_of fs k of Some f \<Rightarrow> Some f
     | None \<Rightarrow> map_of (map (\<lambda>(n, f). (fold_name n, f)) fs) (fold_name k))"

fun dec_members :: "bool \<Rightarrow> 'r fields \<Rightarrow> 'r \<Rightarrow> (string \<times> json) list \<Rightarrow> json_error + 'r" where
  "dec_members strict fs r [] = Inr r"
| "dec_members strict fs r ((k, v) # ms) =
     (case find_field fs k of
        None \<Rightarrow> if strict then Inl (JUnknownField k) else dec_members strict fs r ms
      | Some f \<Rightarrow> ebind (f r v) (\<lambda>r'. dec_members strict fs r' ms))"

definition dec_struct :: "bool \<Rightarrow> 'r fields \<Rightarrow> 'r decoder" where
  "dec_struct strict fs old v = (case v of JNull \<Rightarrow> Inr old
     | JObj w ms \<Rightarrow> dec_members strict fs old (members_list ms)
     | _ \<Rightarrow> Inl JTypeError)"

end
