(* ===== verification/Proto_Error.thy ===== *)
theory Proto_Error
  imports Go_Json
begin

text \<open>
  \<open>error.go\<close>: the standard error codes, the disposition of each code, and protocol errors.  A Go
  \<open>error\<close> value is a \<open>go_error\<close>: a \<open>*ProtocolError\<close>, one of the package's sentinel errors (compared
  by identity with \<open>errors.Is\<close>), a fresh \<open>errors.New\<close>, a wrapped error (\<open>fmt.Errorf\<close> with \<open>%w\<close>), an
  error of \<open>encoding/json\<close>, or one returned by code outside the package.
\<close>

section \<open>Error codes\<close>

definition ErrorBadRequest :: string where "ErrorBadRequest = ''BAD_REQUEST''"
definition ErrorUnsupportedVersion :: string where "ErrorUnsupportedVersion = ''UNSUPPORTED_VERSION''"
definition ErrorUnsupportedFeature :: string where "ErrorUnsupportedFeature = ''UNSUPPORTED_FEATURE''"
definition ErrorInvalidCapability :: string where "ErrorInvalidCapability = ''INVALID_CAPABILITY''"
definition ErrorInvalidStateVersion :: string where "ErrorInvalidStateVersion = ''INVALID_STATE_VERSION''"
definition ErrorUnauthorized :: string where "ErrorUnauthorized = ''UNAUTHORIZED''"
definition ErrorInvalidSession :: string where "ErrorInvalidSession = ''INVALID_SESSION''"
definition ErrorNotFound :: string where "ErrorNotFound = ''NOT_FOUND''"
definition ErrorRateLimited :: string where "ErrorRateLimited = ''RATE_LIMITED''"
definition ErrorSyncRequired :: string where "ErrorSyncRequired = ''SYNC_REQUIRED''"
definition ErrorStateSyncRequired :: string where "ErrorStateSyncRequired = ''STATE_SYNC_REQUIRED''"
definition ErrorStateUnavailable :: string where "ErrorStateUnavailable = ''STATE_UNAVAILABLE''"
definition ErrorInternal :: string where "ErrorInternal = ''INTERNAL''"
definition ErrorProtocolViolation :: string where "ErrorProtocolViolation = ''PROTOCOL_VIOLATION''"

lemmas error_code_defs =
  ErrorBadRequest_def ErrorUnsupportedVersion_def ErrorUnsupportedFeature_def
  ErrorInvalidCapability_def ErrorInvalidStateVersion_def ErrorUnauthorized_def
  ErrorInvalidSession_def ErrorNotFound_def ErrorRateLimited_def ErrorSyncRequired_def
  ErrorStateSyncRequired_def ErrorStateUnavailable_def ErrorInternal_def ErrorProtocolViolation_def

section \<open>Dispositions\<close>

record ErrorBehavior =
  eb_Retryable :: bool
  eb_RetryabilityFixed :: bool
  eb_CloseConnection :: bool
  eb_AbandonSession :: bool
  eb_FullSyncRequired :: bool

definition no_behavior :: ErrorBehavior where
  "no_behavior = \<lparr>eb_Retryable = False, eb_RetryabilityFixed = False, eb_CloseConnection = False,
     eb_AbandonSession = False, eb_FullSyncRequired = False\<rparr>"

definition BehaviorForErrorCode :: "string \<Rightarrow> ErrorBehavior \<times> bool" where
  "BehaviorForErrorCode code =
     (if code = ErrorBadRequest then (no_behavior\<lparr>eb_RetryabilityFixed := True\<rparr>, True)
      else if code = ErrorUnsupportedVersion then
        (no_behavior\<lparr>eb_RetryabilityFixed := True, eb_CloseConnection := True\<rparr>, True)
      else if code = ErrorUnsupportedFeature then
        (no_behavior\<lparr>eb_RetryabilityFixed := True, eb_CloseConnection := True\<rparr>, True)
      else if code = ErrorInvalidCapability then (no_behavior\<lparr>eb_RetryabilityFixed := True\<rparr>, True)
      else if code = ErrorInvalidStateVersion then (no_behavior\<lparr>eb_RetryabilityFixed := True\<rparr>, True)
      else if code = ErrorUnauthorized then
        (no_behavior\<lparr>eb_RetryabilityFixed := True, eb_CloseConnection := True\<rparr>, True)
      else if code = ErrorInvalidSession then
        (no_behavior\<lparr>eb_RetryabilityFixed := True, eb_AbandonSession := True\<rparr>, True)
      else if code = ErrorNotFound then (no_behavior\<lparr>eb_RetryabilityFixed := True\<rparr>, True)
      else if code = ErrorRateLimited then
        (no_behavior\<lparr>eb_Retryable := True, eb_RetryabilityFixed := True\<rparr>, True)
      else if code = ErrorSyncRequired then
        (no_behavior\<lparr>eb_RetryabilityFixed := True, eb_FullSyncRequired := True\<rparr>, True)
      else if code = ErrorStateSyncRequired then
        (no_behavior\<lparr>eb_RetryabilityFixed := True, eb_CloseConnection := True\<rparr>, True)
      else if code = ErrorStateUnavailable then
        (no_behavior\<lparr>eb_Retryable := True, eb_RetryabilityFixed := True, eb_CloseConnection := True\<rparr>, True)
      else if code = ErrorInternal then (no_behavior, True)
      else if code = ErrorProtocolViolation then
        (no_behavior\<lparr>eb_RetryabilityFixed := True, eb_CloseConnection := True\<rparr>, True)
      else (no_behavior, False))"

section \<open>Errors as values\<close>

datatype sentinel =
    ErrOutboundClosed
  | ErrReplayUnavailable
  | ErrReplayLimitExceeded
  | ErrSequenceExhausted
  | ErrStateSnapshotLimitExceeded
  | ErrStateStale
  | ErrStateConflict
  | ErrStateIdentityMismatch
  | ErrSessionExists
  | ErrStreamCallbackActive

datatype go_error =
    ProtocolError (pe_Code: string) (pe_Message: string) (pe_RefID: string) (pe_Retryable: bool)
      (pe_Close: bool) (pe_Cause: "go_error option")
  | Sentinel sentinel
  | NewError string
  | WrapError string go_error
  | JsonError json_error
  | ExternalError string

definition NewProtocolError :: "string \<Rightarrow> string \<Rightarrow> go_error" where
  "NewProtocolError code message =
     (let behavior = fst (BehaviorForErrorCode code)
      in ProtocolError code message '''' (eb_Retryable behavior) (eb_CloseConnection behavior) None)"

definition newProtocolErrorWithCause :: "string \<Rightarrow> string \<Rightarrow> go_error \<Rightarrow> go_error" where
  "newProtocolErrorWithCause code message cause =
     (case NewProtocolError code message of
        ProtocolError c m r rt cl _ \<Rightarrow> ProtocolError c m r rt cl (Some cause)
      | e \<Rightarrow> e)"

definition ErrStaleConnection :: go_error where
  "ErrStaleConnection = ProtocolError ErrorProtocolViolation ''stale connection generation'' '''' False False None"

definition ErrInvalidState :: go_error where
  "ErrInvalidState = ProtocolError ErrorProtocolViolation ''invalid state transition'' '''' False False None"

definition ErrProtocolConflict :: go_error where
  "ErrProtocolConflict = ProtocolError ErrorProtocolViolation ''sequence identity conflict'' '''' False False None"

definition ErrIdentityExpired :: go_error where
  "ErrIdentityExpired = ProtocolError ErrorProtocolViolation
     ''event identity is outside the retained verification window'' '''' False False None"

text \<open>\<open>Unwrap\<close>, \<open>errors.Is\<close> against a sentinel, and \<open>errors.As\<close> to a \<open>*ProtocolError\<close>.\<close>

fun errors_Is :: "go_error \<Rightarrow> sentinel \<Rightarrow> bool" where
  "errors_Is (Sentinel x) s \<longleftrightarrow> x = s"
| "errors_Is (WrapError p e) s \<longleftrightarrow> errors_Is e s"
| "errors_Is (ProtocolError c m r rt cl (Some e)) s \<longleftrightarrow> errors_Is e s"
| "errors_Is (ProtocolError c m r rt cl None) s \<longleftrightarrow> False"
| "errors_Is (NewError t) s \<longleftrightarrow> False"
| "errors_Is (JsonError j) s \<longleftrightarrow> False"
| "errors_Is (ExternalError t) s \<longleftrightarrow> False"

fun errors_As :: "go_error \<Rightarrow> go_error option" where
  "errors_As (ProtocolError c m r rt cl k) = Some (ProtocolError c m r rt cl k)"
| "errors_As (WrapError p e) = errors_As e"
| "errors_As (Sentinel x) = None"
| "errors_As (NewError t) = None"
| "errors_As (JsonError j) = None"
| "errors_As (ExternalError t) = None"

text \<open>What a call that may also panic comes back with.\<close>

datatype 'a outcome = Ret 'a | Err go_error | Panic string

section \<open>Error text\<close>

fun json_error_text :: "json_error \<Rightarrow> string" where
  "json_error_text JSyntaxError = ''invalid JSON''"
| "json_error_text JTypeError = ''json: cannot unmarshal value''"
| "json_error_text (JUnknownField k) = ''json: unknown field '' @ CHR 0x22 # k @ [CHR 0x22]"
| "json_error_text (JDuplicate k) = ''duplicate object member '' @ CHR 0x22 # k @ [CHR 0x22]"

fun sentinel_text :: "sentinel \<Rightarrow> string" where
  "sentinel_text ErrOutboundClosed = ''kmtproto: outbound queue closed''"
| "sentinel_text ErrReplayUnavailable = ''kmtproto: replay range unavailable''"
| "sentinel_text ErrReplayLimitExceeded = ''kmtproto: replay range exceeds configured limits''"
| "sentinel_text ErrSequenceExhausted = ''kmtproto: event sequence exhausted''"
| "sentinel_text ErrStateSnapshotLimitExceeded = ''kmtproto: State snapshot exceeds configured limits''"
| "sentinel_text ErrStateStale = ''kmtproto: stale state version''"
| "sentinel_text ErrStateConflict = ''kmtproto: state version conflict''"
| "sentinel_text ErrStateIdentityMismatch = ''kmtproto: state identity mismatch''"
| "sentinel_text ErrSessionExists = ''kmtproto: session already exists''"
| "sentinel_text ErrStreamCallbackActive = ''kmtproto: session stream callback is active''"

fun error_text :: "go_error \<Rightarrow> string" where
  "error_text (ProtocolError c m r rt cl k) =
     (if r = '''' then ''kmtproto: '' @ c @ '': '' @ m
      else ''kmtproto: '' @ c @ '' ('' @ r @ ''): '' @ m)"
| "error_text (Sentinel x) = sentinel_text x"
| "error_text (NewError t) = t"
| "error_text (WrapError p e) = p @ '': '' @ error_text e"
| "error_text (JsonError j) = json_error_text j"
| "error_text (ExternalError t) = t"

definition bad_request :: "string \<Rightarrow> go_error" where
  "bad_request m = NewProtocolError ErrorBadRequest m"

section \<open>Lemmas\<close>

lemma error_codes_distinct [simp]:
  "distinct [ErrorBadRequest, ErrorUnsupportedVersion, ErrorUnsupportedFeature, ErrorInvalidCapability,
     ErrorInvalidStateVersion, ErrorUnauthorized, ErrorInvalidSession, ErrorNotFound, ErrorRateLimited,
     ErrorSyncRequired, ErrorStateSyncRequired, ErrorStateUnavailable, ErrorInternal,
     ErrorProtocolViolation]"
  by (simp add: error_code_defs)

lemma BehaviorForErrorCode_retryable:
  "eb_Retryable (fst (BehaviorForErrorCode c)) \<longleftrightarrow> c = ErrorRateLimited \<or> c = ErrorStateUnavailable"
  by (simp add: BehaviorForErrorCode_def no_behavior_def error_code_defs)

lemma BehaviorForErrorCode_abandon:
  "eb_AbandonSession (fst (BehaviorForErrorCode c)) \<longleftrightarrow> c = ErrorInvalidSession"
  by (simp add: BehaviorForErrorCode_def no_behavior_def error_code_defs)

lemma BehaviorForErrorCode_fullsync:
  "eb_FullSyncRequired (fst (BehaviorForErrorCode c)) \<longleftrightarrow> c = ErrorSyncRequired"
  by (simp add: BehaviorForErrorCode_def no_behavior_def error_code_defs)

lemma NewProtocolError_sel [simp]:
  "pe_Code (NewProtocolError c m) = c" "pe_Message (NewProtocolError c m) = m"
  "pe_Close (NewProtocolError c m) = eb_CloseConnection (fst (BehaviorForErrorCode c))"
  "pe_Retryable (NewProtocolError c m) = eb_Retryable (fst (BehaviorForErrorCode c))"
  "errors_As (NewProtocolError c m) = Some (NewProtocolError c m)"
  "errors_Is (NewProtocolError c m) s \<longleftrightarrow> False"
  by (simp_all add: NewProtocolError_def Let_def)

lemma bad_request_sel [simp]:
  "pe_Code (bad_request m) = ErrorBadRequest" "errors_As (bad_request m) = Some (bad_request m)"
  "errors_Is (bad_request m) s \<longleftrightarrow> False"
  by (simp_all add: bad_request_def)

lemma newProtocolErrorWithCause_Is [simp]:
  "errors_Is (newProtocolErrorWithCause c m e) s \<longleftrightarrow> errors_Is e s"
  by (simp add: newProtocolErrorWithCause_def NewProtocolError_def Let_def)

end
