(* ===== verification/Proto_Limits.thy ===== *)
theory Proto_Limits
  imports Proto_Error
begin

text \<open>
  \<open>limits.go\<close>: the configured bounds.  A zero field means "use the default"; negative fields are
  refused by \<open>validateLimits\<close>.
\<close>

section \<open>Defaults\<close>

definition DefaultMaxReplayEvents :: uint64 where "DefaultMaxReplayEvents = 4096"
definition DefaultEventIdentityWindow :: uint64 where "DefaultEventIdentityWindow = 4096"
definition DefaultMaxCapabilities :: int where "DefaultMaxCapabilities = 32"
definition DefaultMaxCapabilityNameLength :: int where "DefaultMaxCapabilityNameLength = 64"
definition DefaultMaxCapabilityVersions :: int where "DefaultMaxCapabilityVersions = 16"
definition DefaultMaxClientNameLength :: int where "DefaultMaxClientNameLength = 128"
definition DefaultMaxEventTypeLength :: int where "DefaultMaxEventTypeLength = 128"
definition DefaultMaxStateNamespaceLength :: int where "DefaultMaxStateNamespaceLength = 64"
definition DefaultMaxStateObjectIDLength :: int where "DefaultMaxStateObjectIDLength = 256"
definition DefaultMaxStateDataSize :: int where "DefaultMaxStateDataSize = 512 * 2 ^ 10"
definition DefaultMaxStateObjectSize :: int where "DefaultMaxStateObjectSize = 640 * 2 ^ 10"
definition DefaultMaxStateQueryObjects :: int where "DefaultMaxStateQueryObjects = 128"
definition DefaultMaxStateSnapshotObjects :: int where "DefaultMaxStateSnapshotObjects = 128"
definition DefaultMaxStateSnapshotBytes :: int where "DefaultMaxStateSnapshotBytes = 768 * 2 ^ 10"
definition DefaultMaxStateSyncNamespaces :: int where "DefaultMaxStateSyncNamespaces = 32"
definition DefaultMaxStateCacheObjects :: int where "DefaultMaxStateCacheObjects = 4096"
definition DefaultMaxStateCacheBytes :: int where "DefaultMaxStateCacheBytes = 16 * 2 ^ 20"
definition DefaultMaxReplayBytes :: int where "DefaultMaxReplayBytes = 16 * 2 ^ 20"

record Limits =
  MaxFrameSize :: int
  MaxPayloadSize :: int
  MaxIDLength :: int
  MaxSessionIDLength :: int
  MaxErrorMessageLength :: int
  MaxCapabilities :: int
  MaxCapabilityNameLength :: int
  MaxCapabilityVersions :: int
  MaxClientNameLength :: int
  MaxEventTypeLength :: int
  MaxStateNamespaceLength :: int
  MaxStateObjectIDLength :: int
  MaxStateDataSize :: int
  MaxStateObjectSize :: int
  MaxStateQueryObjects :: int
  MaxStateSnapshotObjects :: int
  MaxStateSnapshotBytes :: int
  MaxStateSyncNamespaces :: int

definition DefaultLimits :: Limits where
  "DefaultLimits = \<lparr>
     MaxFrameSize = 2 ^ 20,
     MaxPayloadSize = 768 * 2 ^ 10,
     MaxIDLength = 128,
     MaxSessionIDLength = 128,
     MaxErrorMessageLength = 1024,
     MaxCapabilities = DefaultMaxCapabilities,
     MaxCapabilityNameLength = DefaultMaxCapabilityNameLength,
     MaxCapabilityVersions = DefaultMaxCapabilityVersions,
     MaxClientNameLength = DefaultMaxClientNameLength,
     MaxEventTypeLength = DefaultMaxEventTypeLength,
     MaxStateNamespaceLength = DefaultMaxStateNamespaceLength,
     MaxStateObjectIDLength = DefaultMaxStateObjectIDLength,
     MaxStateDataSize = DefaultMaxStateDataSize,
     MaxStateObjectSize = DefaultMaxStateObjectSize,
     MaxStateQueryObjects = DefaultMaxStateQueryObjects,
     MaxStateSnapshotObjects = DefaultMaxStateSnapshotObjects,
     MaxStateSnapshotBytes = DefaultMaxStateSnapshotBytes,
     MaxStateSyncNamespaces = DefaultMaxStateSyncNamespaces\<rparr>"

definition or_default :: "int \<Rightarrow> int \<Rightarrow> int" where
  "or_default x d = (if x = 0 then d else x)"

definition normalizeLimits :: "Limits \<Rightarrow> Limits" where
  "normalizeLimits l = \<lparr>
     MaxFrameSize = or_default (MaxFrameSize l) (MaxFrameSize DefaultLimits),
     MaxPayloadSize = or_default (MaxPayloadSize l) (MaxPayloadSize DefaultLimits),
     MaxIDLength = or_default (MaxIDLength l) (MaxIDLength DefaultLimits),
     MaxSessionIDLength = or_default (MaxSessionIDLength l) (MaxSessionIDLength DefaultLimits),
     MaxErrorMessageLength = or_default (MaxErrorMessageLength l) (MaxErrorMessageLength DefaultLimits),
     MaxCapabilities = or_default (MaxCapabilities l) DefaultMaxCapabilities,
     MaxCapabilityNameLength = or_default (MaxCapabilityNameLength l) DefaultMaxCapabilityNameLength,
     MaxCapabilityVersions = or_default (MaxCapabilityVersions l) DefaultMaxCapabilityVersions,
     MaxClientNameLength = or_default (MaxClientNameLength l) DefaultMaxClientNameLength,
     MaxEventTypeLength = or_default (MaxEventTypeLength l) DefaultMaxEventTypeLength,
     MaxStateNamespaceLength = or_default (MaxStateNamespaceLength l) DefaultMaxStateNamespaceLength,
     MaxStateObjectIDLength = or_default (MaxStateObjectIDLength l) DefaultMaxStateObjectIDLength,
     MaxStateDataSize = or_default (MaxStateDataSize l) DefaultMaxStateDataSize,
     MaxStateObjectSize = or_default (MaxStateObjectSize l) DefaultMaxStateObjectSize,
     MaxStateQueryObjects = or_default (MaxStateQueryObjects l) DefaultMaxStateQueryObjects,
     MaxStateSnapshotObjects = or_default (MaxStateSnapshotObjects l) DefaultMaxStateSnapshotObjects,
     MaxStateSnapshotBytes = or_default (MaxStateSnapshotBytes l) DefaultMaxStateSnapshotBytes,
     MaxStateSyncNamespaces = or_default (MaxStateSyncNamespaces l) DefaultMaxStateSyncNamespaces\<rparr>"

definition validateLimits :: "Limits \<Rightarrow> go_error option" where
  "validateLimits l =
     (if MaxFrameSize l \<le> 0 \<or>
       MaxPayloadSize l \<le> 0 \<or>
       MaxIDLength l \<le> 0 \<or>
       MaxSessionIDLength l \<le> 0 \<or>
       MaxErrorMessageLength l \<le> 0 \<or>
       MaxCapabilities l \<le> 0 \<or>
       MaxCapabilityNameLength l \<le> 0 \<or>
       MaxCapabilityVersions l \<le> 0 \<or>
       MaxClientNameLength l \<le> 0 \<or>
       MaxEventTypeLength l \<le> 0 \<or>
       MaxStateNamespaceLength l \<le> 0 \<or>
       MaxStateObjectIDLength l \<le> 0 \<or>
       MaxStateDataSize l \<le> 0 \<or>
       MaxStateObjectSize l \<le> 0 \<or>
       MaxStateQueryObjects l \<le> 0 \<or>
       MaxStateSnapshotObjects l \<le> 0 \<or>
       MaxStateSnapshotBytes l \<le> 0 \<or>
       MaxStateSyncNamespaces l \<le> 0
      then Some (NewError ''kmtproto: protocol limits must be positive'') else None)"

section \<open>Lemmas\<close>

lemma or_default_simps [simp]: "or_default 0 d = d" "or_default (or_default x d) d = or_default x d"
  by (simp_all add: or_default_def)

lemma or_default_id: "\<not> x \<le> 0 \<Longrightarrow> or_default x d = x"
  by (simp add: or_default_def)

lemma or_default_pos: "0 < d \<Longrightarrow> 0 \<le> x \<Longrightarrow> 0 < or_default x d"
  by (simp add: or_default_def)

lemma normalizeLimits_idem [simp]: "normalizeLimits (normalizeLimits l) = normalizeLimits l"
  by (simp add: normalizeLimits_def)

lemmas default_limit_defs =
  DefaultMaxCapabilities_def DefaultMaxCapabilityNameLength_def DefaultMaxCapabilityVersions_def DefaultMaxClientNameLength_def DefaultMaxEventTypeLength_def DefaultMaxStateNamespaceLength_def DefaultMaxStateObjectIDLength_def DefaultMaxStateDataSize_def DefaultMaxStateObjectSize_def DefaultMaxStateQueryObjects_def DefaultMaxStateSnapshotObjects_def DefaultMaxStateSnapshotBytes_def DefaultMaxStateSyncNamespaces_def DefaultMaxStateCacheObjects_def DefaultMaxStateCacheBytes_def DefaultMaxReplayBytes_def DefaultLimits_def

lemma validateLimits_normalized:
  "validateLimits l = None \<Longrightarrow> normalizeLimits l = l"
  by (cases l) (simp add: validateLimits_def normalizeLimits_def or_default_id split: if_splits)

lemma validateLimits_default: "validateLimits DefaultLimits = None"
  by (simp add: validateLimits_def default_limit_defs)

end
