(* ===== verification/Capability.thy ===== *)
theory Capability
  imports Proto_Limits
begin

text \<open>
  \<open>capability.go\<close>: validation of capability names, versions, offers and registries, and the
  negotiation a server runs on a client's HELLO.
\<close>

section \<open>Data\<close>

record CapabilityOffer =
  co_Name :: string
  co_Versions :: "uint16 list"
  co_Required :: bool

record CapabilitySpec =
  cs_Name :: string
  cs_Versions :: "uint16 list"

record NegotiatedCapability =
  nc_Name :: string
  nc_Version :: uint16

record SessionCapabilities =
  sc_selections :: "NegotiatedCapability list"
  sc_versions :: "(string, uint16) gomap"

record CapabilityRegistry =
  cr_versions :: "(string, uint16 list) gomap"

definition no_capabilities :: SessionCapabilities where
  "no_capabilities = \<lparr>sc_selections = [], sc_versions = []\<rparr>"

section \<open>Names\<close>

definition is_lower :: "char \<Rightarrow> bool" where
  "is_lower c \<longleftrightarrow> byte_in 97 122 c"

definition is_sep :: "char \<Rightarrow> bool" where
  "is_sep c \<longleftrightarrow> c = CHR ''.'' \<or> c = CHR ''-''"

text \<open>
  The character loop shared by capability names and State namespaces: \<open>sep\<close> is the flag
  \<open>separator\<close>, and a name that ends in a separator is refused after the loop.
\<close>

fun name_loop :: "bool \<Rightarrow> string \<Rightarrow> bool" where
  "name_loop sep [] \<longleftrightarrow> \<not> sep"
| "name_loop sep (ch # r) \<longleftrightarrow>
     (if is_lower ch \<or> is_digit ch then name_loop False r
      else if is_sep ch then (if sep then False else name_loop True r)
      else False)"

function FieldsFunc :: "(char \<Rightarrow> bool) \<Rightarrow> string \<Rightarrow> string list" where
  "FieldsFunc p s = (case dropWhile p s of
     [] \<Rightarrow> []
   | c # t \<Rightarrow> (c # takeWhile (\<lambda>x. \<not> p x) t) # FieldsFunc p (dropWhile (\<lambda>x. \<not> p x) t))"
  by pat_completeness auto
termination
proof (relation "measure (\<lambda>(p, s). length s)")
  fix p s c t
  assume "dropWhile p s = c # t"
  then have "length (c # t) \<le> length s" by (metis length_dropWhile_le)
  then show "((p, dropWhile (\<lambda>x. \<not> p x) t), p, s) \<in> measure (\<lambda>(p, s). length s)"
    using length_dropWhile_le [of "\<lambda>x. \<not> p x" t] by simp
qed simp

declare FieldsFunc.simps [simp del]

definition allASCIIDigits :: "string \<Rightarrow> bool" where
  "allASCIIDigits value \<longleftrightarrow> value \<noteq> [] \<and> list_all is_digit value"

definition validateCapabilityName :: "string \<Rightarrow> Limits \<Rightarrow> go_error option" where
  "validateCapabilityName name limits =
     (if name = [] \<or> len name > MaxCapabilityNameLength limits \<or> \<not> ValidString name then
        Some (NewProtocolError ErrorInvalidCapability ''invalid or oversized capability name'')
      else if \<not> is_lower (hd name) then
        Some (NewProtocolError ErrorInvalidCapability (''invalid capability name: '' @ name))
      else if \<not> name_loop False (tl name) then
        Some (NewProtocolError ErrorInvalidCapability (''invalid capability name: '' @ name))
      else
        (let final = last (FieldsFunc is_sep name) in
         if len final > 1 \<and> hd final = CHR ''v'' \<and> allASCIIDigits (tl final) then
           Some (NewProtocolError ErrorInvalidCapability ''capability version must use the numeric version field'')
         else None))"

section \<open>Versions\<close>

fun check_versions :: "uint16 option \<Rightarrow> uint16 list \<Rightarrow> go_error option" where
  "check_versions prev [] = None"
| "check_versions prev (v # vs) =
     (if v = 0 then Some (NewProtocolError ErrorInvalidCapability ''capability version must be positive'')
      else if prev = Some v then
        Some (NewProtocolError ErrorInvalidCapability ''duplicate capability version'')
      else check_versions (Some v) vs)"

definition validateAndSortCapabilityVersions :: "uint16 list \<Rightarrow> Limits \<Rightarrow> go_error + uint16 list" where
  "validateAndSortCapabilityVersions versions limits =
     (if versions = [] \<or> len versions > MaxCapabilityVersions limits then
        Inl (NewProtocolError ErrorInvalidCapability ''capability requires a bounded non-empty version list'')
      else
        (let result = sort versions in
         case check_versions None result of Some e \<Rightarrow> Inl e | None \<Rightarrow> Inr result))"

text \<open>The two cursors start at the ends of the sorted lists and only move down.\<close>

function highest_common_loop :: "uint16 list \<Rightarrow> uint16 list \<Rightarrow> int \<Rightarrow> int \<Rightarrow> uint16 option" where
  "highest_common_loop client server i j =
     (if 0 \<le> i \<and> 0 \<le> j then
        (if client ! nat i = server ! nat j then Some (client ! nat i)
         else if client ! nat i > server ! nat j then highest_common_loop client server (i - 1) j
         else highest_common_loop client server i (j - 1))
      else None)"
  by pat_completeness auto
termination
  by (relation "measure (\<lambda>(c, s, i, j). nat (i + 1) + nat (j + 1))") auto

declare highest_common_loop.simps [simp del]

definition highestCommonCapabilityVersion :: "uint16 list \<Rightarrow> uint16 list \<Rightarrow> uint16 option" where
  "highestCommonCapabilityVersion client server =
     highest_common_loop client server (len client - 1) (len server - 1)"

text \<open>\<open>sort.Search\<close>: binary search on \<open>[i, j)\<close>.\<close>

function sort_Search_loop :: "(nat \<Rightarrow> bool) \<Rightarrow> nat \<Rightarrow> nat \<Rightarrow> nat" where
  "sort_Search_loop f i j =
     (if i < j then
        (let h = (i + j) div 2 in
         if \<not> f h then sort_Search_loop f (h + 1) j else sort_Search_loop f i h)
      else i)"
  by pat_completeness auto
termination
  by (relation "measure (\<lambda>(f, i, j). j - i)") auto

declare sort_Search_loop.simps [simp del]

definition sort_Search :: "nat \<Rightarrow> (nat \<Rightarrow> bool) \<Rightarrow> nat" where
  "sort_Search n f = sort_Search_loop f 0 n"

definition containsCapabilityVersion :: "uint16 list \<Rightarrow> uint16 \<Rightarrow> bool" where
  "containsCapabilityVersion versions target =
     (let i = sort_Search (length versions) (\<lambda>i. versions ! i \<ge> target)
      in i < length versions \<and> versions ! i = target)"

section \<open>Negotiated lists and Session capabilities\<close>

fun check_negotiated ::
  "Limits \<Rightarrow> string list \<Rightarrow> string option \<Rightarrow> NegotiatedCapability list \<Rightarrow> go_error option" where
  "check_negotiated limits seen prev [] = None"
| "check_negotiated limits seen prev (c # cs) =
     (case validateCapabilityName (nc_Name c) limits of
        Some e \<Rightarrow> Some e
      | None \<Rightarrow>
        if nc_Version c = 0 then
          Some (NewProtocolError ErrorInvalidCapability ''capability version must be positive'')
        else if nc_Name c \<in> set seen then
          Some (NewProtocolError ErrorInvalidCapability (''duplicate negotiated capability: '' @ nc_Name c))
        else if (case prev of None \<Rightarrow> False | Some p \<Rightarrow> nc_Name c \<le> p) then
          Some (NewProtocolError ErrorInvalidCapability ''negotiated capabilities must use canonical name order'')
        else check_negotiated limits (nc_Name c # seen) (Some (nc_Name c)) cs)"

definition ValidateNegotiatedCapabilities :: "NegotiatedCapability list \<Rightarrow> Limits \<Rightarrow> go_error option" where
  "ValidateNegotiatedCapabilities capabilities limits0 =
     (let limits = normalizeLimits limits0 in
      if len capabilities > MaxCapabilities limits then
        Some (NewProtocolError ErrorInvalidCapability ''too many negotiated capabilities'')
      else check_negotiated limits [] None capabilities)"

definition cloneNegotiatedCapabilities :: "NegotiatedCapability list \<Rightarrow> NegotiatedCapability list" where
  "cloneNegotiatedCapabilities capabilities = [] @ capabilities"

definition NewSessionCapabilities ::
  "NegotiatedCapability list \<Rightarrow> Limits \<Rightarrow> go_error + SessionCapabilities" where
  "NewSessionCapabilities capabilities limits =
     (case ValidateNegotiatedCapabilities capabilities limits of
        Some e \<Rightarrow> Inl e
      | None \<Rightarrow> Inr \<lparr>sc_selections = cloneNegotiatedCapabilities capabilities,
          sc_versions = fold (\<lambda>c m. map_put (nc_Name c) (nc_Version c) m) capabilities []\<rparr>)"

definition Capabilities_Enabled :: "SessionCapabilities \<Rightarrow> string \<Rightarrow> bool" where
  "Capabilities_Enabled c name \<longleftrightarrow> map_get (sc_versions c) name \<noteq> None"

definition Capabilities_Version :: "SessionCapabilities \<Rightarrow> string \<Rightarrow> uint16 option" where
  "Capabilities_Version c name = map_get (sc_versions c) name"

definition Capabilities_List :: "SessionCapabilities \<Rightarrow> NegotiatedCapability list" where
  "Capabilities_List c = cloneNegotiatedCapabilities (sc_selections c)"

section \<open>Registries\<close>

fun registry_loop ::
  "Limits \<Rightarrow> (string, uint16 list) gomap \<Rightarrow> CapabilitySpec list \<Rightarrow> go_error + (string, uint16 list) gomap" where
  "registry_loop limits m [] = Inr m"
| "registry_loop limits m (spec # specs) =
     (case validateCapabilityName (cs_Name spec) limits of
        Some e \<Rightarrow> Inl e
      | None \<Rightarrow>
        if map_get m (cs_Name spec) \<noteq> None then
          Inl (NewProtocolError ErrorInvalidCapability (''duplicate capability specification: '' @ cs_Name spec))
        else
          (case validateAndSortCapabilityVersions (cs_Versions spec) limits of
             Inl e \<Rightarrow> Inl (WrapError (''kmtproto: capability '' @ cs_Name spec) e)
           | Inr versions \<Rightarrow> registry_loop limits (map_put (cs_Name spec) versions m) specs))"

definition NewCapabilityRegistry :: "CapabilitySpec list \<Rightarrow> Limits \<Rightarrow> go_error + CapabilityRegistry" where
  "NewCapabilityRegistry specs limits0 =
     (let limits = normalizeLimits limits0 in
      case validateLimits limits of Some e \<Rightarrow> Inl e | None \<Rightarrow>
      if len specs > MaxCapabilities limits then
        Inl (NewProtocolError ErrorInvalidCapability ''too many capability specifications'')
      else ebind (registry_loop limits [] specs) (\<lambda>m. Inr \<lparr>cr_versions = m\<rparr>))"

definition emptyCapabilityRegistry :: CapabilityRegistry where
  "emptyCapabilityRegistry = \<lparr>cr_versions = []\<rparr>"

definition registry_validate :: "CapabilityRegistry option \<Rightarrow> Limits \<Rightarrow> go_error option" where
  "registry_validate r limits0 =
     (let limits = normalizeLimits limits0 in
      case r of None \<Rightarrow> None | Some reg \<Rightarrow>
      if len (cr_versions reg) > MaxCapabilities limits then
        Some (NewProtocolError ErrorInvalidCapability ''capability registry exceeds configured limits'')
      else check_all (\<lambda>(name, versions).
        case validateCapabilityName name limits of Some e \<Rightarrow> Some e | None \<Rightarrow>
        if versions = [] \<or> len versions > MaxCapabilityVersions limits then
          Some (NewProtocolError ErrorInvalidCapability ''capability registry version list exceeds configured limits'')
        else None) (cr_versions reg))"

section \<open>Offers and negotiation\<close>

fun offers_loop :: "Limits \<Rightarrow> string list \<Rightarrow> CapabilityOffer list \<Rightarrow> go_error + CapabilityOffer list" where
  "offers_loop limits seen [] = Inr []"
| "offers_loop limits seen (offer # offers) =
     (case validateCapabilityName (co_Name offer) limits of
        Some e \<Rightarrow> Inl e
      | None \<Rightarrow>
        if co_Name offer \<in> set seen then
          Inl (NewProtocolError ErrorInvalidCapability (''duplicate capability offer: '' @ co_Name offer))
        else
          (case validateAndSortCapabilityVersions (co_Versions offer) limits of
             Inl e \<Rightarrow> Inl (WrapError (''kmtproto: capability '' @ co_Name offer) e)
           | Inr versions \<Rightarrow>
               ebind (offers_loop limits (co_Name offer # seen) offers)
                 (\<lambda>rest. Inr (\<lparr>co_Name = co_Name offer, co_Versions = versions,
                               co_Required = co_Required offer\<rparr> # rest))))"

definition validateAndCopyCapabilityOffers ::
  "CapabilityOffer list \<Rightarrow> Limits \<Rightarrow> go_error + CapabilityOffer list" where
  "validateAndCopyCapabilityOffers offers limits0 =
     (let limits = normalizeLimits limits0 in
      if len offers > MaxCapabilities limits then
        Inl (NewProtocolError ErrorInvalidCapability ''too many capability offers'')
      else offers_loop limits [] offers)"

definition registry_versions :: "CapabilityRegistry \<Rightarrow> string \<Rightarrow> uint16 list" where
  "registry_versions r name = (case map_get (cr_versions r) name of None \<Rightarrow> [] | Some vs \<Rightarrow> vs)"

fun accept_loop :: "CapabilityRegistry \<Rightarrow> CapabilityOffer list \<Rightarrow> go_error + NegotiatedCapability list" where
  "accept_loop r [] = Inr []"
| "accept_loop r (offer # offers) =
     (case highestCommonCapabilityVersion (co_Versions offer) (registry_versions r (co_Name offer)) of
        None \<Rightarrow>
          if co_Required offer then
            Inl (NewProtocolError ErrorUnsupportedFeature (''required capability is unsupported: '' @ co_Name offer))
          else accept_loop r offers
      | Some v \<Rightarrow>
          ebind (accept_loop r offers) (\<lambda>rest. Inr (\<lparr>nc_Name = co_Name offer, nc_Version = v\<rparr> # rest)))"

definition Negotiate ::
  "CapabilityRegistry option \<Rightarrow> CapabilityOffer list \<Rightarrow> Limits \<Rightarrow> go_error + SessionCapabilities" where
  "Negotiate r offers limits0 =
     (let limits = normalizeLimits limits0 in
      ebind (validateAndCopyCapabilityOffers offers limits) (\<lambda>validated.
      ebind (accept_loop (case r of None \<Rightarrow> emptyCapabilityRegistry | Some reg \<Rightarrow> reg) validated) (\<lambda>accepted.
      NewSessionCapabilities (sort_key nc_Name accepted) limits)))"

definition validateNegotiatedAgainstOffers ::
  "CapabilityOffer list \<Rightarrow> NegotiatedCapability list \<Rightarrow> Limits \<Rightarrow> go_error option" where
  "validateNegotiatedAgainstOffers offers accepted limits =
     echeck (validateAndCopyCapabilityOffers offers limits) (\<lambda>validated.
     case ValidateNegotiatedCapabilities accepted limits of Some e \<Rightarrow> Some e | None \<Rightarrow>
     (let offerByName = fold (\<lambda>offer m. map_put (co_Name offer) offer m) validated [];
          acceptedNames = map nc_Name accepted
      in first_err
        (check_all (\<lambda>c. case map_get offerByName (nc_Name c) of
             None \<Rightarrow> Some (NewProtocolError ErrorProtocolViolation ''server accepted an unoffered capability version'')
           | Some offer \<Rightarrow>
               if containsCapabilityVersion (co_Versions offer) (nc_Version c) then None
               else Some (NewProtocolError ErrorProtocolViolation ''server accepted an unoffered capability version''))
           accepted)
        (check_all (\<lambda>offer.
             if co_Required offer \<and> co_Name offer \<notin> set acceptedNames then
               Some (NewProtocolError ErrorProtocolViolation (''server omitted a required capability: '' @ co_Name offer))
             else None) validated)))"

definition cloneCapabilityOffers :: "CapabilityOffer list \<Rightarrow> CapabilityOffer list" where
  "cloneCapabilityOffers offers = map (\<lambda>offer. \<lparr>co_Name = co_Name offer,
     co_Versions = [] @ co_Versions offer, co_Required = co_Required offer\<rparr>) offers"

section \<open>Version lists\<close>

lemma check_versions_None:
  "check_versions prev vs = None \<Longrightarrow> sorted vs \<Longrightarrow> (\<forall>p. prev = Some p \<longrightarrow> (\<forall>v\<in>set vs. p \<le> v)) \<Longrightarrow>
     0 \<notin> set vs \<and> sorted_wrt (<) vs \<and> (\<forall>p. prev = Some p \<longrightarrow> (\<forall>v\<in>set vs. p < v))"
proof (induction prev vs rule: check_versions.induct)
  case (2 prev v vs)
  then have c: "check_versions (Some v) vs = None" "v \<noteq> 0" "prev \<noteq> Some v" "sorted vs" "\<forall>w\<in>set vs. v \<le> w"
    by (auto split: if_splits)
  with 2 have IH: "0 \<notin> set vs" "sorted_wrt (<) vs" "\<forall>w\<in>set vs. v < w"
    by auto
  have "p < w" if "prev = Some p" "w \<in> set (v # vs)" for p w
  proof -
    from that(1) "2.prems"(3) c(3) have "p < v" by (simp add: order_less_le)
    with that(2) IH(3) show ?thesis by auto
  qed
  with IH c(2) show ?case by simp
qed simp

lemma validateAndSort_Inr:
  assumes "validateAndSortCapabilityVersions versions limits = Inr result"
  shows "result = sort versions" "sorted_wrt (<) result" "0 \<notin> set result" "result \<noteq> []"
    "set result = set versions" "len result \<le> MaxCapabilityVersions limits"
proof -
  from assms have r: "result = sort versions" "check_versions None (sort versions) = None" "versions \<noteq> []"
      "len versions \<le> MaxCapabilityVersions limits"
    by (auto simp: validateAndSortCapabilityVersions_def Let_def split: if_splits option.splits)
  then show "result = sort versions" "set result = set versions" by simp_all
  with r(3) show "result \<noteq> []" by (metis set_empty)
  from r(1,4) show "len result \<le> MaxCapabilityVersions limits" by (simp add: len_def)
  from check_versions_None [OF r(2)] r(1) show "sorted_wrt (<) result" "0 \<notin> set result" by simp_all
qed

lemma sort_Search_loop_correct:
  assumes "\<forall>a b. a \<le> b \<longrightarrow> b < n \<longrightarrow> f a \<longrightarrow> f b" "i \<le> j" "j \<le> n"
    "\<forall>k<i. \<not> f k" "\<forall>k. j \<le> k \<longrightarrow> k < n \<longrightarrow> f k"
  shows "sort_Search_loop f i j \<le> n \<and> (\<forall>k < sort_Search_loop f i j. \<not> f k)
    \<and> (\<forall>k. sort_Search_loop f i j \<le> k \<longrightarrow> k < n \<longrightarrow> f k)"
  using assms
proof (induction f i j rule: sort_Search_loop.induct)
  case (1 f i j)
  define h where "h = (i + j) div 2"
  show ?case
  proof (cases "i < j")
    case True
    then have h: "i \<le> h" "h < j" by (simp_all add: h_def)
    show ?thesis
    proof (cases "f h")
      case f: True
      with "1.prems"(1) have fh: "\<forall>k. h \<le> k \<longrightarrow> k < n \<longrightarrow> f k" by blast
      have hn: "h \<le> n" using h "1.prems"(3) by simp
      have nf: "\<not> \<not> f h" using f by simp
      have eq: "sort_Search_loop f i j = sort_Search_loop f i h"
        using True f by (subst sort_Search_loop.simps) (simp add: h_def)
      show ?thesis unfolding eq
        by (rule "1.IH"(2) [OF True h_def nf "1.prems"(1) h(1) hn "1.prems"(4) fh])
    next
      case f: False
      have fh: "\<forall>k<h + 1. \<not> f k"
      proof (intro allI impI)
        fix k assume "k < h + 1"
        then have "k \<le> h" by simp
        moreover have "h < n" using h "1.prems"(3) by simp
        ultimately show "\<not> f k" using f "1.prems"(1) by blast
      qed
      have hj: "h + 1 \<le> j" using h by simp
      have eq: "sort_Search_loop f i j = sort_Search_loop f (h + 1) j"
        using True f by (subst sort_Search_loop.simps) (simp add: h_def)
      show ?thesis unfolding eq
        by (rule "1.IH"(1) [OF True h_def f "1.prems"(1) hj "1.prems"(3) fh "1.prems"(5)])
    qed
  next
    case False
    then have eq: "sort_Search_loop f i j = i" by (subst sort_Search_loop.simps) simp
    have "i = j" using False "1.prems"(2) by simp
    then show ?thesis using "1.prems"(3-5) unfolding eq by blast
  qed
qed

lemma containsCapabilityVersion_iff:
  assumes "sorted versions"
  shows "containsCapabilityVersion versions target \<longleftrightarrow> target \<in> set versions"
proof -
  let ?f = "\<lambda>i. versions ! i \<ge> target" and ?n = "length versions"
  let ?i = "sort_Search ?n ?f"
  have mono: "\<forall>a b. a \<le> b \<longrightarrow> b < ?n \<longrightarrow> ?f a \<longrightarrow> ?f b"
  proof (intro allI impI)
    fix a b assume "a \<le> b" "b < ?n" "?f a"
    with sorted_nth_mono [OF assms, of a b] show "?f b" by simp
  qed
  have "?i \<le> ?n \<and> (\<forall>k < ?i. \<not> ?f k) \<and> (\<forall>k. ?i \<le> k \<longrightarrow> k < ?n \<longrightarrow> ?f k)"
    unfolding sort_Search_def by (rule sort_Search_loop_correct [OF mono]) simp_all
  then have r: "?i \<le> ?n" "\<forall>k < ?i. \<not> ?f k" "\<forall>k. ?i \<le> k \<longrightarrow> k < ?n \<longrightarrow> ?f k"
    by blast+
  show ?thesis
  proof
    assume "containsCapabilityVersion versions target"
    then show "target \<in> set versions"
      by (auto simp: containsCapabilityVersion_def Let_def in_set_conv_nth)
  next
    assume "target \<in> set versions"
    then obtain k where k: "k < ?n" "versions ! k = target" by (auto simp: in_set_conv_nth)
    have ik: "?i \<le> k"
    proof (rule ccontr)
      assume "\<not> ?i \<le> k"
      then have "\<not> ?f k" using r(2) by simp
      with k(2) show False by simp
    qed
    with k(1) have i: "?i < ?n" by simp
    have "target \<le> versions ! ?i" using r(3) i by blast
    moreover have "versions ! ?i \<le> target" using sorted_nth_mono [OF assms ik k(1)] k(2) by simp
    ultimately show "containsCapabilityVersion versions target"
      using i by (simp add: containsCapabilityVersion_def Let_def)
  qed
qed

text \<open>The loop finds the greatest common element at or below the cursors.\<close>

lemma take_cursor:
  assumes "sorted_wrt (<) xs" "0 \<le> i" "i < len xs"
  shows "set (take (nat (i + 1)) xs) = insert (xs ! nat i) (set (take (nat i) xs))"
    "\<forall>x\<in>set (take (nat i) xs). x < xs ! nat i"
proof -
  have n: "nat i < length xs" "nat (i + 1) = Suc (nat i)" using assms by (simp_all add: len_def)
  then show "set (take (nat (i + 1)) xs) = insert (xs ! nat i) (set (take (nat i) xs))"
    by (simp add: take_Suc_conv_app_nth)
  show "\<forall>x\<in>set (take (nat i) xs). x < xs ! nat i"
    using n(1) assms(1) by (auto simp: in_set_conv_nth sorted_wrt_nth_less)
qed

lemma highest_common_loop_correct:
  assumes "sorted_wrt (<) client" "sorted_wrt (<) server" "i < len client" "j < len server"
  shows "case highest_common_loop client server i j of
      None \<Rightarrow> set (take (nat (i + 1)) client) \<inter> set (take (nat (j + 1)) server) = {}
    | Some v \<Rightarrow> v \<in> set (take (nat (i + 1)) client) \<inter> set (take (nat (j + 1)) server)
        \<and> (\<forall>w\<in>set (take (nat (i + 1)) client) \<inter> set (take (nat (j + 1)) server). w \<le> v)"
  using assms
proof (induction client server i j rule: highest_common_loop.induct)
  case (1 client server i j)
  let ?A = "\<lambda>i. set (take (nat i) client)" and ?B = "\<lambda>j. set (take (nat j) server)"
  show ?case
  proof (cases "0 \<le> i \<and> 0 \<le> j")
    case False
    then have "nat (i + 1) = 0 \<or> nat (j + 1) = 0" by auto
    then have "?A (i + 1) \<inter> ?B (j + 1) = {}" by fastforce
    moreover have "highest_common_loop client server i j = None"
      using False by (subst highest_common_loop.simps) auto
    ultimately show ?thesis by simp
  next
    case True
    note ci = take_cursor [OF "1.prems"(1) conjunct1 [OF True] "1.prems"(3)]
    note sj = take_cursor [OF "1.prems"(2) conjunct2 [OF True] "1.prems"(4)]
    consider "client ! nat i = server ! nat j" | "client ! nat i > server ! nat j"
      | "client ! nat i < server ! nat j" by (rule linorder_cases) auto
    then show ?thesis
    proof cases
      case c: 1
      then have "highest_common_loop client server i j = Some (client ! nat i)"
        using True by (subst highest_common_loop.simps) simp
      moreover have "client ! nat i \<in> ?A (i + 1) \<inter> ?B (j + 1)" using ci(1) sj(1) c by simp
      moreover have "\<forall>w\<in>?A (i + 1). w \<le> client ! nat i"
        using ci by (auto simp: order_less_imp_le)
      ultimately show ?thesis by auto
    next
      case c: 2
      have "client ! nat i \<notin> ?B (j + 1)" using sj c by (auto dest: order_less_trans)
      then have eq: "?A (i + 1) \<inter> ?B (j + 1) = ?A (i - 1 + 1) \<inter> ?B (j + 1)"
        using ci(1) by simp
      have "highest_common_loop client server i j = highest_common_loop client server (i - 1) j"
        using True c by (subst highest_common_loop.simps) auto
      with "1.IH"(1) [OF True] c "1.prems" show ?thesis unfolding eq by simp
    next
      case c: 3
      have "server ! nat j \<notin> ?A (i + 1)" using ci c by (auto dest: order_less_trans)
      then have eq: "?A (i + 1) \<inter> ?B (j + 1) = ?A (i + 1) \<inter> ?B (j - 1 + 1)"
        using sj(1) by simp
      have "highest_common_loop client server i j = highest_common_loop client server i (j - 1)"
        using True c by (subst highest_common_loop.simps) auto
      with "1.IH"(2) [OF True] c "1.prems" show ?thesis unfolding eq by simp
    qed
  qed
qed

lemma highestCommonCapabilityVersion_correct:
  assumes "sorted_wrt (<) client" "sorted_wrt (<) server"
  shows "highestCommonCapabilityVersion client server =
    (if set client \<inter> set server = {} then None else Some (Max (set client \<inter> set server)))"
proof -
  have n: "nat (len xs - 1 + 1) = length xs" for xs :: "uint16 list" by (simp add: len_def)
  let ?r = "highestCommonCapabilityVersion client server" and ?C = "set client \<inter> set server"
  have r: "case ?r of None \<Rightarrow> ?C = {} | Some v \<Rightarrow> v \<in> ?C \<and> (\<forall>w\<in>?C. w \<le> v)"
    using highest_common_loop_correct [OF assms, of "len client - 1" "len server - 1"]
    unfolding highestCommonCapabilityVersion_def n take_all [OF order.refl] by simp
  show ?thesis
  proof (cases ?r)
    case None
    with r show ?thesis by simp
  next
    case (Some v)
    with r have "v \<in> ?C" "\<forall>w\<in>?C. w \<le> v" by simp_all
    then have "Max ?C = v" by (intro Max_eqI) auto
    with Some \<open>v \<in> ?C\<close> show ?thesis by auto
  qed
qed

lemma check_versions_complete:
  "0 \<notin> set vs \<Longrightarrow> distinct vs \<Longrightarrow> (\<forall>p. prev = Some p \<longrightarrow> p \<notin> set vs) \<Longrightarrow> check_versions prev vs = None"
  by (induction prev vs rule: check_versions.induct) auto

lemma validateAndSort_iff:
  "validateAndSortCapabilityVersions versions limits = Inr result \<longleftrightarrow>
     versions \<noteq> [] \<and> len versions \<le> MaxCapabilityVersions limits
     \<and> 0 \<notin> set versions \<and> distinct versions \<and> result = sort versions" (is "?l \<longleftrightarrow> ?r")
proof
  assume l: ?l
  note r = validateAndSort_Inr [OF l]
  have "distinct (sort versions)" using r(1,2) strict_sorted_iff by metis
  then have "distinct versions" by simp
  then show ?r using r by (auto simp: len_def)
next
  assume ?r
  then show ?l by (simp add: validateAndSortCapabilityVersions_def check_versions_complete)
qed

section \<open>Offers\<close>

definition offer_ok :: "Limits \<Rightarrow> CapabilityOffer \<Rightarrow> bool" where
  "offer_ok limits o' \<longleftrightarrow> validateCapabilityName (co_Name o') limits = None
     \<and> co_Versions o' \<noteq> [] \<and> len (co_Versions o') \<le> MaxCapabilityVersions limits
     \<and> 0 \<notin> set (co_Versions o') \<and> distinct (co_Versions o')"

definition sort_offer :: "CapabilityOffer \<Rightarrow> CapabilityOffer" where
  "sort_offer o' = o'\<lparr>co_Versions := sort (co_Versions o')\<rparr>"

lemma sort_offer_sel [simp]:
  "co_Name (sort_offer o') = co_Name o'"
  "co_Versions (sort_offer o') = sort (co_Versions o')"
  "co_Required (sort_offer o') = co_Required o'"
  by (simp_all add: sort_offer_def)

lemma sort_offer_eq:
  "\<lparr>co_Name = co_Name o', co_Versions = sort (co_Versions o'), co_Required = co_Required o'\<rparr> = sort_offer o'"
  by (cases o') (simp add: sort_offer_def)

lemma offers_loop_iff:
  "offers_loop limits seen offers = Inr vs \<longleftrightarrow>
     list_all (offer_ok limits) offers \<and> distinct (map co_Name offers)
     \<and> set seen \<inter> co_Name ` set offers = {} \<and> vs = map sort_offer offers"
proof (induction offers arbitrary: seen vs)
  case (Cons o' offers)
  show ?case
  proof (cases "offer_ok limits o' \<and> co_Name o' \<notin> set seen")
    case True
    then have "validateAndSortCapabilityVersions (co_Versions o') limits = Inr (sort (co_Versions o'))"
      "validateCapabilityName (co_Name o') limits = None"
      by (simp_all add: offer_ok_def validateAndSort_iff)
    then have "offers_loop limits seen (o' # offers) =
        ebind (offers_loop limits (co_Name o' # seen) offers) (\<lambda>rest. Inr (sort_offer o' # rest))"
      using True by (simp add: sort_offer_eq)
    then show ?thesis using True by (auto simp: ebind_Inr Cons.IH)
  next
    case False
    have "offers_loop limits seen (o' # offers) \<noteq> Inr vs"
    proof
      assume "offers_loop limits seen (o' # offers) = Inr vs"
      then obtain v where "validateCapabilityName (co_Name o') limits = None" "co_Name o' \<notin> set seen"
          "validateAndSortCapabilityVersions (co_Versions o') limits = Inr v"
        by (simp split: option.splits sum.splits if_splits)
      with False show False by (simp add: offer_ok_def validateAndSort_iff)
    qed
    then show ?thesis using False by auto
  qed
qed auto

section \<open>Negotiation\<close>

text \<open>The specification: what a registry and an offer have in common, and the selection it gives.\<close>

definition common_versions :: "CapabilityRegistry \<Rightarrow> CapabilityOffer \<Rightarrow> uint16 set" where
  "common_versions r o' = set (co_Versions o') \<inter> set (registry_versions r (co_Name o'))"

definition best_selection :: "CapabilityRegistry \<Rightarrow> CapabilityOffer \<Rightarrow> NegotiatedCapability" where
  "best_selection r o' = \<lparr>nc_Name = co_Name o', nc_Version = Max (common_versions r o')\<rparr>"

definition registry_ok :: "CapabilityRegistry \<Rightarrow> bool" where
  "registry_ok r \<longleftrightarrow> list_all (\<lambda>(name, vs). sorted_wrt (<) vs) (cr_versions r)"

lemma common_versions_sort [simp]: "common_versions r (sort_offer o') = common_versions r o'"
  by (simp add: common_versions_def)

lemma best_selection_sel [simp]:
  "nc_Name (best_selection r o') = co_Name o'" "best_selection r (sort_offer o') = best_selection r o'"
  by (simp_all add: best_selection_def)

lemma best_selection_member:
  assumes "common_versions r o' \<noteq> {}"
  shows "nc_Version (best_selection r o') \<in> common_versions r o'"
  using Max_in [OF _ assms] by (simp add: best_selection_def common_versions_def)

lemma registry_ok_sorted: "registry_ok r \<Longrightarrow> sorted_wrt (<) (registry_versions r name)"
  by (auto simp: registry_ok_def registry_versions_def list_all_iff dest!: map_of_SomeD split: option.splits)

lemma accept_loop_eq:
  assumes "registry_ok r" "\<forall>o'\<in>set os. sorted_wrt (<) (co_Versions o')"
  shows "accept_loop r os =
    (case filter (\<lambda>o'. co_Required o' \<and> common_versions r o' = {}) os of
       o' # _ \<Rightarrow> Inl (NewProtocolError ErrorUnsupportedFeature
                    (''required capability is unsupported: '' @ co_Name o'))
     | [] \<Rightarrow> Inr (map (best_selection r) (filter (\<lambda>o'. common_versions r o' \<noteq> {}) os)))"
  using assms(2)
proof (induction os)
  case (Cons o' os)
  then have "highestCommonCapabilityVersion (co_Versions o') (registry_versions r (co_Name o')) =
      (if common_versions r o' = {} then None else Some (Max (common_versions r o')))"
    by (simp add: highestCommonCapabilityVersion_correct registry_ok_sorted assms(1) common_versions_def)
  with Cons show ?case by (simp add: best_selection_def split: list.splits)
qed simp

lemma check_negotiated_None:
  "check_negotiated limits seen prev cs = None \<longleftrightarrow>
     (\<forall>c\<in>set cs. validateCapabilityName (nc_Name c) limits = None \<and> nc_Version c \<noteq> 0 \<and> nc_Name c \<notin> set seen
        \<and> (\<forall>p. prev = Some p \<longrightarrow> p < nc_Name c))
     \<and> sorted_wrt (<) (map nc_Name cs)"
proof (induction cs arbitrary: seen prev)
  case (Cons c cs)
  have "check_negotiated limits seen prev (c # cs) = None \<longleftrightarrow>
      validateCapabilityName (nc_Name c) limits = None \<and> nc_Version c \<noteq> 0 \<and> nc_Name c \<notin> set seen
      \<and> (\<forall>p. prev = Some p \<longrightarrow> p < nc_Name c)
      \<and> check_negotiated limits (nc_Name c # seen) (Some (nc_Name c)) cs = None"
    by (auto split: option.splits)
  then show ?case unfolding Cons.IH by (auto dest: order.strict_trans)
qed simp

definition registry_of :: "CapabilityRegistry option \<Rightarrow> CapabilityRegistry" where
  "registry_of r = (case r of None \<Rightarrow> emptyCapabilityRegistry | Some reg \<Rightarrow> reg)"

definition negotiable :: "CapabilityRegistry \<Rightarrow> CapabilityOffer list \<Rightarrow> Limits \<Rightarrow> bool" where
  "negotiable r offers limits \<longleftrightarrow>
     len offers \<le> MaxCapabilities (normalizeLimits limits)
     \<and> list_all (offer_ok (normalizeLimits limits)) offers \<and> distinct (map co_Name offers)
     \<and> (\<forall>o'\<in>set offers. co_Required o' \<longrightarrow> common_versions r o' \<noteq> {})"

definition best_selections :: "CapabilityRegistry \<Rightarrow> CapabilityOffer list \<Rightarrow> NegotiatedCapability list" where
  "best_selections r offers =
     sort_key nc_Name (map (best_selection r) (filter (\<lambda>o'. common_versions r o' \<noteq> {}) offers))"

lemma validateAndCopy_iff:
  "validateAndCopyCapabilityOffers offers limits = Inr vs \<longleftrightarrow>
     len offers \<le> MaxCapabilities (normalizeLimits limits)
     \<and> list_all (offer_ok (normalizeLimits limits)) offers \<and> distinct (map co_Name offers)
     \<and> vs = map sort_offer offers"
  by (auto simp: validateAndCopyCapabilityOffers_def Let_def offers_loop_iff)

lemma offer_ok_sorted: "offer_ok limits o' \<Longrightarrow> sorted_wrt (<) (sort (co_Versions o'))"
  by (simp add: offer_ok_def strict_sorted_iff)

lemma filter_sort_offer [simp]:
  "(\<And>o'. P (sort_offer o') = P o') \<Longrightarrow> filter P (map sort_offer os) = map sort_offer (filter P os)"
  by (induction os) auto

lemma map_best_sort [simp]: "map (best_selection r) (map sort_offer os) = map (best_selection r) os"
  by simp

lemma accept_validated:
  assumes "registry_ok r" "list_all (offer_ok limits) offers"
  shows "accept_loop r (map sort_offer offers) = Inr acc \<longleftrightarrow>
    (\<forall>o'\<in>set offers. co_Required o' \<longrightarrow> common_versions r o' \<noteq> {})
    \<and> acc = map (best_selection r) (filter (\<lambda>o'. common_versions r o' \<noteq> {}) offers)"
proof -
  have s: "\<forall>o'\<in>set (map sort_offer offers). sorted_wrt (<) (co_Versions o')"
    using assms(2) by (auto simp: list_all_iff offer_ok_sorted)
  have e: "filter (\<lambda>o'. co_Required o' \<and> common_versions r o' = {}) offers = [] \<longleftrightarrow>
      (\<forall>o'\<in>set offers. co_Required o' \<longrightarrow> common_versions r o' \<noteq> {})"
    by (auto simp: filter_empty_conv)
  show ?thesis
    unfolding accept_loop_eq [OF assms(1) s] e [symmetric]
    by (auto simp: comp_def split: list.splits)
qed

lemma strict_sorted_map_sort_key:
  "distinct (map f xs) \<Longrightarrow> sorted_wrt (<) (map f (sort_key f xs))"
  by (simp add: strict_sorted_iff distinct_map)

lemma set_best_selections:
  "set (best_selections r offers) = best_selection r ` {o' \<in> set offers. common_versions r o' \<noteq> {}}"
  by (auto simp: best_selections_def)

lemma best_selections_valid:
  assumes "negotiable r offers limits"
  shows "ValidateNegotiatedCapabilities (best_selections r offers) (normalizeLimits limits) = None"
proof -
  let ?l = "normalizeLimits limits"
  have "distinct (map co_Name (filter (\<lambda>o'. common_versions r o' \<noteq> {}) offers))"
    using assms by (simp add: negotiable_def distinct_map_filter)
  then have srt: "sorted_wrt (<) (map nc_Name (best_selections r offers))"
    unfolding best_selections_def by (intro strict_sorted_map_sort_key) (simp add: comp_def)
  have "validateCapabilityName (nc_Name c) ?l = None \<and> nc_Version c \<noteq> 0"
    if c: "c \<in> set (best_selections r offers)" for c
  proof -
    from c obtain o' where o': "o' \<in> set offers" "common_versions r o' \<noteq> {}" "c = best_selection r o'"
      unfolding set_best_selections by auto
    then have "offer_ok ?l o'" using assms by (auto simp: negotiable_def list_all_iff)
    moreover have "nc_Version c \<in> set (co_Versions o')"
      using best_selection_member [OF o'(2)] o'(3) by (auto simp: common_versions_def)
    ultimately show ?thesis using o'(3) by (auto simp: offer_ok_def)
  qed
  then have "check_negotiated ?l [] None (best_selections r offers) = None"
    using srt by (simp add: check_negotiated_None)
  moreover have "len (best_selections r offers) \<le> MaxCapabilities ?l"
  proof -
    have "length (best_selections r offers) \<le> length offers" by (simp add: best_selections_def)
    then show ?thesis using assms by (simp add: negotiable_def len_def)
  qed
  ultimately show ?thesis by (simp add: ValidateNegotiatedCapabilities_def normalizeLimits_idem Let_def)
qed

lemma Negotiate_iff:
  assumes "registry_ok (registry_of r)"
  shows "Negotiate r offers limits = Inr sc \<longleftrightarrow>
    negotiable (registry_of r) offers limits
    \<and> NewSessionCapabilities (best_selections (registry_of r) offers) (normalizeLimits limits) = Inr sc"
  unfolding Negotiate_def Let_def ebind_Inr validateAndCopy_iff normalizeLimits_idem registry_of_def [symmetric]
  using accept_validated [OF assms] by (auto simp: negotiable_def best_selections_def)

lemma NewSession_best:
  assumes "negotiable r offers limits"
  shows "NewSessionCapabilities (best_selections r offers) (normalizeLimits limits) =
    Inr \<lparr>sc_selections = best_selections r offers,
         sc_versions = fold (\<lambda>c m. map_put (nc_Name c) (nc_Version c) m) (best_selections r offers) []\<rparr>"
  by (simp add: NewSessionCapabilities_def best_selections_valid [OF assms] cloneNegotiatedCapabilities_def)

theorem Negotiate_correct:
  assumes "registry_ok (registry_of r)"
  shows "(\<exists>sc. Negotiate r offers limits = Inr sc) \<longleftrightarrow> negotiable (registry_of r) offers limits"
    and "Negotiate r offers limits = Inr sc \<Longrightarrow>
      Capabilities_List sc = best_selections (registry_of r) offers"
  using Negotiate_iff [OF assms, of offers limits] NewSession_best
  by (auto simp: Capabilities_List_def cloneNegotiatedCapabilities_def)

lemma fold_map_put:
  assumes "distinct (map k xs)"
  shows "map_get (fold (\<lambda>x m. map_put (k x) (v x) m) xs m) y =
    (case find (\<lambda>x. k x = y) xs of Some x \<Rightarrow> Some (v x) | None \<Rightarrow> map_get m y)"
  using assms
proof (induction xs arbitrary: m)
  case (Cons x xs)
  show ?case
  proof (cases "k x = y")
    case True
    then have "find (\<lambda>x. k x = y) xs = None" using Cons.prems by (auto simp: find_None_iff image_iff)
    with True Cons show ?thesis by (simp add: update_conv')
  qed (use Cons in \<open>simp add: update_conv' split: option.split\<close>)
qed simp

lemma find_distinct_key:
  "x \<in> set xs \<Longrightarrow> distinct (map k xs) \<Longrightarrow> k x = y \<Longrightarrow> find (\<lambda>x. k x = y) xs = Some x"
  by (induction xs) (auto simp: image_iff)

lemma client_accepts:
  assumes "negotiable r offers limits"
  shows "validateNegotiatedAgainstOffers offers (best_selections r offers) (normalizeLimits limits) = None"
proof -
  let ?l = "normalizeLimits limits" and ?sel = "best_selections r offers"
  let ?m = "fold (\<lambda>offer m. map_put (co_Name offer) offer m) (map sort_offer offers) []"
  have v: "validateAndCopyCapabilityOffers offers ?l = Inr (map sort_offer offers)"
    using assms by (simp add: validateAndCopy_iff negotiable_def normalizeLimits_idem)
  have d: "distinct (map co_Name (map sort_offer offers))"
    using assms by (simp add: negotiable_def comp_def)
  have "\<exists>offer. map_get ?m (nc_Name c) = Some offer \<and> containsCapabilityVersion (co_Versions offer) (nc_Version c)"
    if "c \<in> set ?sel" for c
  proof -
    from that obtain o' where o': "o' \<in> set offers" "common_versions r o' \<noteq> {}" "c = best_selection r o'"
      unfolding set_best_selections by auto
    have "find (\<lambda>x. co_Name x = co_Name o') (map sort_offer offers) = Some (sort_offer o')"
      using o'(1) d by (intro find_distinct_key) auto
    then have "map_get ?m (nc_Name c) = Some (sort_offer o')"
      using fold_map_put [OF d, of "\<lambda>x. x" "[]" "co_Name o'"] o'(3) by simp
    moreover have "nc_Version c \<in> set (co_Versions (sort_offer o'))"
      using best_selection_member [OF o'(2)] o'(3) by (simp add: common_versions_def)
    ultimately show ?thesis by (simp add: containsCapabilityVersion_iff)
  qed
  then have "check_all (\<lambda>c. case map_get ?m (nc_Name c) of
      None \<Rightarrow> Some (NewProtocolError ErrorProtocolViolation ''server accepted an unoffered capability version'')
    | Some offer \<Rightarrow> if containsCapabilityVersion (co_Versions offer) (nc_Version c) then None
        else Some (NewProtocolError ErrorProtocolViolation ''server accepted an unoffered capability version''))
    ?sel = None" by (fastforce simp: check_all_None)
  moreover have "co_Name o' \<in> nc_Name ` set ?sel" if "o' \<in> set offers" "co_Required o'" for o'
    using that assms by (force simp: negotiable_def set_best_selections image_iff)
  ultimately show ?thesis
    by (simp add: validateNegotiatedAgainstOffers_def v best_selections_valid [OF assms] Let_def check_all_None
        first_err_None)
qed

section \<open>Registries\<close>

lemma registry_loop_Inr:
  "registry_loop limits m specs = Inr m' \<Longrightarrow>
     distinct (map cs_Name specs) \<and> (\<forall>s\<in>set specs. map_get m (cs_Name s) = None
       \<and> map_get m' (cs_Name s) = Some (sort (cs_Versions s))) \<and>
     (\<forall>name. name \<notin> cs_Name ` set specs \<longrightarrow> map_get m' name = map_get m name)"
proof (induction specs arbitrary: m)
  case (Cons s specs)
  then have c: "map_get m (cs_Name s) = None"
      "registry_loop limits (map_put (cs_Name s) (sort (cs_Versions s)) m) specs = Inr m'"
    by (auto simp: validateAndSort_iff split: option.splits sum.splits if_splits)
  note IH = Cons.IH [OF c(2)]
  have n: "cs_Name s \<notin> cs_Name ` set specs" using IH by (fastforce simp: update_conv')
  then have "map_get m' (cs_Name s) = Some (sort (cs_Versions s))" using IH by (simp add: update_conv')
  with IH c(1) n show ?case by (auto simp: update_conv' split: if_splits)
qed simp

lemma registry_loop_ok:
  "registry_loop limits m specs = Inr m' \<Longrightarrow> registry_ok \<lparr>cr_versions = m\<rparr> \<Longrightarrow> registry_ok \<lparr>cr_versions = m'\<rparr>"
proof (induction specs arbitrary: m)
  case (Cons s specs)
  then obtain v where c: "validateAndSortCapabilityVersions (cs_Versions s) limits = Inr v"
      "registry_loop limits (map_put (cs_Name s) v m) specs = Inr m'"
    by (auto split: option.splits sum.splits if_splits)
  have "registry_ok \<lparr>cr_versions = map_put (cs_Name s) v m\<rparr>"
    using Cons.prems(2) validateAndSort_Inr(2) [OF c(1)]
    by (induction m) (auto simp: registry_ok_def)
  with Cons.IH [OF c(2)] show ?case .
qed simp

lemma NewCapabilityRegistry_ok:
  "NewCapabilityRegistry specs limits = Inr reg \<Longrightarrow> registry_ok reg"
  by (auto simp: NewCapabilityRegistry_def Let_def ebind_Inr registry_ok_def
      dest!: registry_loop_ok split: option.splits if_splits)

lemma NewCapabilityRegistry_versions:
  assumes "NewCapabilityRegistry specs limits = Inr reg"
  shows "registry_versions reg name =
    (case find (\<lambda>s. cs_Name s = name) specs of None \<Rightarrow> [] | Some s \<Rightarrow> sort (cs_Versions s))"
proof -
  from assms have "registry_loop (normalizeLimits limits) [] specs = Inr (cr_versions reg)"
    by (auto simp: NewCapabilityRegistry_def Let_def ebind_Inr split: option.splits if_splits)
  note r = registry_loop_Inr [OF this]
  show ?thesis
  proof (cases "find (\<lambda>s. cs_Name s = name) specs")
    case None
    then have "name \<notin> cs_Name ` set specs" by (auto simp: find_None_iff)
    with None r show ?thesis by (simp add: registry_versions_def)
  next
    case (Some s)
    then have "s \<in> set specs" "cs_Name s = name" by (auto simp: find_Some_iff)
    with Some r show ?thesis by (auto simp: registry_versions_def)
  qed
qed

lemma Negotiate_registry:
  assumes "NewCapabilityRegistry specs l = Inr reg"
  shows "registry_ok (registry_of (Some reg))"
  using NewCapabilityRegistry_ok [OF assms] by (simp add: registry_of_def)

section \<open>Properties\<close>

text \<open>
  C11: A server registry built from specifications negotiates exactly when the offers are well formed,
  have distinct names, fit the limits and every required one shares a version with the registry; the
  selections are then, in name order, the greatest common version of every offer with one.
\<close>

theorem Negotiate_highest_common:
  assumes "NewCapabilityRegistry specs l = Inr reg"
  shows "(case Negotiate (Some reg) offers limits of
      Inr sc \<Rightarrow> negotiable reg offers limits \<and> Capabilities_List sc = best_selections reg offers
    | Inl e \<Rightarrow> \<not> negotiable reg offers limits)"
  using Negotiate_correct [OF Negotiate_registry [OF assms], of offers limits]
  by (auto simp: registry_of_def split: sum.splits)

definition demo_specs :: "CapabilitySpec list" where
  "demo_specs = [\<lparr>cs_Name = ''state.sync'', cs_Versions = [2, 1]\<rparr>, \<lparr>cs_Name = ''chat'', cs_Versions = [1, 3]\<rparr>]"

definition demo_offers :: "CapabilityOffer list" where
  "demo_offers = [\<lparr>co_Name = ''state.sync'', co_Versions = [1, 2, 5], co_Required = True\<rparr>,
     \<lparr>co_Name = ''chat'', co_Versions = [2, 1], co_Required = False\<rparr>,
     \<lparr>co_Name = ''call'', co_Versions = [1], co_Required = False\<rparr>]"

definition demo_registry :: CapabilityRegistry where
  "demo_registry = \<lparr>cr_versions = [(''state.sync'', [1, 2]), (''chat'', [1, 3])]\<rparr>"

lemma demo_registry_built: "NewCapabilityRegistry demo_specs DefaultLimits = Inr demo_registry"
  by code_simp

theorem Negotiate_highest_common_witness:
  "NewCapabilityRegistry demo_specs DefaultLimits = Inr demo_registry
   \<and> (case Negotiate (Some demo_registry) demo_offers DefaultLimits of
      Inr sc \<Rightarrow> negotiable demo_registry demo_offers DefaultLimits
        \<and> Capabilities_List sc = best_selections demo_registry demo_offers
    | Inl e \<Rightarrow> \<not> negotiable demo_registry demo_offers DefaultLimits)"
  using Negotiate_highest_common [OF demo_registry_built, of demo_offers DefaultLimits] demo_registry_built
  by blast

text \<open>
  C12: What a server's registry negotiates for a client's offers, the client's own check of WELCOME
  against those offers accepts.
\<close>

theorem negotiated_accepted_by_client:
  assumes "NewCapabilityRegistry specs l = Inr reg"
    and "Negotiate (Some reg) offers limits = Inr sc"
  shows "validateNegotiatedAgainstOffers offers (Capabilities_List sc) (normalizeLimits limits) = None"
proof -
  have ok: "registry_ok (registry_of (Some reg))" by (rule Negotiate_registry [OF assms(1)])
  have "negotiable (registry_of (Some reg)) offers limits"
    using Negotiate_correct(1) [OF ok] assms(2) by blast
  then show ?thesis using client_accepts Negotiate_correct(2) [OF ok assms(2)] by simp
qed

definition demo_session :: SessionCapabilities where
  "demo_session = \<lparr>sc_selections = [\<lparr>nc_Name = ''chat'', nc_Version = 1\<rparr>, \<lparr>nc_Name = ''state.sync'', nc_Version = 2\<rparr>],
     sc_versions = [(''chat'', 1), (''state.sync'', 2)]\<rparr>"

lemma demo_negotiated: "Negotiate (Some demo_registry) demo_offers DefaultLimits = Inr demo_session"
  by code_simp

theorem negotiated_accepted_by_client_witness:
  "validateNegotiatedAgainstOffers demo_offers (Capabilities_List demo_session) (normalizeLimits DefaultLimits) = None"
  using negotiated_accepted_by_client [OF demo_registry_built demo_negotiated] .

end
