(* ===== verification/Proto_Types.thy ===== *)
theory Proto_Types
  imports Capability
begin

text \<open>
  \<open>types.go\<close>, \<open>payload.go\<close>, \<open>action.go\<close> and the data of \<open>state.go\<close>: envelopes, the payload of
  every frame type and client actions.  Each payload has the value \<open>json.Marshal\<close> builds for it
  (\<open>\<dots>_json\<close>, with \<open>omitempty\<close> members left out) and the decoder of its struct (\<open>dec_\<dots>\<close>).
\<close>

section \<open>Frame types and envelopes\<close>

type_synonym FrameType = string

definition FrameHello :: FrameType where "FrameHello = ''HELLO''"
definition FrameWelcome :: FrameType where "FrameWelcome = ''WELCOME''"
definition FramePing :: FrameType where "FramePing = ''PING''"
definition FramePong :: FrameType where "FramePong = ''PONG''"
definition FrameSend :: FrameType where "FrameSend = ''SEND''"
definition FrameAck :: FrameType where "FrameAck = ''ACK''"
definition FrameEvent :: FrameType where "FrameEvent = ''EVENT''"
definition FrameResume :: FrameType where "FrameResume = ''RESUME''"
definition FrameError :: FrameType where "FrameError = ''ERROR''"
definition FrameStateQuery :: FrameType where "FrameStateQuery = ''STATE_QUERY''"
definition FrameStateSnapshot :: FrameType where "FrameStateSnapshot = ''STATE_SNAPSHOT''"
definition FrameStateUpdate :: FrameType where "FrameStateUpdate = ''STATE_UPDATE''"

lemmas frame_type_defs = FrameHello_def FrameWelcome_def FramePing_def FramePong_def FrameSend_def
  FrameAck_def FrameEvent_def FrameResume_def FrameError_def FrameStateQuery_def
  FrameStateSnapshot_def FrameStateUpdate_def

definition WireVersionV2 :: uint16 where "WireVersionV2 = 2"

record Envelope =
  env_V :: uint16
  env_Type :: FrameType
  env_ID :: string
  env_SessionID :: string
  env_Seq :: uint64
  env_Timestamp :: int64
  env_Payload :: bytes

definition zero_envelope :: Envelope where
  "zero_envelope = \<lparr>env_V = 0, env_Type = [], env_ID = [], env_SessionID = [], env_Seq = 0,
     env_Timestamp = 0, env_Payload = []\<rparr>"

datatype ConnectionState =
    StateDisconnected | StateConnecting | StateConnected | StateHandshaking
  | StateResuming | StateReady | StateSuspect

definition ConnectionState_String :: "ConnectionState \<Rightarrow> string" where
  "ConnectionState_String s = (case s of
     StateDisconnected \<Rightarrow> ''DISCONNECTED'' | StateConnecting \<Rightarrow> ''CONNECTING''
   | StateConnected \<Rightarrow> ''CONNECTED'' | StateHandshaking \<Rightarrow> ''HANDSHAKING''
   | StateResuming \<Rightarrow> ''RESUMING'' | StateReady \<Rightarrow> ''READY'' | StateSuspect \<Rightarrow> ''SUSPECT'')"

type_synonym ConnectionGeneration = uint64

datatype DedupState = DedupProcessing | DedupCompleted

type_synonym SendFingerprint = bytes

record DedupRecord =
  dr_State :: DedupState
  dr_Fingerprint :: SendFingerprint
  dr_Ack :: "Envelope option"

definition copyEnvelope :: "Envelope \<Rightarrow> Envelope" where
  "copyEnvelope e = e\<lparr>env_Payload := [] @ env_Payload e\<rparr>"

section \<open>Payloads\<close>

definition WelcomeModeNew :: string where "WelcomeModeNew = ''NEW''"
definition WelcomeModeResumed :: string where "WelcomeModeResumed = ''RESUMED''"

record HelloPayload =
  hp_ClientName :: string
  hp_Capabilities :: "CapabilityOffer list"

record ResumeStateSync =
  rs_Namespaces :: "string list"

record WelcomePayload =
  wp_Mode :: string
  wp_ServerTime :: int64
  wp_ResumeFrom :: uint64
  wp_ReplayTo :: uint64
  wp_StateSync :: "ResumeStateSync option"
  wp_AcceptedCapabilities :: "NegotiatedCapability list"

record PingPayload =
  pp_PingID :: string
  pp_ClientTime :: int64

record PongPayload =
  po_PingID :: string
  po_ClientTime :: int64
  po_ServerTime :: int64

record SendPayload =
  sp_Content :: bytes

record AckPayload =
  ap_RefID :: string

record EventPayload =
  ep_EventType :: string
  ep_Content :: bytes

record ResumePayload =
  rp_LastSeq :: uint64
  rp_StateSync :: "ResumeStateSync option"

record StateObject =
  so_Namespace :: string
  so_ObjectID :: string
  so_Version :: uint64
  so_Data :: bytes

record StateQueryPayload =
  sq_Namespace :: string
  sq_ObjectIDs :: "string list"

record StateSnapshotPayload =
  ss_States :: "StateObject list"

record StateUpdatePayload =
  su_State :: StateObject

record ErrorPayload =
  er_Code :: string
  er_Message :: string
  er_RefID :: string
  er_Retryable :: bool

definition cloneResumeStateSync :: "ResumeStateSync option \<Rightarrow> ResumeStateSync option" where
  "cloneResumeStateSync sync = (case sync of None \<Rightarrow> None
     | Some s \<Rightarrow> Some \<lparr>rs_Namespaces = [] @ rs_Namespaces s\<rparr>)"

section \<open>Actions\<close>

datatype StateApplyResult =
    StateApplyNone  \<comment> \<open>the zero value, returned with an error\<close>
  | StateApplyApplied | StateApplyDuplicate | StateApplyStale | StateApplyConflict

datatype Action =
    SendFrameAction Envelope
  | DeliverEventAction Envelope
  | AckedAction string
  | SessionReadyAction string
  | StateChangedAction StateObject StateApplyResult
  | ProtocolErrorAction ErrorPayload
  | FullSyncRequiredAction string
  | CloseConnectionAction string

section \<open>Encoding\<close>

text \<open>A slice without \<open>omitempty\<close> is \<open>null\<close> when it is nil; a member with it is left out when empty.\<close>

definition jslice :: "('a \<Rightarrow> json) \<Rightarrow> 'a list \<Rightarrow> json" where
  "jslice f xs = (if xs = [] then JNull else jarr (map f xs))"

definition omit :: "bool \<Rightarrow> string \<Rightarrow> json \<Rightarrow> (string \<times> json) list" where
  "omit skip k v = (if skip then [] else [(k, v)])"

definition CapabilityOffer_json :: "CapabilityOffer \<Rightarrow> json" where
  "CapabilityOffer_json c = jobj ([(''name'', jstr (co_Name c)), (''versions'', jslice juint (co_Versions c))]
     @ omit (\<not> co_Required c) ''required'' (JBool (co_Required c)))"

definition NegotiatedCapability_json :: "NegotiatedCapability \<Rightarrow> json" where
  "NegotiatedCapability_json c = jobj [(''name'', jstr (nc_Name c)), (''version'', juint (nc_Version c))]"

definition HelloPayload_json :: "HelloPayload \<Rightarrow> json" where
  "HelloPayload_json p = jobj (omit (hp_ClientName p = []) ''client_name'' (jstr (hp_ClientName p))
     @ omit (hp_Capabilities p = []) ''capabilities'' (jslice CapabilityOffer_json (hp_Capabilities p)))"

definition ResumeStateSync_json :: "ResumeStateSync \<Rightarrow> json" where
  "ResumeStateSync_json s = jobj [(''namespaces'', jslice jstr (rs_Namespaces s))]"

definition omit_sync :: "ResumeStateSync option \<Rightarrow> (string \<times> json) list" where
  "omit_sync sync = (case sync of None \<Rightarrow> [] | Some s \<Rightarrow> [(''state_sync'', ResumeStateSync_json s)])"

definition WelcomePayload_json :: "WelcomePayload \<Rightarrow> json" where
  "WelcomePayload_json p =
     (if wp_Mode p = WelcomeModeResumed then
        jobj ([(''mode'', jstr (wp_Mode p)), (''server_time'', jint (wp_ServerTime p)),
               (''resume_from'', juint (wp_ResumeFrom p)), (''replay_to'', juint (wp_ReplayTo p))]
              @ omit_sync (cloneResumeStateSync (wp_StateSync p)))
      else
        jobj ([(''mode'', jstr (wp_Mode p)), (''server_time'', jint (wp_ServerTime p))]
              @ omit (wp_AcceptedCapabilities p = []) ''accepted_capabilities''
                  (jslice NegotiatedCapability_json (wp_AcceptedCapabilities p))))"

definition PingPayload_json :: "PingPayload \<Rightarrow> json" where
  "PingPayload_json p = jobj [(''ping_id'', jstr (pp_PingID p)), (''client_time'', jint (pp_ClientTime p))]"

definition PongPayload_json :: "PongPayload \<Rightarrow> json" where
  "PongPayload_json p = jobj [(''ping_id'', jstr (po_PingID p)), (''client_time'', jint (po_ClientTime p)),
     (''server_time'', jint (po_ServerTime p))]"

definition AckPayload_json :: "AckPayload \<Rightarrow> json" where
  "AckPayload_json p = jobj [(''ref_id'', jstr (ap_RefID p))]"

definition ResumePayload_json :: "ResumePayload \<Rightarrow> json" where
  "ResumePayload_json p = jobj ([(''last_seq'', juint (rp_LastSeq p))] @ omit_sync (rp_StateSync p))"

definition StateQueryPayload_json :: "StateQueryPayload \<Rightarrow> json" where
  "StateQueryPayload_json p = jobj [(''namespace'', jstr (sq_Namespace p)),
     (''object_ids'', jslice jstr (sq_ObjectIDs p))]"

definition ErrorPayload_json :: "ErrorPayload \<Rightarrow> json" where
  "ErrorPayload_json p = jobj ([(''code'', jstr (er_Code p))]
     @ omit (er_Message p = []) ''message'' (jstr (er_Message p))
     @ omit (er_RefID p = []) ''ref_id'' (jstr (er_RefID p))
     @ [(''retryable'', JBool (er_Retryable p))])"

text \<open>Values that hold raw messages fail to encode when one of them is not valid JSON.\<close>

definition SendPayload_json :: "SendPayload \<Rightarrow> json option" where
  "SendPayload_json p = map_option (\<lambda>c. jobj [(''content'', c)]) (jraw (sp_Content p))"

definition EventPayload_json :: "EventPayload \<Rightarrow> json option" where
  "EventPayload_json p = map_option (\<lambda>c. jobj (omit (ep_EventType p = []) ''event_type'' (jstr (ep_EventType p))
     @ [(''content'', c)])) (jraw (ep_Content p))"

definition StateObject_json :: "StateObject \<Rightarrow> json option" where
  "StateObject_json s = map_option (\<lambda>d. jobj [(''namespace'', jstr (so_Namespace s)),
     (''object_id'', jstr (so_ObjectID s)), (''version'', juint (so_Version s)), (''data'', d)]) (jraw (so_Data s))"

text \<open>The one place the code encodes a list of States, it starts from a slice that is not nil.\<close>

definition StateSnapshotPayload_json :: "StateSnapshotPayload \<Rightarrow> json option" where
  "StateSnapshotPayload_json p = map_option (\<lambda>vs. jobj [(''states'', jarr vs)])
     (those (map StateObject_json (ss_States p)))"

definition StateUpdatePayload_json :: "StateUpdatePayload \<Rightarrow> json option" where
  "StateUpdatePayload_json p = map_option (\<lambda>v. jobj [(''state'', v)]) (StateObject_json (su_State p))"

definition Envelope_members :: "Envelope \<Rightarrow> (string \<times> json) list" where
  "Envelope_members e = [(''v'', juint (env_V e)), (''type'', jstr (env_Type e))]
     @ omit (env_ID e = []) ''id'' (jstr (env_ID e))
     @ omit (env_SessionID e = []) ''session_id'' (jstr (env_SessionID e))
     @ omit (env_Seq e = 0) ''seq'' (juint (env_Seq e))
     @ omit (env_Timestamp e = 0) ''timestamp'' (jint (env_Timestamp e))"

definition Envelope_json :: "Envelope \<Rightarrow> json option" where
  "Envelope_json e =
     (if env_Payload e = [] then Some (jobj (Envelope_members e))
      else map_option (\<lambda>p. jobj (Envelope_members e @ [(''payload'', p)])) (jraw (env_Payload e)))"

text \<open>\<open>json.Marshal\<close> on a value that always encodes, and on one that may not.\<close>

definition json_Marshal :: "json option \<Rightarrow> bytes option" where
  "json_Marshal v = map_option unparse v"

section \<open>Decoding\<close>

text \<open>A struct member: its current value goes to the member's decoder, the result back.\<close>

definition field_dec :: "('r \<Rightarrow> 'a) \<Rightarrow> (('a \<Rightarrow> 'a) \<Rightarrow> 'r \<Rightarrow> 'r) \<Rightarrow> 'a decoder \<Rightarrow> 'r decoder" where
  "field_dec get upd dec r v = ebind (dec (get r) v) (\<lambda>x. Inr (upd (\<lambda>_. x) r))"

definition dec_CapabilityOffer :: "bool \<Rightarrow> CapabilityOffer decoder" where
  "dec_CapabilityOffer strict = dec_struct strict
     [(''name'', field_dec co_Name co_Name_update dec_string),
      (''versions'', field_dec co_Versions co_Versions_update (dec_slice dec_uint 0)),
      (''required'', field_dec co_Required co_Required_update dec_bool)]"

definition dec_NegotiatedCapability :: "bool \<Rightarrow> NegotiatedCapability decoder" where
  "dec_NegotiatedCapability strict = dec_struct strict
     [(''name'', field_dec nc_Name nc_Name_update dec_string),
      (''version'', field_dec nc_Version nc_Version_update dec_uint)]"

definition dec_ResumeStateSync :: "bool \<Rightarrow> ResumeStateSync decoder" where
  "dec_ResumeStateSync strict = dec_struct strict
     [(''namespaces'', field_dec rs_Namespaces rs_Namespaces_update (dec_slice dec_string []))]"

definition dec_StateObject :: "bool \<Rightarrow> StateObject decoder" where
  "dec_StateObject strict = dec_struct strict
     [(''namespace'', field_dec so_Namespace so_Namespace_update dec_string),
      (''object_id'', field_dec so_ObjectID so_ObjectID_update dec_string),
      (''version'', field_dec so_Version so_Version_update dec_uint),
      (''data'', field_dec so_Data so_Data_update dec_raw)]"

definition zero_CapabilityOffer :: CapabilityOffer where
  "zero_CapabilityOffer = \<lparr>co_Name = [], co_Versions = [], co_Required = False\<rparr>"

definition zero_NegotiatedCapability :: NegotiatedCapability where
  "zero_NegotiatedCapability = \<lparr>nc_Name = [], nc_Version = 0\<rparr>"

definition zero_StateObject :: StateObject where
  "zero_StateObject = \<lparr>so_Namespace = [], so_ObjectID = [], so_Version = 0, so_Data = []\<rparr>"

definition zero_ResumeStateSync :: ResumeStateSync where
  "zero_ResumeStateSync = \<lparr>rs_Namespaces = []\<rparr>"

definition dec_Envelope :: "bool \<Rightarrow> Envelope decoder" where
  "dec_Envelope strict = dec_struct strict
     [(''v'', field_dec env_V env_V_update dec_uint),
      (''type'', field_dec env_Type env_Type_update dec_string),
      (''id'', field_dec env_ID env_ID_update dec_string),
      (''session_id'', field_dec env_SessionID env_SessionID_update dec_string),
      (''seq'', field_dec env_Seq env_Seq_update dec_uint),
      (''timestamp'', field_dec env_Timestamp env_Timestamp_update dec_int),
      (''payload'', field_dec env_Payload env_Payload_update dec_raw)]"

definition dec_HelloPayload :: "bool \<Rightarrow> HelloPayload decoder" where
  "dec_HelloPayload strict = dec_struct strict
     [(''client_name'', field_dec hp_ClientName hp_ClientName_update dec_string),
      (''capabilities'', field_dec hp_Capabilities hp_Capabilities_update
         (dec_slice (dec_CapabilityOffer strict) zero_CapabilityOffer))]"

definition dec_WelcomePayload :: "bool \<Rightarrow> WelcomePayload decoder" where
  "dec_WelcomePayload strict = dec_struct strict
     [(''mode'', field_dec wp_Mode wp_Mode_update dec_string),
      (''server_time'', field_dec wp_ServerTime wp_ServerTime_update dec_int),
      (''resume_from'', field_dec wp_ResumeFrom wp_ResumeFrom_update dec_uint),
      (''replay_to'', field_dec wp_ReplayTo wp_ReplayTo_update dec_uint),
      (''state_sync'', field_dec wp_StateSync wp_StateSync_update
         (dec_pointer (dec_ResumeStateSync strict) zero_ResumeStateSync)),
      (''accepted_capabilities'', field_dec wp_AcceptedCapabilities wp_AcceptedCapabilities_update
         (dec_slice (dec_NegotiatedCapability strict) zero_NegotiatedCapability))]"

definition dec_PingPayload :: "bool \<Rightarrow> PingPayload decoder" where
  "dec_PingPayload strict = dec_struct strict
     [(''ping_id'', field_dec pp_PingID pp_PingID_update dec_string),
      (''client_time'', field_dec pp_ClientTime pp_ClientTime_update dec_int)]"

definition dec_PongPayload :: "bool \<Rightarrow> PongPayload decoder" where
  "dec_PongPayload strict = dec_struct strict
     [(''ping_id'', field_dec po_PingID po_PingID_update dec_string),
      (''client_time'', field_dec po_ClientTime po_ClientTime_update dec_int),
      (''server_time'', field_dec po_ServerTime po_ServerTime_update dec_int)]"

definition dec_SendPayload :: "bool \<Rightarrow> SendPayload decoder" where
  "dec_SendPayload strict = dec_struct strict [(''content'', field_dec sp_Content sp_Content_update dec_raw)]"

definition dec_AckPayload :: "bool \<Rightarrow> AckPayload decoder" where
  "dec_AckPayload strict = dec_struct strict [(''ref_id'', field_dec ap_RefID ap_RefID_update dec_string)]"

definition dec_EventPayload :: "bool \<Rightarrow> EventPayload decoder" where
  "dec_EventPayload strict = dec_struct strict
     [(''event_type'', field_dec ep_EventType ep_EventType_update dec_string),
      (''content'', field_dec ep_Content ep_Content_update dec_raw)]"

definition dec_ResumePayload :: "bool \<Rightarrow> ResumePayload decoder" where
  "dec_ResumePayload strict = dec_struct strict
     [(''last_seq'', field_dec rp_LastSeq rp_LastSeq_update dec_uint),
      (''state_sync'', field_dec rp_StateSync rp_StateSync_update
         (dec_pointer (dec_ResumeStateSync strict) zero_ResumeStateSync))]"

definition dec_StateQueryPayload :: "bool \<Rightarrow> StateQueryPayload decoder" where
  "dec_StateQueryPayload strict = dec_struct strict
     [(''namespace'', field_dec sq_Namespace sq_Namespace_update dec_string),
      (''object_ids'', field_dec sq_ObjectIDs sq_ObjectIDs_update (dec_slice dec_string []))]"

definition dec_StateSnapshotPayload :: "bool \<Rightarrow> StateSnapshotPayload decoder" where
  "dec_StateSnapshotPayload strict = dec_struct strict
     [(''states'', field_dec ss_States ss_States_update (dec_slice (dec_StateObject strict) zero_StateObject))]"

definition dec_StateUpdatePayload :: "bool \<Rightarrow> StateUpdatePayload decoder" where
  "dec_StateUpdatePayload strict = dec_struct strict
     [(''state'', field_dec su_State su_State_update (dec_StateObject strict))]"

definition dec_ErrorPayload :: "bool \<Rightarrow> ErrorPayload decoder" where
  "dec_ErrorPayload strict = dec_struct strict
     [(''code'', field_dec er_Code er_Code_update dec_string),
      (''message'', field_dec er_Message er_Message_update dec_string),
      (''ref_id'', field_dec er_RefID er_RefID_update dec_string),
      (''retryable'', field_dec er_Retryable er_Retryable_update dec_bool)]"

section \<open>Zero values\<close>

definition zero_HelloPayload :: HelloPayload where
  "zero_HelloPayload = \<lparr>hp_ClientName = [], hp_Capabilities = []\<rparr>"
definition zero_WelcomePayload :: WelcomePayload where
  "zero_WelcomePayload = \<lparr>wp_Mode = [], wp_ServerTime = 0, wp_ResumeFrom = 0, wp_ReplayTo = 0,
     wp_StateSync = None, wp_AcceptedCapabilities = []\<rparr>"
definition zero_PingPayload :: PingPayload where
  "zero_PingPayload = \<lparr>pp_PingID = [], pp_ClientTime = 0\<rparr>"
definition zero_PongPayload :: PongPayload where
  "zero_PongPayload = \<lparr>po_PingID = [], po_ClientTime = 0, po_ServerTime = 0\<rparr>"
definition zero_SendPayload :: SendPayload where
  "zero_SendPayload = \<lparr>sp_Content = []\<rparr>"
definition zero_AckPayload :: AckPayload where
  "zero_AckPayload = \<lparr>ap_RefID = []\<rparr>"
definition zero_EventPayload :: EventPayload where
  "zero_EventPayload = \<lparr>ep_EventType = [], ep_Content = []\<rparr>"
definition zero_ResumePayload :: ResumePayload where
  "zero_ResumePayload = \<lparr>rp_LastSeq = 0, rp_StateSync = None\<rparr>"
definition zero_StateQueryPayload :: StateQueryPayload where
  "zero_StateQueryPayload = \<lparr>sq_Namespace = [], sq_ObjectIDs = []\<rparr>"
definition zero_StateSnapshotPayload :: StateSnapshotPayload where
  "zero_StateSnapshotPayload = \<lparr>ss_States = []\<rparr>"
definition zero_StateUpdatePayload :: StateUpdatePayload where
  "zero_StateUpdatePayload = \<lparr>su_State = zero_StateObject\<rparr>"
definition zero_ErrorPayload :: ErrorPayload where
  "zero_ErrorPayload = \<lparr>er_Code = [], er_Message = [], er_RefID = [], er_Retryable = False\<rparr>"

section \<open>Basic facts\<close>

lemma copyEnvelope_id [simp]: "copyEnvelope e = e"
  by (simp add: copyEnvelope_def)

lemma cloneResumeStateSync_id [simp]: "cloneResumeStateSync s = s"
  by (auto simp: cloneResumeStateSync_def split: option.splits)

lemma frame_types_distinct [simp]:
  "distinct [FrameHello, FrameWelcome, FramePing, FramePong, FrameSend, FrameAck, FrameEvent, FrameResume,
     FrameError, FrameStateQuery, FrameStateSnapshot, FrameStateUpdate]"
  by (simp add: frame_type_defs)

end
