(* ===== verification/Go_Json_Text.thy ===== *)
theory Go_Json_Text
  imports Go_Json
begin

text \<open>
  The text of JSON values: the parser is lossless (what it reads is the text of its result), every
  well-formed value is read back from its text, and the fuel of the parser is always enough.
\<close>

section \<open>Well-formed values\<close>

definition str_ok :: "string \<Rightarrow> bool" where
  "str_ok b \<longleftrightarrow> scan_str (b @ [CHR 0x22]) = Some (b, [])"

definition num_ok :: "string \<Rightarrow> bool" where
  "num_ok n \<longleftrightarrow> scan_num n = Some (n, [])"

definition num_stop :: "string \<Rightarrow> bool" where
  "num_stop r \<longleftrightarrow> r = [] \<or> (\<not> is_digit (hd r) \<and> hd r \<noteq> CHR ''.'' \<and> hd r \<noteq> CHR ''e'' \<and> hd r \<noteq> CHR ''E'')"

primrec wf_json :: "json \<Rightarrow> int \<Rightarrow> bool"
  and wf_elems :: "jelems \<Rightarrow> int \<Rightarrow> bool"
  and wf_members :: "jmembers \<Rightarrow> int \<Rightarrow> bool" where
  "wf_json JNull d \<longleftrightarrow> True"
| "wf_json (JBool b) d \<longleftrightarrow> True"
| "wf_json (JNum n) d \<longleftrightarrow> num_ok n"
| "wf_json (JStr b) d \<longleftrightarrow> str_ok b"
| "wf_json (JArr w es) d \<longleftrightarrow> 0 < d \<and> list_all is_ws w \<and> (es = ENil \<or> w = []) \<and> wf_elems es (d - 1)"
| "wf_json (JObj w ms) d \<longleftrightarrow> 0 < d \<and> list_all is_ws w \<and> (ms = MNil \<or> w = []) \<and> wf_members ms (d - 1)"
| "wf_elems ENil d \<longleftrightarrow> True"
| "wf_elems (ECons a v b es) d \<longleftrightarrow> list_all is_ws a \<and> wf_json v d \<and> list_all is_ws b \<and> wf_elems es d"
| "wf_members MNil d \<longleftrightarrow> True"
| "wf_members (MCons a k b c v e ms) d \<longleftrightarrow> list_all is_ws a \<and> str_ok k \<and> list_all is_ws b
     \<and> list_all is_ws c \<and> wf_json v d \<and> list_all is_ws e \<and> wf_members ms d"

section \<open>Scanners\<close>

lemma ws_takeWhile [simp]: "list_all is_ws (takeWhile is_ws s)"
  by (auto simp: list_all_iff dest: set_takeWhileD)

lemma skip_ws_append:
  "list_all is_ws w \<Longrightarrow> takeWhile is_ws (w @ c # s) = w @ takeWhile is_ws (c # s)
     \<and> skip_ws (w @ c # s) = skip_ws (c # s)"
  by (induction w) auto

lemma scan_str_Cons [simp]:
  "scan_str [] = None" "scan_str (CHR 0x22 # s) = Some ([], s)"
  by (simp_all add: scan_str.simps)

lemma scan_str_unit:
  "scan_unit s = Some (u, t) \<Longrightarrow>
     scan_str s = (case scan_str t of None \<Rightarrow> None | Some (b, r) \<Rightarrow> Some (u @ b, r))"
  using scan_unit_split(1-3) [of s u t] by (subst scan_str.simps) (cases u; auto)

lemma scan_str_split:
  "scan_str s = Some (b, r) \<Longrightarrow> s = b @ CHR 0x22 # r \<and> (\<forall>t. scan_str (b @ CHR 0x22 # t) = Some (b, t))"
proof (induction s arbitrary: b r rule: scan_str.induct)
  case (1 s)
  from "1.prems" obtain c s1 where s: "s = c # s1" by (cases s) simp_all
  show ?case
  proof (cases "c = CHR 0x22")
    case True
    with s "1.prems" show ?thesis by simp
  next
    case False
    with s "1.prems" obtain u t where u: "scan_unit s = Some (u, t)"
      by (subst (asm) scan_str.simps) (auto split: option.splits)
    with "1.prems" obtain b' where b': "scan_str t = Some (b', r)" "b = u @ b'"
      by (auto simp: scan_str_unit split: option.splits)
    have IH: "t = b' @ CHR 0x22 # r \<and> (\<forall>x. scan_str (b' @ CHR 0x22 # x) = Some (b', x))"
      by (rule "1.IH" [OF s False u refl b'(1)])
    have "scan_str (b @ CHR 0x22 # x) = Some (b, x)" for x
      using scan_str_unit [OF scan_unit_split(4) [OF u, of "b' @ CHR 0x22 # x"]] IH b'(2) by simp
    with IH b'(2) scan_unit_split(1) [OF u] show ?thesis by simp
  qed
qed

lemma scan_str_ok: "scan_str s = Some (b, r) \<Longrightarrow> str_ok b"
  using scan_str_split by (simp add: str_ok_def)

lemma str_ok_scan: "str_ok b \<Longrightarrow> scan_str (b @ CHR 0x22 # t) = Some (b, t)"
  using scan_str_split by (auto simp: str_ok_def)

lemma scan_lit_split: "scan_lit x s = Some r \<Longrightarrow> s = x @ r"
  by (induction x s rule: scan_lit.induct) (auto split: if_splits)

lemma scan_lit_append [simp]: "scan_lit x (x @ r) = Some r"
  by (induction x) auto

text \<open>
  A number literal is read back whatever follows it, as long as that cannot continue the literal.
\<close>

definition digit_stop :: "string \<Rightarrow> bool" where
  "digit_stop r \<longleftrightarrow> r = [] \<or> \<not> is_digit (hd r)"

lemma digits_append:
  assumes "digit_stop r"
  shows "takeWhile is_digit (takeWhile is_digit s @ r) = takeWhile is_digit s"
    "dropWhile is_digit (takeWhile is_digit s @ r) = r"
proof -
  have ds: "\<forall>x\<in>set (takeWhile is_digit s). is_digit x" by (auto dest: set_takeWhileD)
  with assms show "takeWhile is_digit (takeWhile is_digit s @ r) = takeWhile is_digit s"
    by (cases r) (auto simp: digit_stop_def)
  from ds assms show "dropWhile is_digit (takeWhile is_digit s @ r) = r"
    by (cases r) (auto simp: digit_stop_def)
qed

lemma scan_mag_split:
  assumes "scan_mag s = Some (m, t)"
  shows "s = m @ t" "digit_stop r \<Longrightarrow> scan_mag (m @ r) = Some (m, r)" "is_digit (hd m)" "m \<noteq> []"
proof -
  obtain c s1 where s: "s = c # s1" using assms by (cases s) (simp_all add: scan_mag_def)
  show "s = m @ t" "is_digit (hd m)" "m \<noteq> []"
    using assms by (auto simp: s scan_mag_def is_digit_def byte_in_def byte_def split: if_splits)
  show "digit_stop r \<Longrightarrow> scan_mag (m @ r) = Some (m, r)"
    using assms by (auto simp: s scan_mag_def digits_append split: if_splits)
qed

lemma scan_frac_split:
  assumes "scan_frac s = Some (f, t)"
  shows "s = f @ t" "digit_stop r \<Longrightarrow> r = [] \<or> hd r \<noteq> CHR ''.'' \<Longrightarrow> scan_frac (f @ r) = Some (f, r)"
    "f = [] \<or> hd f = CHR ''.''"
proof -
  show "s = f @ t" "f = [] \<or> hd f = CHR ''.''"
    using assms by (cases s; auto simp: scan_frac_def split: if_splits)+
  assume r: "digit_stop r" "r = [] \<or> hd r \<noteq> CHR ''.''"
  show "scan_frac (f @ r) = Some (f, r)"
  proof (cases "f = []")
    case True
    with r show ?thesis by (cases r) (simp_all add: scan_frac_def)
  next
    case False
    with assms obtain s1 where "takeWhile is_digit s1 \<noteq> []" "f = CHR ''.'' # takeWhile is_digit s1"
      by (cases s) (auto simp: scan_frac_def split: if_splits)
    with r show ?thesis by (simp add: scan_frac_def digits_append)
  qed
qed

lemma scan_sign_split:
  "s = fst (scan_sign s) @ snd (scan_sign s)"
  "takeWhile is_digit (snd (scan_sign s)) \<noteq> [] \<Longrightarrow>
     scan_sign (fst (scan_sign s) @ takeWhile is_digit (snd (scan_sign s)) @ r)
       = (fst (scan_sign s), takeWhile is_digit (snd (scan_sign s)) @ r)"
proof -
  show "s = fst (scan_sign s) @ snd (scan_sign s)"
    by (simp add: scan_sign_def split: list.splits)
  assume "takeWhile is_digit (snd (scan_sign s)) \<noteq> []"
  then show "scan_sign (fst (scan_sign s) @ takeWhile is_digit (snd (scan_sign s)) @ r)
       = (fst (scan_sign s), takeWhile is_digit (snd (scan_sign s)) @ r)"
    by (cases s) (auto simp: scan_sign_def split: if_splits)
qed

lemma scan_exp_split:
  assumes "scan_exp s = Some (e, t)"
  shows "s = e @ t" "num_stop r \<Longrightarrow> scan_exp (e @ r) = Some (e, r)"
    "e = [] \<or> hd e = CHR ''e'' \<or> hd e = CHR ''E''"
proof -
  show "s = e @ t" "e = [] \<or> hd e = CHR ''e'' \<or> hd e = CHR ''E''"
    using assms scan_sign_split(1) [of "tl s"]
    by (cases s; auto simp: scan_exp_def split: if_splits)+
  assume r: "num_stop r"
  then have stop: "digit_stop r" by (auto simp: num_stop_def digit_stop_def)
  show "scan_exp (e @ r) = Some (e, r)"
  proof (cases "e = []")
    case True
    with r show ?thesis by (cases r) (auto simp: scan_exp_def num_stop_def)
  next
    case False
    with assms obtain c s1 where c: "c = CHR ''e'' \<or> c = CHR ''E''"
        "takeWhile is_digit (snd (scan_sign s1)) \<noteq> []"
        "e = c # fst (scan_sign s1) @ takeWhile is_digit (snd (scan_sign s1))"
      by (cases s) (auto simp: scan_exp_def split: if_splits)
    with stop show ?thesis
      by (simp add: scan_exp_def scan_sign_split(2) digits_append)
  qed
qed

lemma scan_minus_split:
  "s = fst (scan_minus s) @ snd (scan_minus s)"
  "m \<noteq> [] \<Longrightarrow> is_digit (hd m) \<Longrightarrow> scan_minus (fst (scan_minus s) @ m @ r) = (fst (scan_minus s), m @ r)"
proof -
  show "s = fst (scan_minus s) @ snd (scan_minus s)"
    by (simp add: scan_minus_def split: list.splits)
  assume "m \<noteq> []" "is_digit (hd m)"
  then show "scan_minus (fst (scan_minus s) @ m @ r) = (fst (scan_minus s), m @ r)"
    by (cases m; cases s) (auto simp: scan_minus_def is_digit_def byte_in_def byte_def split: if_splits)
qed

lemma scan_num_split:
  assumes "scan_num s = Some (n, t)"
  shows "s = n @ t" "num_stop r \<Longrightarrow> scan_num (n @ r) = Some (n, r)"
proof -
  from assms obtain m s1 f s2 e where
    m: "scan_mag (snd (scan_minus s)) = Some (m, s1)" and f: "scan_frac s1 = Some (f, s2)"
    and e: "scan_exp s2 = Some (e, t)" and n: "n = fst (scan_minus s) @ m @ f @ e"
    by (auto simp: scan_num_def Option.bind_eq_Some_conv)
  note m' = scan_mag_split [OF m] and f' = scan_frac_split [OF f] and e' = scan_exp_split [OF e]
  show "s = n @ t" using n m'(1) f'(1) e'(1) scan_minus_split(1) [of s] by simp
  assume r: "num_stop r"
  have er: "digit_stop (e @ r)" "e @ r = [] \<or> hd (e @ r) \<noteq> CHR ''.''"
    using e'(3) r by (cases e; auto simp: digit_stop_def num_stop_def is_digit_def byte_in_def byte_def)+
  have fr: "digit_stop (f @ e @ r)"
    using f'(3) er(1) by (cases f) (auto simp: digit_stop_def is_digit_def byte_in_def byte_def)
  show "scan_num (n @ r) = Some (n, r)"
    using m'(2) [OF fr] f'(2) [OF er] e'(2) [OF r] n m'(3,4)
    by (simp add: scan_num_def scan_minus_split(2))
qed

lemma scan_num_ok: "scan_num s = Some (n, t) \<Longrightarrow> num_ok n"
  using scan_num_split(2) [of s n t "[]"] by (simp add: num_ok_def num_stop_def)

lemma num_ok_scan: "num_ok n \<Longrightarrow> num_stop r \<Longrightarrow> scan_num (n @ r) = Some (n, r)"
  using scan_num_split(2) [of n n "[]" r] by (simp add: num_ok_def)

lemma scan_num_first:
  assumes "scan_num s = Some (n, t)"
  shows "n \<noteq> [] \<and> (hd n = CHR ''-'' \<or> is_digit (hd n))"
proof -
  from assms obtain m s1 f s2 e where
    m: "scan_mag (snd (scan_minus s)) = Some (m, s1)" and n: "n = fst (scan_minus s) @ m @ f @ e"
    by (auto simp: scan_num_def Option.bind_eq_Some_conv)
  with scan_mag_split(3,4) [OF m] show ?thesis
    by (cases s) (auto simp: scan_minus_def split: if_splits)
qed

section \<open>The parser is lossless\<close>

lemma parse_elems_SucE:
  assumes "parse_elems (Suc n) d s = Some (es, r)"
  obtains v t u where "parse_value n d (skip_ws s) = Some (v, t)" "skip_ws t = CHR '']'' # u"
      "es = ECons (takeWhile is_ws s) v (takeWhile is_ws t) ENil" "r = u"
  | v t u es' where "parse_value n d (skip_ws s) = Some (v, t)" "skip_ws t = CHR '','' # u"
      "parse_elems n d u = Some (es', r)" "es = ECons (takeWhile is_ws s) v (takeWhile is_ws t) es'"
  using assms by (auto split: option.splits list.splits if_splits)

lemma parse_members_SucE:
  assumes "parse_members (Suc n) d s = Some (ms, r)"
  obtains s1 k s2 s3 v t u where "skip_ws s = CHR 0x22 # s1" "scan_str s1 = Some (k, s2)"
      "skip_ws s2 = CHR '':'' # s3" "parse_value n d (skip_ws s3) = Some (v, t)"
      "skip_ws t = CHR ''}'' # u"
      "ms = MCons (takeWhile is_ws s) k (takeWhile is_ws s2) (takeWhile is_ws s3) v (takeWhile is_ws t) MNil"
      "r = u"
  | s1 k s2 s3 v t u ms' where "skip_ws s = CHR 0x22 # s1" "scan_str s1 = Some (k, s2)"
      "skip_ws s2 = CHR '':'' # s3" "parse_value n d (skip_ws s3) = Some (v, t)"
      "skip_ws t = CHR '','' # u" "parse_members n d u = Some (ms', r)"
      "ms = MCons (takeWhile is_ws s) k (takeWhile is_ws s2) (takeWhile is_ws s3) v (takeWhile is_ws t) ms'"
  using assms by (auto split: option.splits list.splits if_splits)

lemma parse_value_SucE:
  assumes "parse_value (Suc n) d s = Some (v, r)"
  obtains b s1 where "s = CHR 0x22 # s1" "scan_str s1 = Some (b, r)" "v = JStr b"
  | s1 where "s = CHR ''{'' # s1" "0 < d" "skip_ws s1 = CHR ''}'' # r" "v = JObj (takeWhile is_ws s1) MNil"
  | s1 ms where "s = CHR ''{'' # s1" "0 < d" "parse_members n (d - 1) s1 = Some (ms, r)" "v = JObj [] ms"
  | s1 where "s = CHR ''['' # s1" "0 < d" "skip_ws s1 = CHR '']'' # r" "v = JArr (takeWhile is_ws s1) ENil"
  | s1 es where "s = CHR ''['' # s1" "0 < d" "parse_elems n (d - 1) s1 = Some (es, r)" "v = JArr [] es"
  | s1 where "s = CHR ''n'' # s1" "scan_lit ''ull'' s1 = Some r" "v = JNull"
  | s1 where "s = CHR ''t'' # s1" "scan_lit ''rue'' s1 = Some r" "v = JBool True"
  | s1 where "s = CHR ''f'' # s1" "scan_lit ''alse'' s1 = Some r" "v = JBool False"
  | x where "scan_num s = Some (x, r)" "v = JNum x"
proof -
  obtain c s1 where s: "s = c # s1" using assms by (cases s) simp_all
  consider "c = CHR 0x22" | "c = CHR ''{''" | "c = CHR ''[''" | "c = CHR ''n''" | "c = CHR ''t''"
    | "c = CHR ''f''" | "c \<notin> {CHR 0x22, CHR ''{'', CHR ''['', CHR ''n'', CHR ''t'', CHR ''f''}"
    by auto
  then show thesis
  proof cases
    case 1
    with assms s that(1) show ?thesis by (auto split: option.splits)
  next
    case 2
    obtain x t where w: "skip_ws s1 = x # t" using assms 2 s
      by (cases "skip_ws s1") (simp_all split: if_splits del: dropWhile_eq_Nil_conv)
    show ?thesis
    proof (cases "x = CHR ''}''")
      case True
      with assms s 2 w that(2) show ?thesis by (simp split: if_splits)
    next
      case False
      with assms s 2 w that(3) show ?thesis by (auto split: if_splits option.splits)
    qed
  next
    case 3
    obtain x t where w: "skip_ws s1 = x # t" using assms 3 s
      by (cases "skip_ws s1") (simp_all split: if_splits del: dropWhile_eq_Nil_conv)
    show ?thesis
    proof (cases "x = CHR '']''")
      case True
      with assms s 3 w that(4) show ?thesis by (simp split: if_splits)
    next
      case False
      with assms s 3 w that(5) show ?thesis by (auto split: if_splits option.splits)
    qed
  next
    case 4
    with assms s that(6) show ?thesis by auto
  next
    case 5
    with assms s that(7) show ?thesis by auto
  next
    case 6
    with assms s that(8) show ?thesis by auto
  next
    case 7
    with assms s that(9) show ?thesis by auto
  qed
qed

lemma ws_eq: "skip_ws s = c # t \<Longrightarrow> s = takeWhile is_ws s @ c # t"
  by (metis takeWhile_dropWhile_id)

lemma parse_lossless:
  "parse_value n d s = Some (v, r) \<Longrightarrow> s = unparse v @ r \<and> wf_json v d"
  "parse_elems n d s = Some (es, r) \<Longrightarrow> s = unparse_elems es @ CHR '']'' # r \<and> wf_elems es d \<and> es \<noteq> ENil"
  "parse_members n d s = Some (ms, r) \<Longrightarrow> s = unparse_members ms @ CHR ''}'' # r \<and> wf_members ms d \<and> ms \<noteq> MNil"
proof (induction n arbitrary: d s v r es ms)
  case 0
  { case 1 then show ?case by simp }
  { case 2 then show ?case by simp }
  { case 3 then show ?case by simp }
next
  case (Suc n)
  { case 1
    then show ?case
    proof (cases rule: parse_value_SucE)
      case (1 b s1)
      then show ?thesis using scan_str_split scan_str_ok by auto
    next
      case (2 s1)
      then show ?thesis using ws_eq [of s1] by simp
    next
      case (3 s1 ms)
      then show ?thesis using Suc.IH(3) [of "d - 1" s1 ms r] by simp
    next
      case (4 s1)
      then show ?thesis using ws_eq [of s1] by simp
    next
      case (5 s1 es)
      then show ?thesis using Suc.IH(2) [of "d - 1" s1 es r] by simp
    next
      case (9 x)
      then show ?thesis using scan_num_split(1) scan_num_ok by auto
    qed (auto dest: scan_lit_split) }
  { case 2
    then show ?case
    proof (cases rule: parse_elems_SucE)
      case (1 v t u)
      then show ?thesis
        using Suc.IH(1) [OF 1(1)] ws_eq [OF 1(2)] takeWhile_dropWhile_id [of is_ws s] by simp
    next
      case (2 v t u es')
      then show ?thesis
        using Suc.IH(1) [OF 2(1)] Suc.IH(2) [OF 2(3)] ws_eq [OF 2(2)] takeWhile_dropWhile_id [of is_ws s]
        by (cases es') simp_all
    qed }
  { case 3
    then show ?case
    proof (cases rule: parse_members_SucE)
      case (1 s1 k s2 s3 v t u)
      then show ?thesis
        using Suc.IH(1) [OF 1(4)] ws_eq [OF 1(1)] ws_eq [OF 1(3)] ws_eq [OF 1(5)]
          takeWhile_dropWhile_id [of is_ws s3] scan_str_split [OF 1(2)] scan_str_ok [OF 1(2)] by simp
    next
      case (2 s1 k s2 s3 v t u ms')
      then show ?thesis
        using Suc.IH(1) [OF 2(4)] Suc.IH(3) [OF 2(6)] ws_eq [OF 2(1)] ws_eq [OF 2(3)] ws_eq [OF 2(5)]
          takeWhile_dropWhile_id [of is_ws s3] scan_str_split [OF 2(2)] scan_str_ok [OF 2(2)]
        by (cases ms') simp_all
    qed }
qed

section \<open>Well-formed values are read back\<close>

text \<open>The fuel a value needs, and that it is bounded by the length of its text.\<close>

primrec json_cost :: "json \<Rightarrow> nat"
  and elems_cost :: "jelems \<Rightarrow> nat"
  and members_cost :: "jmembers \<Rightarrow> nat" where
  "json_cost JNull = 1"
| "json_cost (JBool b) = 1"
| "json_cost (JNum n) = 1"
| "json_cost (JStr b) = 1"
| "json_cost (JArr w es) = Suc (elems_cost es)"
| "json_cost (JObj w ms) = Suc (members_cost ms)"
| "elems_cost ENil = 0"
| "elems_cost (ECons a v b es) = Suc (max (json_cost v) (elems_cost es))"
| "members_cost MNil = 0"
| "members_cost (MCons a k b c v e ms) = Suc (max (json_cost v) (members_cost ms))"

lemma cost_bound:
  "wf_json v d \<Longrightarrow> json_cost v \<le> 2 * length (unparse v)"
  "wf_elems es d \<Longrightarrow> elems_cost es \<le> Suc (2 * length (unparse_elems es))"
  "wf_members ms d \<Longrightarrow> members_cost ms \<le> Suc (2 * length (unparse_members ms))"
proof (induction v and es and ms arbitrary: d and d and d)
  case (JNum n)
  then have "n \<noteq> []" using scan_num_first by (auto simp: num_ok_def)
  then show ?case by (cases n) simp_all
next
  case (ECons a v b es)
  then have "json_cost v \<le> 2 * length (unparse v)" "elems_cost es \<le> Suc (2 * length (unparse_elems es))"
    by auto
  then show ?case by (cases es) simp_all
next
  case (MCons a k b c v e ms)
  then have "json_cost v \<le> 2 * length (unparse v)" "members_cost ms \<le> Suc (2 * length (unparse_members ms))"
    by auto
  then show ?case by (cases ms) simp_all
next
  case (JArr w es)
  from JArr.prems have "elems_cost es \<le> Suc (2 * length (unparse_elems es))" using JArr.IH by auto
  then show ?case by simp
next
  case (JObj w ms)
  from JObj.prems have "members_cost ms \<le> Suc (2 * length (unparse_members ms))" using JObj.IH by auto
  then show ?case by simp
qed simp_all

lemma is_digit_facts:
  assumes "is_digit c"
  shows "\<not> is_ws c" "c \<noteq> CHR '']''" "c \<noteq> CHR ''}''" "c \<noteq> CHR 0x22" "c \<noteq> CHR ''{''" "c \<noteq> CHR ''[''"
    "c \<noteq> CHR ''n''" "c \<noteq> CHR ''t''" "c \<noteq> CHR ''f''"
  using assms by (auto simp: is_digit_def byte_in_def byte_def is_ws_def)

lemma unparse_first:
  assumes "wf_json v d"
  obtains c t where "unparse v = c # t" "\<not> is_ws c" "c \<noteq> CHR '']''" "c \<noteq> CHR ''}''"
proof (cases v)
  case (JNum n)
  with assms have "n \<noteq> []" "hd n = CHR ''-'' \<or> is_digit (hd n)"
    using scan_num_first by (auto simp: num_ok_def)
  with that [of "hd n" "tl n"] is_digit_facts [of "hd n"] show ?thesis
    by (cases n) (auto simp: JNum is_ws_def)
next
  case (JBool x)
  with that show ?thesis by (cases x) (auto simp: is_ws_def)
qed (use that in \<open>auto simp: is_ws_def\<close>)

lemma ws_stop: "list_all is_ws b \<Longrightarrow> c \<in> {CHR '','', CHR '']'', CHR ''}''} \<Longrightarrow> num_stop (b @ c # s)"
  by (cases b) (auto simp: num_stop_def is_ws_def is_digit_def byte_in_def byte_def)

lemma ws_before:
  assumes "list_all is_ws w" "\<not> is_ws c"
  shows "skip_ws (w @ c # s) = c # s" "takeWhile is_ws (w @ c # s) = w"
  using assms by (simp_all add: skip_ws_append)

lemma delims_not_ws [simp]:
  "\<not> is_ws (CHR '','')" "\<not> is_ws (CHR '']'')" "\<not> is_ws (CHR ''}'')" "\<not> is_ws (CHR '':'')" "\<not> is_ws (CHR 0x22)"
  by (simp_all add: is_ws_def)

lemma parse_unparse:
  "wf_json v d \<Longrightarrow> num_stop r \<Longrightarrow> json_cost v \<le> n \<Longrightarrow> parse_value n d (unparse v @ r) = Some (v, r)"
  "wf_elems es d \<Longrightarrow> es \<noteq> ENil \<Longrightarrow> elems_cost es \<le> n \<Longrightarrow>
     parse_elems n d (unparse_elems es @ CHR '']'' # r) = Some (es, r)"
  "wf_members ms d \<Longrightarrow> ms \<noteq> MNil \<Longrightarrow> members_cost ms \<le> n \<Longrightarrow>
     parse_members n d (unparse_members ms @ CHR ''}'' # r) = Some (ms, r)"
proof (induction v and es and ms arbitrary: d r n and d r n and d r n)
  case (JNum x)
  then obtain m where n: "n = Suc m" by (cases n) simp_all
  from JNum have "x \<noteq> []" "hd x = CHR ''-'' \<or> is_digit (hd x)"
    using scan_num_first by (auto simp: num_ok_def)
  then obtain c t where x: "x = c # t" "c = CHR ''-'' \<or> is_digit c" by (cases x) auto
  then have "c \<notin> {CHR 0x22, CHR ''{'', CHR ''['', CHR ''n'', CHR ''t'', CHR ''f''}"
    using is_digit_facts [of c] by auto
  with x n num_ok_scan [of x r] JNum show ?case by simp
next
  case (JStr b)
  then show ?case by (cases n) (simp_all add: str_ok_scan)
next
  case (JArr w es)
  then obtain m where n: "n = Suc m" by (cases n) simp_all
  show ?case
  proof (cases es)
    case ENil
    with JArr.prems n show ?thesis by (simp add: ws_before)
  next
    case (ECons a v b es')
    with JArr.prems obtain c t where c: "unparse v = c # t" "\<not> is_ws c" "c \<noteq> CHR '']''"
      by (auto elim: unparse_first)
    have "parse_elems m (d - 1) (unparse_elems es @ CHR '']'' # r) = Some (es, r)"
      using JArr.prems n ECons by (intro JArr.IH) simp_all
    with JArr.prems n ECons c show ?thesis by (simp add: ws_before)
  qed
next
  case (JObj w ms)
  then obtain m where n: "n = Suc m" by (cases n) simp_all
  show ?case
  proof (cases ms)
    case MNil
    with JObj.prems n show ?thesis by (simp add: ws_before)
  next
    case (MCons a k b c v e ms')
    have "parse_members m (d - 1) (unparse_members ms @ CHR ''}'' # r) = Some (ms, r)"
      using JObj.prems n MCons by (intro JObj.IH) simp_all
    with JObj.prems n MCons show ?thesis by (simp add: ws_before)
  qed
next
  case (ECons a v b es)
  then obtain m where n: "n = Suc m" by (cases n) simp_all
  from ECons.prems obtain c t where c: "unparse v = c # t" "\<not> is_ws c"
    by (auto elim: unparse_first)
  have v: "parse_value m d (unparse v @ b @ x # y) = Some (v, b @ x # y)"
    if "x \<in> {CHR '','', CHR '']'', CHR ''}''}" for x y
    using ECons.prems n that by (intro ECons.IH(1)) (simp_all add: ws_stop)
  show ?case
  proof (cases es)
    case ENil
    with ECons.prems n v [of "CHR '']''" r] c show ?thesis by (simp add: ws_before)
  next
    case (ECons a' v' b' es')
    have "parse_elems m d (unparse_elems es @ CHR '']'' # r) = Some (es, r)"
      using ECons.prems n ECons by (intro ECons.IH(2)) simp_all
    with ECons.prems n v [of "CHR '',''" "unparse_elems es @ CHR '']'' # r"] c ECons
    show ?thesis by (simp add: ws_before)
  qed
next
  case (MCons a k b e v f ms)
  then obtain m where n: "n = Suc m" by (cases n) simp_all
  from MCons.prems obtain c t where c: "unparse v = c # t" "\<not> is_ws c"
    by (auto elim: unparse_first)
  have v: "parse_value m d (unparse v @ f @ x # y) = Some (v, f @ x # y)"
    if "x \<in> {CHR '','', CHR '']'', CHR ''}''}" for x y
    using MCons.prems n that by (intro MCons.IH(1)) (simp_all add: ws_stop)
  show ?case
  proof (cases ms)
    case MNil
    with MCons.prems n v [of "CHR ''}''" r] c show ?thesis by (simp add: ws_before str_ok_scan)
  next
    case (MCons a' k' b' e' v' f' ms')
    have "parse_members m d (unparse_members ms @ CHR ''}'' # r) = Some (ms, r)"
      using MCons.prems n MCons by (intro MCons.IH(2)) simp_all
    with MCons.prems n v [of "CHR '',''" "unparse_members ms @ CHR ''}'' # r"] c MCons
    show ?thesis by (simp add: ws_before str_ok_scan)
  qed
qed (auto simp: Suc_le_eq gr0_conv_Suc)

section \<open>The fuel is enough\<close>

lemma parse_cost:
  "parse_value n d s = Some (v, r) \<Longrightarrow> json_cost v \<le> m \<Longrightarrow> parse_value m d s = Some (v, r)"
  "parse_elems n d s = Some (es, r) \<Longrightarrow> elems_cost es \<le> m \<Longrightarrow> parse_elems m d s = Some (es, r)"
  "parse_members n d s = Some (ms, r) \<Longrightarrow> members_cost ms \<le> m \<Longrightarrow> parse_members m d s = Some (ms, r)"
proof (induction n arbitrary: d s v r es ms m)
  case 0
  { case 1 then show ?case by simp }
  { case 2 then show ?case by simp }
  { case 3 then show ?case by simp }
next
  case (Suc n)
  { case 1
    from 1(2) obtain k where m: "m = Suc k" by (cases v; cases m) simp_all
    from 1(1) show ?case
    proof (cases rule: parse_value_SucE)
      case (3 s1 ms)
      then have "members_cost ms \<le> k" using 1(2) m by simp
      then have "parse_members k (d - 1) s1 = Some (ms, r)" by (rule Suc.IH(3) [OF 3(3)])
      moreover have "skip_ws s1 \<noteq> [] \<and> hd (skip_ws s1) = CHR 0x22"
        using 3(3) by (cases n) (auto elim!: parse_members_SucE simp del: dropWhile_eq_Nil_conv parse_members.simps(2))
      ultimately show ?thesis using 3 m by (cases "skip_ws s1") simp_all
    next
      case (5 s1 es)
      then have "elems_cost es \<le> k" using 1(2) m by simp
      then have "parse_elems k (d - 1) s1 = Some (es, r)" by (rule Suc.IH(2) [OF 5(3)])
      moreover have "skip_ws s1 \<noteq> [] \<and> hd (skip_ws s1) \<noteq> CHR '']''"
      proof -
        from 5(3) obtain v t p where "parse_value p (d - 1) (skip_ws s1) = Some (v, t)"
          by (cases n) (auto elim!: parse_elems_SucE simp del: parse_elems.simps(2))
        then have "skip_ws s1 = unparse v @ t" "wf_json v (d - 1)" by (auto dest: parse_lossless)
        then show ?thesis by (auto elim!: unparse_first simp del: dropWhile_eq_Nil_conv)
      qed
      ultimately show ?thesis using 5 m by (cases "skip_ws s1") simp_all
    next
      case (9 x)
      with scan_num_first [of s x r] scan_num_split(1) [of s x r] obtain c t where
        s: "s = c # t" "c = CHR ''-'' \<or> is_digit c" by (cases x) auto
      then have "c \<notin> {CHR 0x22, CHR ''{'', CHR ''['', CHR ''n'', CHR ''t'', CHR ''f''}"
        using is_digit_facts [of c] by auto
      with s m 9 show ?thesis by simp
    qed (simp_all add: m) }
  { case 2
    from parse_lossless(2) [OF 2(1)] 2(2) obtain k where m: "m = Suc k" by (cases es; cases m) simp_all
    from 2(1) show ?case
    proof (cases rule: parse_elems_SucE)
      case (1 v t u)
      then have "json_cost v \<le> k" using 2(2) m by simp
      then have "parse_value k d (skip_ws s) = Some (v, t)" by (rule Suc.IH(1) [OF 1(1)])
      with 1 m show ?thesis by simp
    next
      case (2 v t u es')
      then have "json_cost v \<le> k" "elems_cost es' \<le> k" using \<open>elems_cost es \<le> m\<close> m by simp_all
      then have "parse_value k d (skip_ws s) = Some (v, t)" "parse_elems k d u = Some (es', r)"
        using Suc.IH(1) [OF 2(1)] Suc.IH(2) [OF 2(3)] by blast+
      with 2 m show ?thesis by simp
    qed }
  { case 3
    from parse_lossless(3) [OF 3(1)] 3(2) obtain k where m: "m = Suc k" by (cases ms; cases m) simp_all
    from 3(1) show ?case
    proof (cases rule: parse_members_SucE)
      case (1 s1 k' s2 s3 v t u)
      then have "json_cost v \<le> k" using 3(2) m by simp
      then have "parse_value k d (skip_ws s3) = Some (v, t)" by (rule Suc.IH(1) [OF 1(4)])
      with 1 m show ?thesis by simp
    next
      case (2 s1 k' s2 s3 v t u ms')
      then have "json_cost v \<le> k" "members_cost ms' \<le> k" using \<open>members_cost ms \<le> m\<close> m by simp_all
      then have "parse_value k d (skip_ws s3) = Some (v, t)" "parse_members k d u = Some (ms', r)"
        using Suc.IH(1) [OF 2(4)] Suc.IH(3) [OF 2(6)] by blast+
      with 2 m show ?thesis by simp
    qed }
qed

lemma parse_fuel_enough:
  assumes "parse_value n d s = Some (v, r)" "2 * length s \<le> m"
  shows "parse_value m d s = Some (v, r)"
proof -
  from parse_lossless(1) [OF assms(1)] have "s = unparse v @ r" "wf_json v d" by simp_all
  then have "json_cost v \<le> m" using cost_bound(1) [of v d] assms(2) by simp
  with assms(1) show ?thesis by (rule parse_cost)
qed

section \<open>Documents\<close>

lemma parse_doc_unparse:
  assumes "wf_json v max_nesting" "list_all is_ws a" "list_all is_ws b"
  shows "parse_doc (a @ unparse v @ b) = Some v"
proof -
  obtain c t where c: "unparse v = c # t" "\<not> is_ws c" using assms(1) by (rule unparse_first)
  have skip: "skip_ws (a @ unparse v @ b) = unparse v @ b"
    using assms(2) c by (simp add: skip_ws_append)
  have "num_stop b"
    using assms(3) by (cases b) (auto simp: num_stop_def is_ws_def is_digit_def byte_in_def byte_def)
  with assms(1) have "parse_value (parse_fuel (a @ unparse v @ b)) max_nesting (unparse v @ b) = Some (v, b)"
    using cost_bound(1) [OF assms(1)] by (intro parse_unparse) (auto simp: parse_fuel_def)
  with skip assms(3) show ?thesis by (simp add: parse_doc_def decode_first_def)
qed

lemma parse_doc_text:
  assumes "parse_doc s = Some v"
  obtains a b where "s = a @ unparse v @ b" "list_all is_ws a" "list_all is_ws b" "wf_json v max_nesting"
proof -
  from assms obtain r where p: "parse_value (parse_fuel s) max_nesting (skip_ws s) = Some (v, r)"
    and r: "list_all is_ws r"
    by (auto simp: parse_doc_def decode_first_def split: option.splits if_splits)
  from parse_lossless(1) [OF p] have "skip_ws s = unparse v @ r" "wf_json v max_nesting" by simp_all
  with r that [of "takeWhile is_ws s" r] show ?thesis by (metis takeWhile_dropWhile_id ws_takeWhile)
qed

lemma parse_doc_compact_text [simp]: "wf_json v max_nesting \<Longrightarrow> parse_doc (unparse v) = Some v"
  using parse_doc_unparse [of v "[]" "[]"] by simp

lemma decode_first_unparse:
  "wf_json v max_nesting \<Longrightarrow> decode_first (unparse v) = Some (v, [])"
proof -
  assume wf: "wf_json v max_nesting"
  then obtain c t where c: "unparse v = c # t" "\<not> is_ws c" by (rule unparse_first)
  have "parse_value (parse_fuel (unparse v)) max_nesting (unparse v @ []) = Some (v, [])"
    using cost_bound(1) [OF wf] wf by (intro parse_unparse) (auto simp: parse_fuel_def num_stop_def)
  with c show ?thesis by (simp add: decode_first_def)
qed

end
