(* ===== verification/State_Object.thy ===== *)
theory State_Object
  imports Proto_Types Go_Json_Text
begin

text \<open>
  \<open>state.go\<close>: validation of State identities and objects, the monotonic merge of an incoming State
  object, the bounded accumulator of a State snapshot, and the semantic comparison of State data.
\<close>

section \<open>The state-sync capability\<close>

definition CapabilityStateSync :: string where "CapabilityStateSync = ''state-sync''"

definition CapabilityStateSyncVersion :: uint16 where "CapabilityStateSyncVersion = 1"

definition stateSyncEnabled :: "SessionCapabilities \<Rightarrow> bool" where
  "stateSyncEnabled capabilities \<longleftrightarrow>
     Capabilities_Version capabilities CapabilityStateSync = Some CapabilityStateSyncVersion"

definition validateImplementedCapabilityOffers :: "CapabilityOffer list \<Rightarrow> go_error option" where
  "validateImplementedCapabilityOffers offers = check_all (\<lambda>offer.
     if co_Name offer = CapabilityStateSync
        \<and> (len (co_Versions offer) \<noteq> 1 \<or> hd (co_Versions offer) \<noteq> CapabilityStateSyncVersion)
     then Some (NewProtocolError ErrorInvalidCapability ''state-sync must use its implemented numeric version'')
     else None) offers"

definition validateImplementedCapabilityRegistry :: "CapabilityRegistry option \<Rightarrow> go_error option" where
  "validateImplementedCapabilityRegistry registry = (case registry of None \<Rightarrow> None | Some r \<Rightarrow>
     (case map_get (cr_versions r) CapabilityStateSync of None \<Rightarrow> None | Some versions \<Rightarrow>
        if len versions \<noteq> 1 \<or> hd versions \<noteq> CapabilityStateSyncVersion
        then Some (NewProtocolError ErrorInvalidCapability ''state-sync must use its implemented numeric version'')
        else None))"

section \<open>Identities and objects\<close>

type_synonym StateIdentity = "string \<times> string"

definition Identity :: "StateObject \<Rightarrow> StateIdentity" where
  "Identity o' = (so_Namespace o', so_ObjectID o')"

definition cloneStateObject :: "StateObject \<Rightarrow> StateObject" where
  "cloneStateObject o' = o'\<lparr>so_Data := [] @ so_Data o'\<rparr>"

definition validateStateNamespace :: "string \<Rightarrow> int \<Rightarrow> go_error option" where
  "validateStateNamespace namespace maxLength =
     (if namespace = [] \<or> len namespace > maxLength \<or> \<not> ValidString namespace then
        Some (bad_request ''invalid or oversized state namespace'')
      else if \<not> is_lower (hd namespace) then
        Some (bad_request (''invalid state namespace: '' @ namespace))
      else if \<not> name_loop False (tl namespace) then
        Some (bad_request (''invalid state namespace: '' @ namespace))
      else None)"

definition ValidateStateIdentity :: "string \<Rightarrow> string \<Rightarrow> Limits \<Rightarrow> go_error option" where
  "ValidateStateIdentity namespace objectID limits0 =
     (let limits = normalizeLimits limits0 in
      first_err (validateStateNamespace namespace (MaxStateNamespaceLength limits))
        (if objectID = [] \<or> len objectID > MaxStateObjectIDLength limits \<or> \<not> ValidString objectID then
           Some (bad_request ''invalid or oversized state object_id'')
         else if list_ex IsControl (runes objectID) then
           Some (bad_request ''state object_id must not contain control characters'')
         else None))"

definition ValidateStateObject :: "StateObject option \<Rightarrow> Limits \<Rightarrow> go_error option" where
  "ValidateStateObject object limits0 =
     (let limits = normalizeLimits limits0 in
      case object of None \<Rightarrow> Some (bad_request ''nil state object'')
      | Some o' \<Rightarrow>
        (case ValidateStateIdentity (so_Namespace o') (so_ObjectID o') limits of Some e \<Rightarrow> Some e | None \<Rightarrow>
         if so_Version o' = 0 \<or> so_Version o' = - 1 then
           Some (NewProtocolError ErrorInvalidStateVersion ''state version must be positive and non-exhausted'')
         else if so_Data o' = [] \<or> \<not> json_Valid (so_Data o') then
           Some (bad_request ''state data must contain one valid JSON value'')
         else if len (so_Data o') > MaxStateDataSize limits then
           Some (bad_request ''state data exceeds maximum size'')
         else
           (case json_Marshal (StateObject_json o') of
              None \<Rightarrow> Some (bad_request (''state object cannot be encoded: '' @ json_error_text JSyntaxError))
            | Some encoded \<Rightarrow>
                if len encoded > MaxStateObjectSize limits \<or> len encoded > MaxPayloadSize limits
                then Some (bad_request ''state object exceeds maximum size'')
                else None)))"

definition NewStateObject :: "string \<Rightarrow> string \<Rightarrow> uint64 \<Rightarrow> bytes \<Rightarrow> Limits \<Rightarrow> go_error + StateObject" where
  "NewStateObject namespace objectID version data limits =
     (let object = \<lparr>so_Namespace = namespace, so_ObjectID = objectID, so_Version = version, so_Data = [] @ data\<rparr>
      in case ValidateStateObject (Some object) limits of Some e \<Rightarrow> Inl e | None \<Rightarrow> Inr object)"

section \<open>State data\<close>

text \<open>The values \<open>encoding/json\<close> decodes into \<open>any\<close> with \<open>UseNumber\<close>.\<close>

datatype jany =
    ANil
  | ABool bool
  | AString string
  | ANumber string
  | ASlice "jany list"
  | AMap "(string \<times> jany) list"

primrec json_any :: "json \<Rightarrow> jany"
  and elems_any :: "jelems \<Rightarrow> jany list"
  and members_any :: "jmembers \<Rightarrow> (string, jany) gomap \<Rightarrow> (string, jany) gomap" where
  "json_any JNull = ANil"
| "json_any (JBool b) = ABool b"
| "json_any (JNum n) = ANumber n"
| "json_any (JStr b) = AString (unquote b)"
| "json_any (JArr w es) = ASlice (elems_any es)"
| "json_any (JObj w ms) = AMap (members_any ms [])"
| "elems_any ENil = []"
| "elems_any (ECons a v b es) = json_any v # elems_any es"
| "members_any MNil m = m"
| "members_any (MCons a k b c v d ms) m = members_any ms (map_put (unquote k) (json_any v) m)"

definition decodeStateData :: "bytes \<Rightarrow> go_error + jany" where
  "decodeStateData data =
     (case decode_first data of
        None \<Rightarrow> Inl (bad_request (''invalid state data: '' @ json_error_text JSyntaxError))
      | Some (v, r) \<Rightarrow>
          if list_all is_ws r then Inr (json_any v)
          else if decode_first r \<noteq> None then Inl (bad_request (''invalid state data: '' @ ''multiple JSON values''))
          else Inl (bad_request (''invalid state data: '' @ ''invalid trailing JSON: '' @ json_error_text JSyntaxError)))"

record normalizedStateJSONNumber =
  nn_negative :: bool
  nn_coefficient :: string
  nn_exponent :: string

text \<open>\<open>big.Int.SetString\<close> in base 10.\<close>

definition big_SetString :: "string \<Rightarrow> int option" where
  "big_SetString s =
     (let t = (if s \<noteq> [] \<and> (hd s = CHR ''+'' \<or> hd s = CHR ''-'') then tl s else s) in
      if t = [] \<or> \<not> list_all is_digit t then None
      else Some (if hd s = CHR ''-'' then - digits_value 0 t else digits_value 0 t))"

definition trim_right :: "char \<Rightarrow> string \<Rightarrow> string" where
  "trim_right c s = rev (dropWhile (\<lambda>x. x = c) (rev s))"

definition is_exp_char :: "char \<Rightarrow> bool" where
  "is_exp_char c \<longleftrightarrow> c = CHR ''e'' \<or> c = CHR ''E''"

definition normalizeStateJSONNumber :: "string \<Rightarrow> normalizedStateJSONNumber option" where
  "normalizeStateJSONNumber number =
     (let negative = (number \<noteq> [] \<and> hd number = CHR ''-'');
          text1 = (if negative then tl number else number);
          mantissa = takeWhile (\<lambda>c. \<not> is_exp_char c) text1;
          exponentText = (if list_ex is_exp_char text1 then tl (dropWhile (\<lambda>c. \<not> is_exp_char c) text1) else ''0'')
      in case big_SetString exponentText of None \<Rightarrow> None
      | Some exponent \<Rightarrow>
          (let whole = takeWhile (\<lambda>c. c \<noteq> CHR ''.'') mantissa;
               fraction = tl (dropWhile (\<lambda>c. c \<noteq> CHR ''.'') mantissa);
               fractionDigits = (if CHR ''.'' \<in> set mantissa then len fraction else 0);
               text2 = (if CHR ''.'' \<in> set mantissa then whole @ fraction else mantissa);
               digits = dropWhile (\<lambda>c. c = CHR ''0'') text2
           in if digits = [] then Some \<lparr>nn_negative = False, nn_coefficient = ''0'', nn_exponent = ''0''\<rparr>
              else
                (let digits' = trim_right (CHR ''0'') digits;
                     trailingZeros = len digits - len digits'
                 in Some \<lparr>nn_negative = negative, nn_coefficient = digits',
                          nn_exponent = itoa (exponent - fractionDigits + trailingZeros)\<rparr>)))"

fun equalStateJSONValue :: "jany \<Rightarrow> jany \<Rightarrow> bool"
  and equal_slice :: "jany list \<Rightarrow> jany list \<Rightarrow> bool"
  and equal_map :: "(string \<times> jany) list \<Rightarrow> (string, jany) gomap \<Rightarrow> bool" where
  "equalStateJSONValue ANil r \<longleftrightarrow> r = ANil"
| "equalStateJSONValue (ABool b) r \<longleftrightarrow> r = ABool b"
| "equalStateJSONValue (AString s) r \<longleftrightarrow> r = AString s"
| "equalStateJSONValue (ANumber n) r \<longleftrightarrow> (case r of
     ANumber m \<Rightarrow> normalizeStateJSONNumber n \<noteq> None \<and> normalizeStateJSONNumber n = normalizeStateJSONNumber m
   | _ \<Rightarrow> False)"
| "equalStateJSONValue (ASlice vs) r \<longleftrightarrow> (case r of
     ASlice ws \<Rightarrow> length vs = length ws \<and> equal_slice vs ws
   | _ \<Rightarrow> False)"
| "equalStateJSONValue (AMap m) r \<longleftrightarrow> (case r of
     AMap m' \<Rightarrow> length m = length m' \<and> equal_map m m'
   | _ \<Rightarrow> False)"
| "equal_slice [] ws \<longleftrightarrow> True"
| "equal_slice (v # vs) ws \<longleftrightarrow> ws \<noteq> [] \<and> equalStateJSONValue v (hd ws) \<and> equal_slice vs (tl ws)"
| "equal_map [] m' \<longleftrightarrow> True"
| "equal_map ((k, v) # m) m' \<longleftrightarrow> (case map_get m' k of
     None \<Rightarrow> False | Some w \<Rightarrow> equalStateJSONValue v w) \<and> equal_map m m'"

definition equalStateData :: "bytes \<Rightarrow> bytes \<Rightarrow> go_error + bool" where
  "equalStateData left right =
     ebind (decodeStateData left) (\<lambda>leftValue.
     ebind (decodeStateData right) (\<lambda>rightValue.
     Inr (equalStateJSONValue leftValue rightValue)))"

section \<open>Merging\<close>

text \<open>The object, the result and the error that \<open>ApplyStateObject\<close> returns together.\<close>

definition ApplyStateObject ::
  "StateObject option \<Rightarrow> StateObject \<Rightarrow> Limits \<Rightarrow> StateObject \<times> StateApplyResult \<times> go_error option" where
  "ApplyStateObject current incoming limits =
     (case ValidateStateObject (Some incoming) limits of
        Some e \<Rightarrow> (zero_StateObject, StateApplyNone, Some e)
      | None \<Rightarrow>
        (case current of
           None \<Rightarrow> (cloneStateObject incoming, StateApplyApplied, None)
         | Some cur \<Rightarrow>
           (case ValidateStateObject (Some cur) limits of
              Some e \<Rightarrow> (zero_StateObject, StateApplyNone, Some e)
            | None \<Rightarrow>
              (let retained = cloneStateObject cur in
               if Identity cur \<noteq> Identity incoming then
                 (retained, StateApplyConflict, Some (Sentinel ErrStateIdentityMismatch))
               else if so_Version incoming > so_Version cur then
                 (cloneStateObject incoming, StateApplyApplied, None)
               else if so_Version incoming < so_Version cur then
                 (retained, StateApplyStale, Some (Sentinel ErrStateStale))
               else
                 (case equalStateData (so_Data cur) (so_Data incoming) of
                    Inl e \<Rightarrow> (retained, StateApplyConflict, Some e)
                  | Inr True \<Rightarrow> (retained, StateApplyDuplicate, None)
                  | Inr False \<Rightarrow> (retained, StateApplyConflict, Some (Sentinel ErrStateConflict)))))))"

definition StateApplyResult_String :: "StateApplyResult \<Rightarrow> string" where
  "StateApplyResult_String r = (case r of StateApplyApplied \<Rightarrow> ''APPLIED'' | StateApplyDuplicate \<Rightarrow> ''DUPLICATE''
     | StateApplyStale \<Rightarrow> ''STALE'' | StateApplyConflict \<Rightarrow> ''CONFLICT'' | StateApplyNone \<Rightarrow> ''UNKNOWN'')"

section \<open>Snapshots\<close>

record StateSnapshotLimits =
  sl_MaxObjects :: int
  sl_MaxBytes :: int

record stateSnapshotAccumulator =
  acc_protocolLimits :: Limits
  acc_snapshotLimits :: StateSnapshotLimits
  acc_states :: "StateObject list"
  acc_encodedBytes :: int

definition snapshot_base_bytes :: int where
  "snapshot_base_bytes = 13"

definition newStateSnapshotAccumulator ::
  "Limits \<Rightarrow> StateSnapshotLimits \<Rightarrow> go_error + stateSnapshotAccumulator" where
  "newStateSnapshotAccumulator protocolLimits snapshotLimits =
     (if sl_MaxObjects snapshotLimits \<le> 0 \<or> sl_MaxBytes snapshotLimits \<le> 0 then
        Inl (Sentinel ErrStateSnapshotLimitExceeded)
      else if snapshot_base_bytes > sl_MaxBytes snapshotLimits then Inl (Sentinel ErrStateSnapshotLimitExceeded)
      else Inr \<lparr>acc_protocolLimits = normalizeLimits protocolLimits, acc_snapshotLimits = snapshotLimits,
                acc_states = [], acc_encodedBytes = snapshot_base_bytes\<rparr>)"

definition accumulator_Add :: "stateSnapshotAccumulator \<Rightarrow> StateObject \<Rightarrow> go_error + stateSnapshotAccumulator" where
  "accumulator_Add a object =
     (if len (acc_states a) \<ge> sl_MaxObjects (acc_snapshotLimits a) then
        Inl (Sentinel ErrStateSnapshotLimitExceeded)
      else case ValidateStateObject (Some object) (acc_protocolLimits a) of Some e \<Rightarrow> Inl e | None \<Rightarrow>
      case json_Marshal (StateObject_json object) of
        None \<Rightarrow> Inl (bad_request (''state object cannot be encoded: '' @ json_error_text JSyntaxError))
      | Some encoded \<Rightarrow>
          (let additional = len encoded + (if acc_states a \<noteq> [] then 1 else 0) in
           if additional > sl_MaxBytes (acc_snapshotLimits a) - acc_encodedBytes a then
             Inl (Sentinel ErrStateSnapshotLimitExceeded)
           else Inr (a\<lparr>acc_encodedBytes := acc_encodedBytes a + additional,
                       acc_states := acc_states a @ [cloneStateObject object]\<rparr>)))"

definition accumulator_Payload :: "stateSnapshotAccumulator \<Rightarrow> go_error + bytes" where
  "accumulator_Payload a =
     (case json_Marshal (StateSnapshotPayload_json \<lparr>ss_States = acc_states a\<rparr>) of
        None \<Rightarrow> Inl (bad_request (''State snapshot cannot be encoded: '' @ json_error_text JSyntaxError))
      | Some payload \<Rightarrow>
          if len payload > sl_MaxBytes (acc_snapshotLimits a) then Inl (Sentinel ErrStateSnapshotLimitExceeded)
          else Inr payload)"

fun accumulate :: "stateSnapshotAccumulator \<Rightarrow> StateObject list \<Rightarrow> go_error + stateSnapshotAccumulator" where
  "accumulate a [] = Inr a"
| "accumulate a (x # xs) = ebind (accumulator_Add a x) (\<lambda>a'. accumulate a' xs)"

end
