(* ===== verification/State_Data.thy ===== *)
theory State_Data
  imports State_Object Complex_Main
begin

text \<open>
  What the comparison of State data means: number literals have rational values and one normal form
  per value, objects are maps from names to values, and \<open>equalStateData\<close> is equality of meanings.
\<close>

section \<open>The value of a number literal\<close>

definition exp_value :: "string \<Rightarrow> int" where
  "exp_value e = (if e = [] then 0 else the (big_SetString (tl e)))"

definition num_value :: "string \<Rightarrow> rat" where
  "num_value n =
     (let (sg, s1) = scan_minus n; (m, s2) = the (scan_mag s1); (f, s3) = the (scan_frac s2);
          (e, _) = the (scan_exp s3)
      in (if sg = [] then 1 else - 1) * of_int (digits_value 0 (m @ tl f)) * 10 powi (exp_value e - len (tl f)))"

lemma takeWhile_digits [simp]: "list_all is_digit (takeWhile is_digit s)"
  by (auto simp: list_all_iff dest: set_takeWhileD)

lemma is_digit_0 [simp]: "is_digit (CHR ''0'')"
  by (simp add: is_digit_def byte_in_def byte_def)

lemma scan_mag_digits: "scan_mag s = Some (m, r) \<Longrightarrow> m \<noteq> [] \<and> list_all is_digit m"
  by (auto simp: scan_mag_def split: list.splits if_splits)

lemma scan_frac_parts:
  "scan_frac s = Some (f, r) \<Longrightarrow> f = [] \<or> (\<exists>d. f = CHR ''.'' # d \<and> list_all is_digit d)"
  by (auto simp: scan_frac_def split: list.splits if_splits)

lemma digit_sign: "list_all is_digit d \<Longrightarrow> d \<noteq> [] \<Longrightarrow> hd d \<noteq> CHR ''+'' \<and> hd d \<noteq> CHR ''-''"
  by (cases d) (auto simp: is_digit_def byte_in_def byte_def)

lemma big_SetString_digits:
  assumes "list_all is_digit d" "d \<noteq> []"
  shows "big_SetString (fst (scan_sign s) @ d) \<noteq> None"
  using assms digit_sign [OF assms]
  by (auto simp: big_SetString_def scan_sign_def Let_def split: list.splits)

lemma scan_exp_parts:
  "scan_exp s = Some (e, r) \<Longrightarrow> e = [] \<or> (\<exists>c d. e = c # d \<and> is_exp_char c \<and> big_SetString d \<noteq> None)"
  using big_SetString_digits [OF takeWhile_digits]
  by (auto simp: scan_exp_def is_exp_char_def split: list.splits if_splits)

lemma digit_no_special: "is_digit c \<Longrightarrow> \<not> is_exp_char c \<and> c \<noteq> CHR ''.'' \<and> c \<noteq> CHR ''-''"
  by (auto simp: is_digit_def byte_in_def byte_def is_exp_char_def)

definition normal_form :: "bool \<Rightarrow> string \<Rightarrow> int \<Rightarrow> normalizedStateJSONNumber" where
  "normal_form neg ds ex =
     (let digits = dropWhile (\<lambda>c. c = CHR ''0'') ds; digits' = trim_right (CHR ''0'') digits in
      if digits = [] then \<lparr>nn_negative = False, nn_coefficient = ''0'', nn_exponent = ''0''\<rparr>
      else \<lparr>nn_negative = neg, nn_coefficient = digits', nn_exponent = itoa (ex + (len digits - len digits'))\<rparr>)"

lemma num_ok_parts:
  assumes "num_ok n"
  obtains sg m f e where "n = sg @ m @ f @ e" "scan_minus n = (sg, m @ f @ e)"
    "scan_mag (m @ f @ e) = Some (m, f @ e)" "scan_frac (f @ e) = Some (f, e)" "scan_exp e = Some (e, [])"
proof -
  from assms obtain m s1 f s2 e where p: "scan_mag (snd (scan_minus n)) = Some (m, s1)" "scan_frac s1 = Some (f, s2)"
      "scan_exp s2 = Some (e, [])" "n = fst (scan_minus n) @ m @ f @ e"
    by (auto simp: num_ok_def scan_num_def split: Option.bind_splits)
  have "s2 = e" using scan_exp_split [OF p(3)] by auto
  moreover have "s1 = f @ s2" using scan_frac_split [OF p(2)] by auto
  moreover have "snd (scan_minus n) = m @ s1" using scan_mag_split [OF p(1)] by auto
  ultimately show thesis using that [of "fst (scan_minus n)" m f e] p by (metis prod.collapse)
qed

lemma takeWhile_stop: "\<forall>x\<in>set a. P x \<Longrightarrow> b = [] \<or> \<not> P (hd b) \<Longrightarrow> takeWhile P (a @ b) = a \<and> dropWhile P (a @ b) = b"
  by (induction a) (cases b; auto)+

lemma normalize_parts:
  assumes n: "n = sg @ m @ f @ e" "scan_minus n = (sg, m @ f @ e)"
    and m: "m \<noteq> []" "list_all is_digit m"
    and f: "f = [] \<or> (\<exists>d. f = CHR ''.'' # d \<and> list_all is_digit d)"
    and e: "e = [] \<or> (\<exists>c d. e = c # d \<and> is_exp_char c \<and> big_SetString d \<noteq> None)"
  shows "normalizeStateJSONNumber n = Some (normal_form (sg \<noteq> []) (m @ tl f) (exp_value e - len (tl f)))"
proof -
  have neg: "(n \<noteq> [] \<and> hd n = CHR ''-'') = (sg \<noteq> [])" "(if sg \<noteq> [] then tl n else n) = m @ f @ e"
    using n m by (auto simp: scan_minus_def neq_Nil_conv split: list.splits if_splits)
  have mf: "\<forall>c\<in>set (m @ f). \<not> is_exp_char c"
  proof -
    have "\<not> is_exp_char (CHR ''.'')" by (simp add: is_exp_char_def)
    then show ?thesis using m(2) f by (auto simp: list_all_iff digit_no_special)
  qed
  have tw: "takeWhile (\<lambda>c. \<not> is_exp_char c) (m @ f @ e) = m @ f" "dropWhile (\<lambda>c. \<not> is_exp_char c) (m @ f @ e) = e"
    using takeWhile_stop [OF mf, of e] e by auto
  have ex: "list_ex is_exp_char (m @ f @ e) = (e \<noteq> [])"
    using mf e by (auto simp: list_ex_iff)
  have z: "big_SetString ''0'' = Some 0" by (simp add: big_SetString_def Let_def byte_def)
  have es: "big_SetString (if e \<noteq> [] then tl e else ''0'') = Some (exp_value e)"
    using e z by (auto simp: exp_value_def)
  have md: "\<forall>c\<in>set m. c \<noteq> CHR ''.''" using m(2) by (auto simp: list_all_iff digit_no_special)
  have dot: "CHR ''.'' \<in> set (m @ f) \<longleftrightarrow> f \<noteq> []"
  proof -
    have "CHR ''.'' \<notin> set m" using md by blast
    with f show ?thesis by (elim disjE exE conjE) simp_all
  qed
  have sp: "takeWhile (\<lambda>c. c \<noteq> CHR ''.'') (m @ f) = m" "dropWhile (\<lambda>c. c \<noteq> CHR ''.'') (m @ f) = f"
    using takeWhile_stop [OF md, of f] f by auto
  have t2: "(if f \<noteq> [] then m @ tl f else m @ f) = m @ tl f" "(if f \<noteq> [] then len (tl f) else 0) = len (tl f)"
    by auto
  show ?thesis
    unfolding normalizeStateJSONNumber_def normal_form_def Let_def neg tw ex es dot sp t2 option.case
    by (simp add: algebra_simps)
qed

section \<open>Digit strings\<close>

lemma digits_value_acc: "digits_value a s = a * 10 ^ length s + digits_value 0 s"
proof (induction s arbitrary: a)
  case (Cons c s)
  show ?case using Cons [of "10 * a + (byte c - 48)"] Cons [of "byte c - 48"] by (simp add: algebra_simps)
qed simp

lemma digits_value_nonneg: "list_all is_digit s \<Longrightarrow> 0 \<le> a \<Longrightarrow> 0 \<le> digits_value a s"
  by (induction s arbitrary: a) (auto simp: is_digit_def byte_in_def)

lemma digits_value_zeros: "digits_value 0 (dropWhile (\<lambda>c. c = CHR ''0'') s) = digits_value 0 s"
  by (induction s) (auto simp: byte_def)

lemma digits_value_replicate: "digits_value a (replicate k (CHR ''0'')) = a * 10 ^ k"
  by (induction k arbitrary: a) (auto simp: byte_def)

lemma utoa_digits_value:
  assumes "list_all is_digit s" "s \<noteq> []" "hd s \<noteq> CHR ''0''"
  shows "0 < digits_value 0 s \<and> utoa (digits_value 0 s) = s"
  using assms
proof (induction s rule: rev_induct)
  case (snoc c s)
  have c: "is_digit c" "0 \<le> byte c - 48" "byte c - 48 < 10"
    using snoc.prems by (auto simp: is_digit_def byte_in_def)
  show ?case
  proof (cases "s = []")
    case True
    then have "byte c \<noteq> 48" using snoc.prems(3) byte_eq_iff [of c "CHR ''0''"] by (simp add: byte_def)
    with True c show ?thesis by (simp add: utoa.simps)
  next
    case False
    then have IH: "0 < digits_value 0 s" "utoa (digits_value 0 s) = s" using snoc by auto
    have v: "digits_value 0 (s @ [c]) = 10 * digits_value 0 s + (byte c - 48)" by (simp add: digits_value_append)
    have "(10 * digits_value 0 s + (byte c - 48)) div 10 = digits_value 0 s"
      "(10 * digits_value 0 s + (byte c - 48)) mod 10 = byte c - 48"
      using c by auto
    then show ?thesis unfolding v using IH c by (subst utoa.simps) auto
  qed
qed simp

lemma takeWhile_same: "takeWhile (\<lambda>x. x = a) s = replicate (length (takeWhile (\<lambda>x. x = a) s)) a"
  by (induction s) auto

lemma trim_right_split: "\<exists>k. s = trim_right a s @ replicate k a"
proof
  have "rev s = replicate (length (takeWhile (\<lambda>x. x = a) (rev s))) a @ dropWhile (\<lambda>x. x = a) (rev s)"
    by (subst takeWhile_same [symmetric]) simp
  then have "rev (rev s) = rev (dropWhile (\<lambda>x. x = a) (rev s)) @ replicate (length (takeWhile (\<lambda>x. x = a) (rev s))) a"
    by (metis rev_append rev_replicate)
  then show "s = trim_right a s @ replicate (length (takeWhile (\<lambda>x. x = a) (rev s))) a"
    unfolding trim_right_def by simp
qed

lemma trim_right_last: "trim_right c s \<noteq> [] \<Longrightarrow> last (trim_right c s) \<noteq> c"
  unfolding trim_right_def by (metis (mono_tags, lifting) hd_dropWhile last_rev rev_is_Nil_conv)

lemma digits_value_mod: "s \<noteq> [] \<Longrightarrow> list_all is_digit s \<Longrightarrow> last s \<noteq> CHR ''0'' \<Longrightarrow> \<not> 10 dvd digits_value 0 s"
proof (induction s rule: rev_induct)
  case (snoc c s)
  have "byte c \<noteq> 48" using snoc.prems(3) byte_eq_iff [of c "CHR ''0''"] by (simp add: byte_def)
  moreover have "48 \<le> byte c" "byte c \<le> 57" using snoc.prems by (auto simp: is_digit_def byte_in_def)
  ultimately have "\<not> 10 dvd (byte c - 48)" using zdvd_not_zless [of "byte c - 48" 10] by auto
  then show ?case by (simp add: digits_value_append dvd_add_right_iff)
qed simp

section \<open>Canonical forms\<close>

definition form_value :: "bool \<Rightarrow> string \<Rightarrow> int \<Rightarrow> rat" where
  "form_value neg ds ex = (if neg then - 1 else 1) * of_int (digits_value 0 ds) * 10 powi ex"

text \<open>A nonzero literal is a signed coefficient that 10 does not divide, times a power of 10.\<close>

lemma normal_form_cases:
  assumes "list_all is_digit ds"
  obtains (zero) "digits_value 0 ds = 0"
      "normal_form neg ds ex = \<lparr>nn_negative = False, nn_coefficient = ''0'', nn_exponent = ''0''\<rparr>"
  | (nonzero) c x where "0 < c" "\<not> 10 dvd c"
      "normal_form neg ds ex = \<lparr>nn_negative = neg, nn_coefficient = utoa c, nn_exponent = itoa x\<rparr>"
      "form_value neg ds ex = (if neg then - 1 else 1) * of_int c * 10 powi x"
proof -
  let ?D = "dropWhile (\<lambda>c. c = CHR ''0'') ds" and ?T = "trim_right (CHR ''0'') (dropWhile (\<lambda>c. c = CHR ''0'') ds)"
  have dv: "digits_value 0 ?D = digits_value 0 ds" by (rule digits_value_zeros)
  show thesis
  proof (cases "?D = []")
    case True
    then have "digits_value 0 ds = 0" using dv unfolding True by simp
    moreover have "normal_form neg ds ex = \<lparr>nn_negative = False, nn_coefficient = ''0'', nn_exponent = ''0''\<rparr>"
      unfolding normal_form_def Let_def True by simp
    ultimately show thesis by (rule zero)
  next
    case False
    obtain k where k: "?D = ?T @ replicate k (CHR ''0'')" using trim_right_split by blast
    have hd0: "hd ?D \<noteq> CHR ''0''" using False by (rule hd_dropWhile)
    have T: "?T \<noteq> []"
    proof
      assume "?T = []"
      with k have "?D = replicate k (CHR ''0'')" by simp
      with False hd0 show False by (cases k) simp_all
    qed
    have Dd: "list_all is_digit ?D" using assms by (auto simp: list_all_iff dest: set_dropWhileD)
    then have dT: "list_all is_digit ?T" by (subst (asm) k) simp
    have "hd ?T = hd ?D" by (subst (2) k) (simp add: T)
    then have u: "0 < digits_value 0 ?T" "utoa (digits_value 0 ?T) = ?T"
      using utoa_digits_value [OF dT T] hd0 by auto
    have len: "len ?D - len ?T = int k" by (subst k) (simp add: len_def)
    have v: "digits_value 0 ds = digits_value 0 ?T * 10 ^ k"
      unfolding dv [symmetric] by (subst k) (simp add: digits_value_append digits_value_replicate)
    have "form_value neg ds ex = (if neg then - 1 else 1) * of_int (digits_value 0 ?T) * 10 powi (ex + int k)"
      by (simp add: form_value_def v power_int_add)
    moreover have "normal_form neg ds ex =
        \<lparr>nn_negative = neg, nn_coefficient = utoa (digits_value 0 ?T), nn_exponent = itoa (ex + int k)\<rparr>"
      unfolding normal_form_def Let_def u(2) len using False by (simp del: dropWhile_eq_Nil_conv)
    ultimately show thesis
      using nonzero u(1) digits_value_mod [OF T dT trim_right_last [OF T]] by blast
  qed
qed

lemma pow10_le:
  fixes c1 c2 :: int
  assumes "of_int c1 * (10::rat) powi x1 = of_int c2 * 10 powi x2" "x1 \<le> x2" "\<not> 10 dvd c1"
  shows "c1 = c2 \<and> x1 = x2"
proof -
  have "(10::rat) powi x2 = 10 powi x1 * 10 ^ nat (x2 - x1)"
    using assms(2) power_int_add [of "10::rat" x1 "x2 - x1"] by (simp add: power_int_def)
  then have "of_int c1 = (of_int (c2 * 10 ^ nat (x2 - x1)) :: rat)" using assms(1) by simp
  then have c: "c1 = c2 * 10 ^ nat (x2 - x1)" by (simp only: of_int_eq_iff)
  with assms(3) have "nat (x2 - x1) = 0" by (cases "nat (x2 - x1)") auto
  with c assms(2) show ?thesis by simp
qed

lemma pow10_unique:
  fixes c1 c2 :: int
  assumes "of_int c1 * (10::rat) powi x1 = of_int c2 * 10 powi x2" "\<not> 10 dvd c1" "\<not> 10 dvd c2"
  shows "c1 = c2 \<and> x1 = x2"
proof (cases "x1 \<le> x2")
  case True
  then show ?thesis using pow10_le [OF assms(1)] assms(2) by blast
next
  case False
  then show ?thesis using pow10_le [OF assms(1) [symmetric]] assms(3) by auto
qed

lemma utoa_inj: "0 \<le> a \<Longrightarrow> 0 \<le> b \<Longrightarrow> utoa a = utoa b \<Longrightarrow> a = b"
  by (metis utoa_value)

lemma itoa_inj:
  assumes "itoa a = itoa b"
  shows "a = b"
proof -
  have "utoa n = CHR ''-'' # r \<Longrightarrow> 0 \<le> n \<Longrightarrow> False" for n r using utoa_not_minus by blast
  moreover have "utoa n = utoa m \<Longrightarrow> 0 \<le> n \<Longrightarrow> 0 \<le> m \<Longrightarrow> n = m" for n m using utoa_inj by blast
  ultimately show ?thesis using assms unfolding itoa_def
    by (cases "a < 0"; cases "b < 0") (simp; metis neg_equal_iff_equal neg_0_le_iff_le less_imp_le linorder_not_less)+
qed

theorem number_canonical:
  assumes "list_all is_digit d1" "list_all is_digit d2"
  shows "normal_form n1 d1 x1 = normal_form n2 d2 x2 \<longleftrightarrow> form_value n1 d1 x1 = form_value n2 d2 x2"
proof -
  have pos: "0 < of_int c * (10::rat) powi x" if "0 < c" for c x using that by simp
  show ?thesis
  proof (cases rule: normal_form_cases [OF assms(1), of n1 x1, case_names zero nonzero])
    case z1: zero
    then have v1: "form_value n1 d1 x1 = 0" by (simp add: form_value_def)
    show ?thesis
    proof (cases rule: normal_form_cases [OF assms(2), of n2 x2, case_names zero nonzero])
      case zero
      then show ?thesis using z1 v1 by (simp add: form_value_def)
    next
      case (nonzero c x)
      have "utoa c \<noteq> ''0''" using nonzero(1) utoa_value [of c] by (auto simp: byte_def)
      then show ?thesis using nonzero v1 z1 by auto
    qed
  next
    case n1: (nonzero c1 y1)
    show ?thesis
    proof (cases rule: normal_form_cases [OF assms(2), of n2 x2, case_names zero nonzero])
      case zero
      have "utoa c1 \<noteq> ''0''" using n1(1) utoa_value [of c1] by (auto simp: byte_def)
      moreover have "form_value n2 d2 x2 = 0" using zero by (simp add: form_value_def)
      ultimately show ?thesis using n1 zero by auto
    next
      case n2: (nonzero c2 y2)
      have "form_value n1 d1 x1 = form_value n2 d2 x2 \<longleftrightarrow> n1 = n2 \<and> of_int c1 * (10::rat) powi y1 = of_int c2 * 10 powi y2"
        unfolding n1(4) n2(4) using pos [OF n1(1), of y1] pos [OF n2(1), of y2] by (cases n1; cases n2) auto
      also have "\<dots> \<longleftrightarrow> n1 = n2 \<and> c1 = c2 \<and> y1 = y2"
        using pow10_unique [OF _ n1(2) n2(2)] by blast
      also have "\<dots> \<longleftrightarrow> normal_form n1 d1 x1 = normal_form n2 d2 x2"
        unfolding n1(3) n2(3) using utoa_inj [of c1 c2] itoa_inj [of y1 y2] n1(1) n2(1) by auto
      finally show ?thesis ..
    qed
  qed
qed

lemma num_ok_normal:
  assumes "num_ok n"
  obtains neg ds ex where "normalizeStateJSONNumber n = Some (normal_form neg ds ex)"
    "num_value n = form_value neg ds ex" "list_all is_digit ds"
proof -
  obtain sg m f e where p: "n = sg @ m @ f @ e" "scan_minus n = (sg, m @ f @ e)"
      "scan_mag (m @ f @ e) = Some (m, f @ e)" "scan_frac (f @ e) = Some (f, e)" "scan_exp e = Some (e, [])"
    using num_ok_parts [OF assms] by blast
  note f = scan_frac_parts [OF p(4)] and m = scan_mag_digits [OF p(3)]
  show thesis
  proof (rule that)
    show "normalizeStateJSONNumber n = Some (normal_form (sg \<noteq> []) (m @ tl f) (exp_value e - len (tl f)))"
      using normalize_parts [OF p(1,2)] m f scan_exp_parts [OF p(5)] by blast
    show "num_value n = form_value (sg \<noteq> []) (m @ tl f) (exp_value e - len (tl f))"
      by (simp add: num_value_def form_value_def p(2-5))
    show "list_all is_digit (m @ tl f)" using m f by auto
  qed
qed

section \<open>The meaning of State data\<close>

datatype sem =
    SNull
  | SBool bool
  | SString string
  | SNumber rat
  | SArray "sem list"
  | SObject "string \<Rightarrow> sem option"

primrec sem_of :: "jany \<Rightarrow> sem" where
  "sem_of ANil = SNull"
| "sem_of (ABool b) = SBool b"
| "sem_of (AString s) = SString s"
| "sem_of (ANumber n) = SNumber (num_value n)"
| "sem_of (ASlice vs) = SArray (map sem_of vs)"
| "sem_of (AMap m) = SObject (map_of (map (map_prod id sem_of) m))"

primrec any_ok :: "jany \<Rightarrow> bool" where
  "any_ok ANil \<longleftrightarrow> True"
| "any_ok (ABool b) \<longleftrightarrow> True"
| "any_ok (AString s) \<longleftrightarrow> True"
| "any_ok (ANumber n) \<longleftrightarrow> num_ok n"
| "any_ok (ASlice vs) \<longleftrightarrow> list_all id (map any_ok vs)"
| "any_ok (AMap m) \<longleftrightarrow> distinct (map fst m) \<and> list_all (\<lambda>p. snd p) (map (map_prod id any_ok) m)"

lemma map_of_map_prod: "map_of (map (map_prod id f) m) k = map_option f (map_of m k)"
  by (induction m) auto

lemma equal_number:
  assumes "num_ok a" "num_ok b"
  shows "(normalizeStateJSONNumber a \<noteq> None \<and> normalizeStateJSONNumber a = normalizeStateJSONNumber b)
    \<longleftrightarrow> num_value a = num_value b"
proof -
  obtain n1 d1 x1 where a: "normalizeStateJSONNumber a = Some (normal_form n1 d1 x1)"
      "num_value a = form_value n1 d1 x1" "list_all is_digit d1"
    using num_ok_normal [OF assms(1)] by blast
  obtain n2 d2 x2 where b: "normalizeStateJSONNumber b = Some (normal_form n2 d2 x2)"
      "num_value b = form_value n2 d2 x2" "list_all is_digit d2"
    using num_ok_normal [OF assms(2)] by blast
  show ?thesis using number_canonical [OF a(3) b(3), of n1 x1 n2 x2] a(1,2) b(1,2) by simp
qed

lemma equal_map_sem:
  assumes "distinct (map fst m)" "distinct (map fst m')" "length m = length m'"
  shows "(\<forall>p\<in>set m. map_option sem_of (map_of m' (fst p)) = Some (sem_of (snd p)))
    \<longleftrightarrow> map_of (map (map_prod id sem_of) m) = map_of (map (map_prod id sem_of) m')" (is "?l \<longleftrightarrow> ?r")
proof
  assume l: ?l
  have dom: "fst ` set m = fst ` set m'"
  proof (rule card_subset_eq)
    show "fst ` set m \<subseteq> fst ` set m'"
    proof
      fix k assume "k \<in> fst ` set m"
      then obtain p where "p \<in> set m" "k = fst p" by auto
      then have "map_of m' k \<noteq> None" using l by auto
      then show "k \<in> fst ` set m'" by (simp add: map_of_eq_None_iff)
    qed
    show "card (fst ` set m) = card (fst ` set m')"
      using assms by (metis distinct_card length_map list.set_map)
  qed simp
  show ?r
  proof
    fix k
    show "map_of (map (map_prod id sem_of) m) k = map_of (map (map_prod id sem_of) m') k"
    proof (cases "map_of m k")
      case None
      then have "map_of m' k = None" using dom by (simp add: map_of_eq_None_iff)
      with None show ?thesis by (simp add: map_of_map_prod)
    next
      case (Some v)
      then have "(k, v) \<in> set m" by (rule map_of_SomeD)
      then show ?thesis using l Some by (force simp: map_of_map_prod)
    qed
  qed
next
  assume r: ?r
  show ?l
  proof
    fix p assume "p \<in> set m"
    then have "map_of m (fst p) = Some (snd p)" using assms(1) by simp
    then show "map_option sem_of (map_of m' (fst p)) = Some (sem_of (snd p))"
      using fun_cong [OF r, of "fst p"] by (simp add: map_of_map_prod)
  qed
qed

lemma map_of_eq_length:
  assumes "distinct (map fst m)" "distinct (map fst m')"
    and "map_of (map (map_prod id sem_of) m) = map_of (map (map_prod id sem_of) m')"
  shows "length m = length m'"
proof -
  have "fst ` set m = fst ` set m'"
  proof -
    have "dom (map_of m) = dom (map_of m')"
      using fun_cong [OF assms(3)] by (auto simp: map_of_map_prod dom_def) (metis map_option_is_None option.distinct(1) option.exhaust)+
    then show ?thesis by (simp add: dom_map_of_conv_image_fst)
  qed
  then show ?thesis using assms(1,2) by (metis distinct_card length_map list.set_map)
qed

lemma equal_sem:
  "any_ok a \<Longrightarrow> any_ok b \<Longrightarrow> equalStateJSONValue a b \<longleftrightarrow> sem_of a = sem_of b"
  "list_all any_ok vs \<Longrightarrow> list_all any_ok ws \<Longrightarrow>
     equal_slice vs ws \<longleftrightarrow> length vs \<le> length ws \<and> map sem_of vs = take (length vs) (map sem_of ws)"
  "list_all (\<lambda>p. any_ok (snd p)) m \<Longrightarrow> list_all (\<lambda>p. any_ok (snd p)) m' \<Longrightarrow>
     equal_map m m' \<longleftrightarrow> (\<forall>p\<in>set m. map_option sem_of (map_of m' (fst p)) = Some (sem_of (snd p)))"
proof (induction a b and vs ws and m m' rule: equalStateJSONValue_equal_slice_equal_map.induct)
  case (1 r)
  then show ?case by (cases r) auto
next
  case (2 b r)
  then show ?case by (cases r) auto
next
  case (3 s r)
  then show ?case by (cases r) auto
next
  case (4 n r)
  then show ?case by (cases r) (simp_all add: equal_number del: not_None_eq)
next
  case (5 vs r)
  show ?case
  proof (cases r)
    case (ASlice ws)
    with 5 have "equal_slice vs ws \<longleftrightarrow> length vs \<le> length ws \<and> map sem_of vs = take (length vs) (map sem_of ws)"
      by (auto simp: list.pred_map)
    then show ?thesis using ASlice map_eq_imp_length_eq [of sem_of vs sem_of ws] by auto
  qed simp_all
next
  case (6 m r)
  show ?case
  proof (cases r)
    case (AMap m')
    then have eq: "equal_map m m' \<longleftrightarrow> (\<forall>p\<in>set m. map_option sem_of (map_of m' (fst p)) = Some (sem_of (snd p)))"
      if "length m = length m'"
      using 6 that by (auto simp: list.pred_map comp_def)
    have ok: "distinct (map fst m)" "distinct (map fst m')" using 6 AMap by simp_all
    show ?thesis
      using AMap eq equal_map_sem [OF ok] map_of_eq_length [OF ok] by auto
  qed simp_all
next
  case (8 v vs ws)
  then show ?case by (cases ws) auto
next
  case (10 k v m m')
  show ?case
  proof (cases "map_of m' k")
    case None
    then show ?thesis by simp
  next
    case (Some w)
    then have "any_ok w" using 10 by (auto simp: list_all_iff dest!: map_of_SomeD)
    then show ?thesis using 10 Some by auto
  qed
qed auto


section \<open>Decoded data\<close>

lemma any_ok_map:
  "any_ok (AMap m) \<longleftrightarrow> distinct (map fst m) \<and> (\<forall>p\<in>set m. any_ok (snd p))"
  by (auto simp: list_all_iff)

lemma any_ok_put: "any_ok v \<Longrightarrow> any_ok (AMap m) \<Longrightarrow> any_ok (AMap (map_put k v m))"
proof -
  have "p \<in> set (map_put k v m) \<Longrightarrow> p = (k, v) \<or> p \<in> set m" for p
    by (induction m) (auto split: if_splits)
  then show "any_ok v \<Longrightarrow> any_ok (AMap m) \<Longrightarrow> any_ok (AMap (map_put k v m))"
    unfolding any_ok_map by (metis distinct_update snd_conv)
qed

lemma any_ok_json:
  "wf_json v d \<Longrightarrow> any_ok (json_any v)"
  "wf_elems es d \<Longrightarrow> list_all any_ok (elems_any es)"
  "wf_members ms d \<Longrightarrow> any_ok (AMap m) \<Longrightarrow> any_ok (AMap (members_any ms m))"
proof (induction v and es and ms arbitrary: d and d and d m)
  case (MCons a k b c v e ms)
  then show ?case using any_ok_put [of "json_any v" m "unquote k"] by (auto simp del: any_ok.simps(6))
next
  case (JObj w ms)
  have "any_ok (AMap [])" by simp
  then have "any_ok (AMap (members_any ms []))" using JObj by (auto simp del: any_ok.simps(6))
  then show ?case by simp
qed (auto simp: list.pred_map)

definition data_meaning :: "bytes \<Rightarrow> sem option" where
  "data_meaning b = map_option (\<lambda>v. sem_of (json_any v)) (parse_doc b)"

lemma decodeStateData_valid:
  "parse_doc b = Some v \<Longrightarrow> decodeStateData b = Inr (json_any v)"
  by (auto simp: parse_doc_def decodeStateData_def split: option.splits if_splits)

lemma equalStateData_meaning:
  assumes "json_Valid a" "json_Valid b"
  shows "equalStateData a b = Inr (data_meaning a = data_meaning b)"
proof -
  obtain v w where vw: "parse_doc a = Some v" "parse_doc b = Some w" using assms by (auto simp: json_Valid_def)
  then have "any_ok (json_any v)" "any_ok (json_any w)"
    using any_ok_json(1) by (blast elim: parse_doc_text)+
  then show ?thesis
    using vw by (simp add: equalStateData_def decodeStateData_valid equal_sem(1) data_meaning_def)
qed

section \<open>Properties\<close>

text \<open>
  C13: On valid JSON texts \<open>equalStateData\<close> never fails and decides whether the two texts denote the
  same value: member order, white space, string escapes and the spelling of numbers do not matter,
  and numbers of any size or exponent are compared exactly.
\<close>

theorem equalStateData_exact:
  assumes "json_Valid left" "json_Valid right"
  shows "equalStateData left right = Inr (data_meaning left = data_meaning right)"
  using assms by (rule equalStateData_meaning)

definition demo_left :: bytes where
  \<open>demo_left = ''{"a":10.0,"b":[null,-0]}''\<close>

definition demo_right :: bytes where
  \<open>demo_right = '' { "b":[null,0.0e7], "a":1E+1 }''\<close>

lemma demo_data: "json_Valid demo_left" "json_Valid demo_right" "equalStateData demo_left demo_right = Inr True"
  by code_simp+

theorem equalStateData_exact_witness:
  "equalStateData demo_left demo_right = Inr (data_meaning demo_left = data_meaning demo_right)
   \<and> data_meaning demo_left = data_meaning demo_right"
  using equalStateData_exact [OF demo_data(1,2)] demo_data(3) by simp

end
