(* ===== verification/State_Merge.thy ===== *)
theory State_Merge
  imports State_Data
begin

text \<open>
  The merge of State objects as a function of versions and meanings, its convergence, and the exact
  byte accounting of the snapshot accumulator.
\<close>

section \<open>Merging\<close>

definition state_ok :: "Limits \<Rightarrow> StateObject \<Rightarrow> bool" where
  "state_ok limits x \<longleftrightarrow> ValidateStateObject (Some x) limits = None"

lemma cloneStateObject_id [simp]: "cloneStateObject x = x"
  by (simp add: cloneStateObject_def)

lemma state_ok_data: "state_ok limits x \<Longrightarrow> json_Valid (so_Data x) \<and> so_Version x \<noteq> 0 \<and> so_Version x \<noteq> - 1"
  by (auto simp: state_ok_def ValidateStateObject_def Let_def split: option.splits if_splits)

lemma Apply_same_identity:
  assumes "state_ok limits cur" "state_ok limits inc" "Identity cur = Identity inc"
  shows "ApplyStateObject (Some cur) inc limits =
    (if so_Version cur < so_Version inc then (inc, StateApplyApplied, None)
     else if so_Version inc < so_Version cur then (cur, StateApplyStale, Some (Sentinel ErrStateStale))
     else if data_meaning (so_Data cur) = data_meaning (so_Data inc) then (cur, StateApplyDuplicate, None)
     else (cur, StateApplyConflict, Some (Sentinel ErrStateConflict)))"
  using assms equalStateData_meaning state_ok_data [OF assms(1)] state_ok_data [OF assms(2)]
  by (simp add: ApplyStateObject_def state_ok_def Let_def)

text \<open>A holder of State keeps what it has when the merge reports an error.\<close>

definition merge_state :: "Limits \<Rightarrow> StateObject \<Rightarrow> StateObject option \<Rightarrow> StateObject option" where
  "merge_state limits inc cur = (case ApplyStateObject cur inc limits of
     (x, _, None) \<Rightarrow> Some x | (_, _, Some e) \<Rightarrow> cur)"

lemma merge_state_Some:
  assumes "state_ok limits cur" "state_ok limits inc" "Identity cur = Identity inc"
  shows "merge_state limits inc (Some cur) = Some (if so_Version cur < so_Version inc then inc else cur)"
  by (simp add: merge_state_def Apply_same_identity [OF assms])

lemma merge_fold:
  assumes "\<forall>x\<in>set (c # xs). state_ok limits x \<and> Identity x = i"
  shows "\<exists>a\<in>set (c # xs). fold (merge_state limits) xs (Some c) = Some a \<and> (\<forall>x\<in>set (c # xs). so_Version x \<le> so_Version a)"
  using assms
proof (induction xs arbitrary: c)
  case (Cons x xs)
  let ?c = "if so_Version c < so_Version x then x else c"
  have "merge_state limits x (Some c) = Some ?c" using Cons.prems by (intro merge_state_Some) auto
  moreover obtain a where "a \<in> set (?c # xs)" "fold (merge_state limits) xs (Some ?c) = Some a"
      "\<forall>y\<in>set (?c # xs). so_Version y \<le> so_Version a"
    using Cons.IH [of ?c] Cons.prems by auto
  ultimately show ?case by (intro bexI [of _ a]) (auto split: if_splits)
qed simp

lemma merge_all:
  assumes "\<forall>x\<in>set xs. state_ok limits x \<and> Identity x = i" "xs \<noteq> []"
  shows "\<exists>a\<in>set xs. fold (merge_state limits) xs None = Some a \<and> (\<forall>x\<in>set xs. so_Version x \<le> so_Version a)"
proof -
  obtain c ys where xs: "xs = c # ys" using assms(2) by (cases xs) auto
  have "merge_state limits c None = Some c"
    using assms(1) xs by (simp add: merge_state_def ApplyStateObject_def state_ok_def)
  then show ?thesis using merge_fold [of c ys limits i] assms(1) xs by simp
qed

section \<open>Snapshots\<close>

lemma unparse_jarr: "unparse (jarr vs) = CHR ''['' # unparse_elems (mk_elems vs) @ '']''"
  by (simp add: jarr_def)

lemma unparse_jobj: "unparse (jobj ms) = CHR ''{'' # unparse_members (mk_members ms) @ ''}''"
  by (simp add: jobj_def)

lemma mk_elems_Nil [simp]: "mk_elems vs = ENil \<longleftrightarrow> vs = []"
  by (cases vs) auto

lemma len_elems_snoc:
  "len (unparse_elems (mk_elems (vs @ [v]))) =
     len (unparse_elems (mk_elems vs)) + len (unparse v) + (if vs = [] then 0 else 1)"
proof (induction vs)
  case (Cons w vs)
  then show ?case by (cases "mk_elems (vs @ [v])"; cases "mk_elems vs") auto
qed simp

lemma snapshot_len: "len (unparse (jobj [(''states'', jarr vs)])) = 13 + len (unparse_elems (mk_elems vs))"
  by (simp add: unparse_jobj unparse_jarr)

definition acc_ok :: "stateSnapshotAccumulator \<Rightarrow> bool" where
  "acc_ok a \<longleftrightarrow> list_all (state_ok (acc_protocolLimits a)) (acc_states a)
     \<and> len (acc_states a) \<le> sl_MaxObjects (acc_snapshotLimits a)
     \<and> acc_encodedBytes a \<le> sl_MaxBytes (acc_snapshotLimits a)
     \<and> (\<exists>vs. map StateObject_json (acc_states a) = map Some vs
          \<and> acc_encodedBytes a = len (unparse (jobj [(''states'', jarr vs)])))"

lemma those_Some: "those (map Some vs) = Some vs"
  by (induction vs) auto

lemma acc_ok_Payload:
  assumes "acc_ok a"
  shows "\<exists>p. accumulator_Payload a = Inr p \<and> len p = acc_encodedBytes a"
proof -
  obtain vs where vs: "map StateObject_json (acc_states a) = map Some vs"
      "acc_encodedBytes a = len (unparse (jobj [(''states'', jarr vs)]))"
      "acc_encodedBytes a \<le> sl_MaxBytes (acc_snapshotLimits a)"
    using assms by (auto simp: acc_ok_def)
  then show ?thesis
    by (simp add: accumulator_Payload_def StateSnapshotPayload_json_def json_Marshal_def those_Some)
qed

lemma acc_ok_new: "newStateSnapshotAccumulator limits sl = Inr a \<Longrightarrow> acc_ok a \<and> acc_states a = []
    \<and> acc_snapshotLimits a = sl \<and> acc_protocolLimits a = normalizeLimits limits"
  by (auto simp: newStateSnapshotAccumulator_def acc_ok_def snapshot_len snapshot_base_bytes_def split: if_splits)

lemma acc_ok_Add:
  assumes "acc_ok a" "accumulator_Add a x = Inr a'"
  shows "acc_ok a' \<and> acc_states a' = acc_states a @ [x] \<and> acc_snapshotLimits a' = acc_snapshotLimits a
    \<and> acc_protocolLimits a' = acc_protocolLimits a"
proof -
  obtain vs where vs: "map StateObject_json (acc_states a) = map Some vs"
      "acc_encodedBytes a = len (unparse (jobj [(''states'', jarr vs)]))"
    using assms(1) by (auto simp: acc_ok_def)
  from assms(2) obtain v where v: "StateObject_json x = Some v" "state_ok (acc_protocolLimits a) x"
      "len (acc_states a) < sl_MaxObjects (acc_snapshotLimits a)"
      "len (unparse v) + (if acc_states a \<noteq> [] then 1 else 0) \<le> sl_MaxBytes (acc_snapshotLimits a) - acc_encodedBytes a"
      "a' = a\<lparr>acc_encodedBytes := acc_encodedBytes a + (len (unparse v) + (if acc_states a \<noteq> [] then 1 else 0)),
              acc_states := acc_states a @ [x]\<rparr>"
    by (auto simp: accumulator_Add_def Let_def json_Marshal_def state_ok_def split: if_splits option.splits)
  have e: "vs = [] \<longleftrightarrow> acc_states a = []" using vs(1) by (metis Nil_is_map_conv)
  have "map StateObject_json (acc_states a') = map Some (vs @ [v])
      \<and> acc_encodedBytes a' = len (unparse (jobj [(''states'', jarr (vs @ [v]))]))"
    using v(1,5) vs e by (simp add: snapshot_len len_elems_snoc)
  then have "\<exists>ws. map StateObject_json (acc_states a') = map Some ws
      \<and> acc_encodedBytes a' = len (unparse (jobj [(''states'', jarr ws)]))" by blast
  moreover have "list_all (state_ok (acc_protocolLimits a')) (acc_states a')"
      "len (acc_states a') \<le> sl_MaxObjects (acc_snapshotLimits a')"
      "acc_encodedBytes a' \<le> sl_MaxBytes (acc_snapshotLimits a')"
    using assms(1) v(2-5) by (simp_all add: acc_ok_def)
  ultimately have "acc_ok a'" unfolding acc_ok_def by blast
  then show ?thesis using v(5) by simp
qed

lemma acc_ok_accumulate:
  "acc_ok a \<Longrightarrow> accumulate a xs = Inr a' \<Longrightarrow>
     acc_ok a' \<and> acc_states a' = acc_states a @ xs \<and> acc_snapshotLimits a' = acc_snapshotLimits a
     \<and> acc_protocolLimits a' = acc_protocolLimits a"
proof (induction xs arbitrary: a)
  case (Cons x xs)
  then obtain b where "accumulator_Add a x = Inr b" "accumulate b xs = Inr a'" by (auto simp: ebind_Inr)
  with acc_ok_Add [OF Cons.prems(1)] Cons.IH [of b] show ?case by auto
qed simp

section \<open>Properties\<close>

definition demo_state :: "uint64 \<Rightarrow> bytes \<Rightarrow> StateObject" where
  "demo_state v d = \<lparr>so_Namespace = ''doc'', so_ObjectID = ''x'', so_Version = v, so_Data = d\<rparr>"

lemma demo_state_valid:
  "ValidateStateObject (Some (demo_state 1 ''[1]'')) DefaultLimits = None"
  "ValidateStateObject (Some (demo_state 1 ''[1.0]'')) DefaultLimits = None"
  "ValidateStateObject (Some (demo_state 2 ''[2]'')) DefaultLimits = None"
  by code_simp+



text \<open>
  C15: A snapshot accumulated without error holds exactly the added objects, all valid, within the
  object limit; the byte count it keeps is the exact length of its encoded payload, so that encoding
  the payload succeeds and stays within the byte limit.
\<close>

theorem snapshot_accounting:
  assumes "newStateSnapshotAccumulator limits sl = Inr a0" "accumulate a0 xs = Inr a"
  shows "acc_states a = xs \<and> len xs \<le> sl_MaxObjects sl
    \<and> (\<forall>x\<in>set xs. ValidateStateObject (Some x) (normalizeLimits limits) = None)
    \<and> (\<exists>p. accumulator_Payload a = Inr p \<and> len p = acc_encodedBytes a \<and> len p \<le> sl_MaxBytes sl)"
proof -
  note new = acc_ok_new [OF assms(1)]
  with acc_ok_accumulate [of a0 xs a] assms(2) have a: "acc_ok a" "acc_states a = xs" "acc_snapshotLimits a = sl"
      "acc_protocolLimits a = normalizeLimits limits" by auto
  then show ?thesis using acc_ok_Payload [OF a(1)] by (auto simp: acc_ok_def list_all_iff state_ok_def)
qed

definition demo_snapshot_limits :: StateSnapshotLimits where
  "demo_snapshot_limits = \<lparr>sl_MaxObjects = 2, sl_MaxBytes = 200\<rparr>"

definition demo_accumulator :: "StateObject list \<Rightarrow> int \<Rightarrow> stateSnapshotAccumulator" where
  "demo_accumulator xs n = \<lparr>acc_protocolLimits = normalizeLimits DefaultLimits,
     acc_snapshotLimits = demo_snapshot_limits, acc_states = xs, acc_encodedBytes = n\<rparr>"

lemma demo_accumulated:
  "newStateSnapshotAccumulator DefaultLimits demo_snapshot_limits = Inr (demo_accumulator [] 13)"
  "accumulate (demo_accumulator [] 13) [demo_state 1 ''[1]''] = Inr (demo_accumulator [demo_state 1 ''[1]''] 71)"
  by code_simp+

theorem snapshot_accounting_witness:
  "acc_states (demo_accumulator [demo_state 1 ''[1]''] 71) = [demo_state 1 ''[1]'']
   \<and> ValidateStateObject (Some (demo_state 1 ''[1]'')) (normalizeLimits DefaultLimits) = None
   \<and> (\<exists>p. accumulator_Payload (demo_accumulator [demo_state 1 ''[1]''] 71) = Inr p
        \<and> len p = acc_encodedBytes (demo_accumulator [demo_state 1 ''[1]''] 71) \<and> len p \<le> sl_MaxBytes demo_snapshot_limits)"
  using snapshot_accounting [OF demo_accumulated] by auto

end
