(* ===== verification/Payload_Codec.thy ===== *)
theory Payload_Codec
  imports State_Merge
begin

text \<open>
  The payload half of \<open>json_codec.go\<close>: the strict walk that refuses duplicate members, the decoding
  of one JSON value into a payload struct with nothing after it, and the presence tests of
  \<open>validate.go\<close> that look at the raw payload.
\<close>

section \<open>Unicode white space\<close>

definition IsSpace :: "int \<Rightarrow> bool" where
  "IsSpace r \<longleftrightarrow> (9 \<le> r \<and> r \<le> 13) \<or> r = 32 \<or> r = 133 \<or> r = 160 \<or> r = 5760 \<or> (8192 \<le> r \<and> r \<le> 8202)
     \<or> r = 8232 \<or> r = 8233 \<or> r = 8239 \<or> r = 8287 \<or> r = 12288"

function trim_left_space :: "string \<Rightarrow> string" where
  "trim_left_space [] = []"
| "trim_left_space (c # s) = (case DecodeRune (c # s) of (r, n) \<Rightarrow>
     if IsSpace r then trim_left_space (drop n (c # s)) else c # s)"
  by pat_completeness auto
termination
proof (relation "measure length", goal_cases)
  case (2 c s r n)
  then have "n = snd (DecodeRune (c # s))" by (cases "DecodeRune (c # s)") simp
  then show ?case using DecodeRune_size [of "c # s"] by simp
qed simp

text \<open>\<open>bytes.Equal(bytes.TrimSpace(raw), "null")\<close>: white space around the four letters.\<close>

definition is_null_text :: "bytes \<Rightarrow> bool" where
  "is_null_text raw =
     (let s = trim_left_space raw in take 4 s = ''null'' \<and> trim_left_space (drop 4 s) = [])"

section \<open>Strict decoding\<close>

primrec walkStrictJSONValue :: "string list \<Rightarrow> json \<Rightarrow> json_error option"
  and walk_elems :: "string list \<Rightarrow> jelems \<Rightarrow> json_error option"
  and walk_members :: "string list \<Rightarrow> string list \<Rightarrow> jmembers \<Rightarrow> json_error option" where
  "walkStrictJSONValue opaque JNull = None"
| "walkStrictJSONValue opaque (JBool b) = None"
| "walkStrictJSONValue opaque (JNum n) = None"
| "walkStrictJSONValue opaque (JStr b) = None"
| "walkStrictJSONValue opaque (JArr w es) = walk_elems opaque es"
| "walkStrictJSONValue opaque (JObj w ms) = walk_members opaque [] ms"
| "walk_elems opaque ENil = None"
| "walk_elems opaque (ECons a v b es) = first_err (walkStrictJSONValue opaque v) (walk_elems opaque es)"
| "walk_members opaque seen MNil = None"
| "walk_members opaque seen (MCons a k b c v d ms) =
     (if unquote k \<in> set seen then Some (JDuplicate (unquote k))
      else if unquote k \<in> set opaque then walk_members opaque (unquote k # seen) ms
      else first_err (walkStrictJSONValue opaque v) (walk_members opaque (unquote k # seen) ms))"

definition ensureJSONEOF :: "bytes \<Rightarrow> go_error option" where
  "ensureJSONEOF rest =
     (if list_all is_ws rest then None
      else if decode_first rest \<noteq> None then Some (NewError ''multiple JSON values'')
      else Some (WrapError ''invalid trailing JSON'' (JsonError JSyntaxError)))"

definition eof_bad_request :: "bytes \<Rightarrow> go_error option" where
  "eof_bad_request rest = map_option (\<lambda>e. bad_request (error_text e)) (ensureJSONEOF rest)"

definition rejectDuplicateJSONFields :: "bytes \<Rightarrow> string list \<Rightarrow> go_error option" where
  "rejectDuplicateJSONFields raw opaque =
     (case decode_first raw of
        None \<Rightarrow> Some (bad_request (''invalid JSON object: '' @ json_error_text JSyntaxError))
      | Some (v, rest) \<Rightarrow>
          (case walkStrictJSONValue opaque v of
             Some e \<Rightarrow> Some (bad_request (''invalid JSON object: '' @ json_error_text e))
           | None \<Rightarrow> eof_bad_request rest))"

text \<open>One value decoded into a struct, then the end of the input: the core of \<open>Decode\<close> calls.\<close>

definition decode_one :: "string \<Rightarrow> 'a decoder \<Rightarrow> 'a \<Rightarrow> bytes \<Rightarrow> go_error + 'a" where
  "decode_one what dec zero raw =
     (case decode_first raw of
        None \<Rightarrow> Inl (bad_request (what @ json_error_text JSyntaxError))
      | Some (v, rest) \<Rightarrow>
          (case dec zero v of
             Inl e \<Rightarrow> Inl (bad_request (what @ json_error_text e))
           | Inr x \<Rightarrow> (case eof_bad_request rest of Some e \<Rightarrow> Inl e | None \<Rightarrow> Inr x)))"

definition decodePayload :: "bytes \<Rightarrow> (bool \<Rightarrow> 'a decoder) \<Rightarrow> 'a \<Rightarrow> bool \<Rightarrow> go_error + 'a" where
  "decodePayload raw dec zero strict =
     (if raw = [] \<or> is_null_text raw then Inl (bad_request ''missing payload'')
      else case (if strict then rejectDuplicateJSONFields raw [''content'', ''data''] else None) of
        Some e \<Rightarrow> Inl e
      | None \<Rightarrow> decode_one ''invalid payload: '' (dec strict) zero raw)"

section \<open>Presence of members\<close>

definition payload_fields :: "bytes \<Rightarrow> go_error + (string, bytes) gomap" where
  "payload_fields raw =
     (case parse_doc raw of
        None \<Rightarrow> Inl (bad_request (''invalid payload: '' @ json_error_text JSyntaxError))
      | Some v \<Rightarrow>
          (case v of
             JNull \<Rightarrow> Inr []
           | JObj w ms \<Rightarrow> Inr (fold (\<lambda>(k, x) m. map_put k (unparse x) m) (members_list ms) [])
           | _ \<Rightarrow> Inl (bad_request (''invalid payload: '' @ json_error_text JTypeError))))"

definition jsonFieldPresent :: "bytes \<Rightarrow> string \<Rightarrow> go_error + bool" where
  "jsonFieldPresent raw field = ebind (payload_fields raw) (\<lambda>fields. Inr (map_get fields field \<noteq> None))"

definition jsonFieldPresentAndNonNull :: "bytes \<Rightarrow> string \<Rightarrow> go_error + bool" where
  "jsonFieldPresentAndNonNull raw field = ebind (payload_fields raw) (\<lambda>fields.
     Inr (case map_get fields field of None \<Rightarrow> False | Some value \<Rightarrow> \<not> is_null_text value))"

section \<open>Encoding that must succeed\<close>

text \<open>\<open>mustPayload\<close> panics on a value that does not encode; \<open>None\<close> is the panic.\<close>

definition mustPayload :: "json option \<Rightarrow> bytes option" where
  "mustPayload v = json_Marshal v"

end
