(* ===== verification/Validate.thy ===== *)
theory Validate
  imports Payload_Codec
begin

text \<open>
  \<open>validate.go\<close>: the checks of an envelope and, per frame type, of its session, sequence, id and
  payload.  The branches of the one \<open>switch\<close> in \<open>ValidateFrame\<close> are one definition each.
\<close>

section \<open>Strings and envelopes\<close>

definition validBoundedProtocolString :: "string \<Rightarrow> int \<Rightarrow> bool \<Rightarrow> bool" where
  "validBoundedProtocolString value maxLength allowEmpty =
     (if (\<not> allowEmpty \<and> value = []) \<or> len value > maxLength \<or> \<not> ValidString value then False
      else \<not> list_ex IsControl (runes value))"

definition ValidateEnvelope :: "Envelope option \<Rightarrow> Limits \<Rightarrow> go_error option" where
  "ValidateEnvelope env limits0 =
     (let limits = normalizeLimits limits0 in
      case env of None \<Rightarrow> Some (bad_request ''nil envelope'') | Some e \<Rightarrow>
      (case validateLimits limits of
         Some err \<Rightarrow> Some (bad_request (''invalid protocol limits: '' @ error_text err))
       | None \<Rightarrow>
         if env_V e \<noteq> WireVersionV2 then
           Some (ProtocolError ErrorUnsupportedVersion (''unsupported wire version '' @ utoa (uint (env_V e))) '''' False True None)
         else if env_Type e = [] then Some (bad_request ''missing frame type'')
         else if \<not> validBoundedProtocolString (env_ID e) (MaxIDLength limits) True then
           Some (bad_request ''invalid or oversized frame id'')
         else if \<not> validBoundedProtocolString (env_SessionID e) (MaxSessionIDLength limits) True then
           Some (bad_request ''invalid or oversized session id'')
         else if len (env_Payload e) > MaxPayloadSize limits then
           Some (bad_request ''payload exceeds maximum size'')
         else (case json_Marshal (Envelope_json e) of
             None \<Rightarrow> Some (bad_request (''frame cannot be encoded: '' @ json_error_text JSyntaxError))
           | Some encoded \<Rightarrow>
               if len encoded > MaxFrameSize limits then Some (bad_request ''frame exceeds maximum size'')
               else None)))"

definition zeroSeq :: "Envelope \<Rightarrow> go_error option" where
  "zeroSeq e = (if env_Seq e \<noteq> 0 then Some (bad_request (env_Type e @ '' must not carry sequence'')) else None)"

definition need_session :: "Envelope \<Rightarrow> go_error option" where
  "need_session e = (if env_SessionID e = [] then Some (bad_request (env_Type e @ '' requires session_id'')) else None)"

definition noEnvelopeID :: "Envelope \<Rightarrow> go_error option" where
  "noEnvelopeID e = (if env_ID e \<noteq> [] then Some (bad_request (env_Type e @ '' must not carry envelope id'')) else None)"

definition requireEnvelopeID :: "Envelope \<Rightarrow> go_error option" where
  "requireEnvelopeID e = (if env_ID e = [] then Some (bad_request (env_Type e @ '' requires id'')) else None)"

definition validContent :: "bytes \<Rightarrow> go_error option" where
  "validContent raw =
     (if raw = [] \<or> is_null_text raw \<or> \<not> json_Valid raw
      then Some (bad_request ''content must contain one valid JSON value'') else None)"

fun check_namespaces :: "Limits \<Rightarrow> string option \<Rightarrow> string list \<Rightarrow> go_error option" where
  "check_namespaces limits previous [] = None"
| "check_namespaces limits previous (n # ns) =
     (case validateStateNamespace n (MaxStateNamespaceLength limits) of
        Some e \<Rightarrow> Some e
      | None \<Rightarrow>
        if (case previous of None \<Rightarrow> False | Some p \<Rightarrow> n \<le> p)
        then Some (bad_request ''state_sync namespaces must be unique and canonically ordered'')
        else check_namespaces limits (Some n) ns)"

definition validateResumeStateSync :: "ResumeStateSync option \<Rightarrow> Limits \<Rightarrow> go_error option" where
  "validateResumeStateSync sync limits0 =
     (let limits = normalizeLimits limits0 in
      case sync of
        None \<Rightarrow> Some (bad_request ''state_sync requires a bounded non-empty namespace list'')
      | Some s \<Rightarrow>
          if rs_Namespaces s = [] \<or> len (rs_Namespaces s) > MaxStateSyncNamespaces limits
          then Some (bad_request ''state_sync requires a bounded non-empty namespace list'')
          else check_namespaces limits None (rs_Namespaces s))"

definition knownErrorCode :: "string \<Rightarrow> bool" where
  "knownErrorCode code = snd (BehaviorForErrorCode code)"

section \<open>Frame types\<close>

definition validateHello :: "Envelope \<Rightarrow> Limits \<Rightarrow> bool \<Rightarrow> go_error option" where
  "validateHello e limits strict =
     (if env_SessionID e \<noteq> [] \<or> env_Seq e \<noteq> 0 then
        Some (bad_request ''HELLO must not carry session_id or sequence'')
      else echeck (decodePayload (env_Payload e) dec_HelloPayload zero_HelloPayload strict) (\<lambda>p.
        if \<not> validBoundedProtocolString (hp_ClientName p) (MaxClientNameLength limits) True then
          Some (bad_request ''HELLO carries an invalid or oversized client_name'')
        else echeck (validateAndCopyCapabilityOffers (hp_Capabilities p) limits) (\<lambda>_. None)))"

definition check_welcome ::
  "WelcomePayload \<Rightarrow> Limits \<Rightarrow> bool \<Rightarrow> bool \<Rightarrow> bool \<Rightarrow> bool \<Rightarrow> bool \<Rightarrow> go_error option" where
  "check_welcome p limits hasResumeFrom hasReplayTo hasAcceptedCapabilities hasStateSync hasNonNullStateSync =
     (if hasStateSync \<and> \<not> hasNonNullStateSync then
        Some (bad_request ''WELCOME state_sync must not be null'')
      else if wp_Mode p = WelcomeModeNew \<and> (hasResumeFrom \<or> hasReplayTo) then
        Some (bad_request ''NEW WELCOME must not carry replay bounds'')
      else if wp_Mode p = WelcomeModeNew \<and> hasStateSync then
        Some (bad_request ''NEW WELCOME must not carry state_sync'')
      else if wp_Mode p = WelcomeModeResumed \<and> hasAcceptedCapabilities then
        Some (bad_request ''RESUMED WELCOME must not renegotiate capabilities'')
      else if wp_Mode p = WelcomeModeResumed \<and> (\<not> hasResumeFrom \<or> \<not> hasReplayTo \<or> wp_ResumeFrom p = 0) then
        Some (bad_request ''RESUMED WELCOME requires explicit replay bounds'')
      else if wp_Mode p = WelcomeModeResumed \<and> wp_ReplayTo p < wp_ResumeFrom p - 1 then
        Some (bad_request ''invalid replay bounds'')
      else first_err
        (if wp_Mode p = WelcomeModeResumed \<and> wp_StateSync p \<noteq> None
         then validateResumeStateSync (wp_StateSync p) limits else None)
        (ValidateNegotiatedCapabilities (wp_AcceptedCapabilities p) limits))"

definition validateWelcome :: "Envelope \<Rightarrow> Limits \<Rightarrow> bool \<Rightarrow> go_error option" where
  "validateWelcome e limits strict =
     first_err (need_session e) (first_err (zeroSeq e) (first_err (noEnvelopeID e)
     (echeck (decodePayload (env_Payload e) dec_WelcomePayload zero_WelcomePayload strict) (\<lambda>p.
      if wp_Mode p \<noteq> WelcomeModeNew \<and> wp_Mode p \<noteq> WelcomeModeResumed then
        Some (bad_request ''invalid WELCOME mode'')
      else
        echeck (jsonFieldPresent (env_Payload e) ''resume_from'') (\<lambda>hasResumeFrom.
        echeck (jsonFieldPresent (env_Payload e) ''replay_to'') (\<lambda>hasReplayTo.
        echeck (jsonFieldPresent (env_Payload e) ''accepted_capabilities'') (\<lambda>hasAccepted.
        echeck (jsonFieldPresent (env_Payload e) ''state_sync'') (\<lambda>hasStateSync.
        echeck (jsonFieldPresentAndNonNull (env_Payload e) ''state_sync'') (\<lambda>hasNonNull.
        check_welcome p limits hasResumeFrom hasReplayTo hasAccepted hasStateSync hasNonNull)))))))))"

definition validatePing :: "Envelope \<Rightarrow> Limits \<Rightarrow> bool \<Rightarrow> go_error option" where
  "validatePing e limits strict =
     first_err (need_session e) (first_err (zeroSeq e) (first_err (noEnvelopeID e)
     (echeck (decodePayload (env_Payload e) dec_PingPayload zero_PingPayload strict) (\<lambda>p.
      if \<not> validBoundedProtocolString (pp_PingID p) (MaxIDLength limits) False
      then Some (bad_request ''PING requires a valid ping_id'') else None))))"

definition validatePong :: "Envelope \<Rightarrow> Limits \<Rightarrow> bool \<Rightarrow> go_error option" where
  "validatePong e limits strict =
     first_err (need_session e) (first_err (zeroSeq e) (first_err (noEnvelopeID e)
     (echeck (decodePayload (env_Payload e) dec_PongPayload zero_PongPayload strict) (\<lambda>p.
      if \<not> validBoundedProtocolString (po_PingID p) (MaxIDLength limits) False
      then Some (bad_request ''PONG requires a valid ping_id'') else None))))"

definition validateSend :: "Envelope \<Rightarrow> Limits \<Rightarrow> bool \<Rightarrow> go_error option" where
  "validateSend e limits strict =
     first_err (need_session e) (first_err (zeroSeq e)
     (if env_ID e = [] then Some (bad_request ''SEND requires id'')
      else echeck (decodePayload (env_Payload e) dec_SendPayload zero_SendPayload strict) (\<lambda>p.
        validContent (sp_Content p))))"

definition validateAck :: "Envelope \<Rightarrow> Limits \<Rightarrow> bool \<Rightarrow> go_error option" where
  "validateAck e limits strict =
     first_err (need_session e) (first_err (zeroSeq e) (first_err (noEnvelopeID e)
     (echeck (decodePayload (env_Payload e) dec_AckPayload zero_AckPayload strict) (\<lambda>p.
      if \<not> validBoundedProtocolString (ap_RefID p) (MaxIDLength limits) False
      then Some (bad_request ''ACK requires a valid ref_id'') else None))))"

definition validateEvent :: "Envelope \<Rightarrow> Limits \<Rightarrow> bool \<Rightarrow> go_error option" where
  "validateEvent e limits strict =
     first_err (need_session e)
     (if env_ID e = [] \<or> env_Seq e = 0 then Some (bad_request ''EVENT requires id and positive sequence'')
      else echeck (decodePayload (env_Payload e) dec_EventPayload zero_EventPayload strict) (\<lambda>p.
        if \<not> validBoundedProtocolString (ep_EventType p) (MaxEventTypeLength limits) True then
          Some (bad_request ''EVENT carries an invalid or oversized event_type'')
        else validContent (ep_Content p)))"

definition validateResume :: "Envelope \<Rightarrow> Limits \<Rightarrow> bool \<Rightarrow> go_error option" where
  "validateResume e limits strict =
     first_err (need_session e) (first_err (zeroSeq e) (first_err (noEnvelopeID e)
     (echeck (decodePayload (env_Payload e) dec_ResumePayload zero_ResumePayload strict) (\<lambda>p.
      echeck (jsonFieldPresent (env_Payload e) ''last_seq'') (\<lambda>hasLastSeq.
      if \<not> hasLastSeq then Some (bad_request ''RESUME requires explicit last_seq'')
      else echeck (jsonFieldPresent (env_Payload e) ''state_sync'') (\<lambda>hasStateSync.
        if hasStateSync \<and> rp_StateSync p = None then Some (bad_request ''RESUME state_sync must not be null'')
        else if rp_StateSync p \<noteq> None then validateResumeStateSync (rp_StateSync p) limits
        else None))))))"

fun check_query :: "string \<Rightarrow> Limits \<Rightarrow> string list \<Rightarrow> string list \<Rightarrow> go_error option" where
  "check_query namespace limits seen [] = None"
| "check_query namespace limits seen (i # is) =
     (case ValidateStateIdentity namespace i limits of
        Some e \<Rightarrow> Some e
      | None \<Rightarrow>
        if i \<in> set seen then Some (bad_request ''STATE_QUERY contains duplicate object_id'')
        else check_query namespace limits (i # seen) is)"

definition validateStateQuery :: "Envelope \<Rightarrow> Limits \<Rightarrow> bool \<Rightarrow> go_error option" where
  "validateStateQuery e limits strict =
     first_err (need_session e) (first_err (zeroSeq e) (first_err (requireEnvelopeID e)
     (echeck (decodePayload (env_Payload e) dec_StateQueryPayload zero_StateQueryPayload strict) (\<lambda>p.
      if sq_ObjectIDs p = [] \<or> len (sq_ObjectIDs p) > MaxStateQueryObjects limits then
        Some (bad_request ''STATE_QUERY requires a bounded non-empty object_ids list'')
      else check_query (sq_Namespace p) limits [] (sq_ObjectIDs p)))))"

fun check_states :: "Limits \<Rightarrow> StateIdentity list \<Rightarrow> StateObject list \<Rightarrow> go_error option" where
  "check_states limits seen [] = None"
| "check_states limits seen (x # xs) =
     (case ValidateStateObject (Some x) limits of
        Some e \<Rightarrow> Some e
      | None \<Rightarrow>
        if Identity x \<in> set seen
        then Some (bad_request ''STATE_SNAPSHOT contains duplicate object identity'')
        else check_states limits (Identity x # seen) xs)"

definition validateStateSnapshot :: "Envelope \<Rightarrow> Limits \<Rightarrow> bool \<Rightarrow> go_error option" where
  "validateStateSnapshot e limits strict =
     first_err (need_session e) (first_err (zeroSeq e) (first_err (requireEnvelopeID e)
     (if len (env_Payload e) > MaxStateSnapshotBytes limits then
        Some (bad_request ''STATE_SNAPSHOT exceeds byte limit'')
      else echeck (jsonFieldPresentAndNonNull (env_Payload e) ''states'') (\<lambda>hasStates.
        if \<not> hasStates then Some (bad_request ''STATE_SNAPSHOT requires states'')
        else echeck (decodePayload (env_Payload e) dec_StateSnapshotPayload zero_StateSnapshotPayload strict) (\<lambda>p.
          if len (ss_States p) > MaxStateSnapshotObjects limits then
            Some (bad_request ''STATE_SNAPSHOT exceeds object limit'')
          else check_states limits [] (ss_States p))))))"

definition validateStateUpdate :: "Envelope \<Rightarrow> Limits \<Rightarrow> bool \<Rightarrow> go_error option" where
  "validateStateUpdate e limits strict =
     first_err (need_session e) (first_err (zeroSeq e) (first_err (requireEnvelopeID e)
     (echeck (decodePayload (env_Payload e) dec_StateUpdatePayload zero_StateUpdatePayload strict) (\<lambda>p.
      ValidateStateObject (Some (su_State p)) limits))))"

definition validateError :: "Envelope \<Rightarrow> Limits \<Rightarrow> bool \<Rightarrow> go_error option" where
  "validateError e limits strict =
     first_err (zeroSeq e) (first_err (noEnvelopeID e)
     (echeck (decodePayload (env_Payload e) dec_ErrorPayload zero_ErrorPayload strict) (\<lambda>p.
      if er_Code p = [] \<or> len (er_Message p) > MaxErrorMessageLength limits then
        Some (bad_request ''ERROR requires code and bounded message'')
      else echeck (jsonFieldPresent (env_Payload e) ''retryable'') (\<lambda>hasRetryable.
        if \<not> hasRetryable then Some (bad_request ''ERROR requires explicit retryable'')
        else (case BehaviorForErrorCode (er_Code p) of (behavior, known) \<Rightarrow>
          if \<not> known then Some (bad_request ''unknown ERROR code'')
          else if eb_RetryabilityFixed behavior \<and> er_Retryable p \<noteq> eb_Retryable behavior then
            Some (bad_request ''ERROR retryable flag conflicts with code'')
          else if \<not> validBoundedProtocolString (er_RefID p) (MaxIDLength limits) True then
            Some (bad_request ''ERROR carries an invalid ref_id'')
          else None)))))"

section \<open>Frames\<close>

definition ValidateFrame :: "Envelope option \<Rightarrow> Limits \<Rightarrow> bool \<Rightarrow> go_error option" where
  "ValidateFrame env limits0 strict =
     (let limits = normalizeLimits limits0 in
      case ValidateEnvelope env limits of Some e \<Rightarrow> Some e | None \<Rightarrow>
      (case env of None \<Rightarrow> None | Some e \<Rightarrow>
        if env_Type e = FrameHello then validateHello e limits strict
        else if env_Type e = FrameWelcome then validateWelcome e limits strict
        else if env_Type e = FramePing then validatePing e limits strict
        else if env_Type e = FramePong then validatePong e limits strict
        else if env_Type e = FrameSend then validateSend e limits strict
        else if env_Type e = FrameAck then validateAck e limits strict
        else if env_Type e = FrameEvent then validateEvent e limits strict
        else if env_Type e = FrameResume then validateResume e limits strict
        else if env_Type e = FrameStateQuery then validateStateQuery e limits strict
        else if env_Type e = FrameStateSnapshot then validateStateSnapshot e limits strict
        else if env_Type e = FrameStateUpdate then validateStateUpdate e limits strict
        else if env_Type e = FrameError then validateError e limits strict
        else Some (bad_request ''unknown frame type'')))"

definition validateOutboundFrame :: "Envelope option \<Rightarrow> Limits \<Rightarrow> bool \<Rightarrow> go_error option" where
  "validateOutboundFrame e limits strict = ValidateFrame e (normalizeLimits limits) strict"

end
