(* ===== verification/Json_Codec.thy ===== *)
theory Json_Codec
  imports Validate
begin

text \<open>
  \<open>json_codec.go\<close>: the bounded JSON codec of envelopes.
\<close>

record JSONCodec =
  jc_Limits :: Limits
  jc_Strict :: bool

definition NewJSONCodec :: JSONCodec where
  "NewJSONCodec = \<lparr>jc_Limits = DefaultLimits, jc_Strict = True\<rparr>"

definition codec_limits :: "JSONCodec \<Rightarrow> Limits" where
  "codec_limits c = normalizeLimits (jc_Limits c)"

definition Encode :: "JSONCodec \<Rightarrow> Envelope option \<Rightarrow> go_error + bytes" where
  "Encode c frame =
     (if frame = None then Inl (bad_request ''nil frame'')
      else case validateOutboundFrame frame (codec_limits c) (jc_Strict c) of
        Some e \<Rightarrow> Inl e
      | None \<Rightarrow>
          (case json_Marshal (Envelope_json (the frame)) of
             None \<Rightarrow> Inl (WrapError ''encode frame'' (JsonError JSyntaxError))
           | Some b \<Rightarrow> Inr b))"

definition Decode :: "JSONCodec \<Rightarrow> bytes \<Rightarrow> go_error + Envelope" where
  "Decode c data =
     (if data = [] then Inl (bad_request ''empty frame'')
      else if len data > MaxFrameSize (codec_limits c) then Inl (bad_request ''frame exceeds maximum size'')
      else case (if jc_Strict c then rejectDuplicateJSONFields data [''payload''] else None) of
        Some e \<Rightarrow> Inl e
      | None \<Rightarrow>
          ebind (decode_one ''invalid envelope JSON: '' (dec_Envelope (jc_Strict c)) zero_envelope data) (\<lambda>frame.
          case ValidateFrame (Some frame) (codec_limits c) (jc_Strict c) of
            Some e \<Rightarrow> Inl e
          | None \<Rightarrow> Inr frame))"

end
