(* ===== verification/Go_Json_Quote.thy ===== *)
theory Go_Json_Quote
  imports Go_Json_Text
begin

text \<open>
  String literals: what \<open>json.Marshal\<close> writes for a Go string is a well-formed literal body, it
  contains nothing that HTML escaping would change, and decoding it gives the string back.
\<close>

section \<open>Literal bodies as sequences of units\<close>

definition unit_ok :: "string \<Rightarrow> bool" where
  "unit_ok u \<longleftrightarrow> scan_unit u = Some (u, [])"

lemma unit_ok_scan: "unit_ok u \<Longrightarrow> scan_unit (u @ t) = Some (u, t)"
  unfolding unit_ok_def by (rule scan_unit_split(4))

lemma scan_unit_ok: "scan_unit s = Some (u, t) \<Longrightarrow> unit_ok u"
  using scan_unit_split(4) [of s u t "[]"] by (simp add: unit_ok_def)

lemma str_ok_Nil [simp]: "str_ok []"
  by (simp add: str_ok_def)

lemma str_ok_unit: "unit_ok u \<Longrightarrow> str_ok b \<Longrightarrow> str_ok (u @ b)"
  using scan_str_unit [of "u @ b @ [CHR 0x22]" u "b @ [CHR 0x22]"] unit_ok_scan [of u]
  by (simp add: str_ok_def)

lemma str_ok_cases:
  assumes "str_ok b" "b \<noteq> []"
  obtains u b' where "b = u @ b'" "unit_ok u" "str_ok b'"
proof -
  have s: "scan_str (b @ [CHR 0x22]) = Some (b, [])" using assms(1) by (simp add: str_ok_def)
  obtain c b1 where b: "b = c # b1" using assms(2) by (cases b) auto
  have "c \<noteq> CHR 0x22" using s b by auto
  then obtain u t b' where u: "scan_unit (b @ [CHR 0x22]) = Some (u, t)" "scan_str t = Some (b', [])" "b = u @ b'"
    using s b by (subst (asm) scan_str.simps) (auto split: option.splits)
  have "t = b' @ [CHR 0x22]" using scan_str_split [OF u(2)] by simp
  then have "str_ok b'" using u(2) by (simp add: str_ok_def)
  with u(3) scan_unit_ok [OF u(1)] that show thesis by blast
qed

lemma unit_ok_cases:
  assumes "unit_ok u"
  obtains (esc) e where "is_escape e" "u = [CHR 0x5C, e]"
  | (hex) h where "list_all is_hex h" "length h = 4" "u = CHR 0x5C # CHR ''u'' # h"
  | (plain) c where "c \<noteq> CHR 0x5C" "c \<noteq> CHR 0x22" "32 \<le> byte c" "u = [c]"
  using assms unfolding unit_ok_def by (cases rule: scan_unit_cases) blast+

lemma unit_ok_intros:
  "is_escape e \<Longrightarrow> unit_ok [CHR 0x5C, e]"
  "list_all is_hex h \<Longrightarrow> length h = 4 \<Longrightarrow> unit_ok (CHR 0x5C # CHR ''u'' # h)"
  "c \<noteq> CHR 0x5C \<Longrightarrow> c \<noteq> CHR 0x22 \<Longrightarrow> 32 \<le> byte c \<Longrightarrow> unit_ok [c]"
  by (simp_all add: unit_ok_def scan_unit_def is_escape_def)

lemma str_ok_plain: "c \<noteq> CHR 0x5C \<Longrightarrow> c \<noteq> CHR 0x22 \<Longrightarrow> 32 \<le> byte c \<Longrightarrow> str_ok b \<Longrightarrow> str_ok (c # b)"
  using str_ok_unit [OF unit_ok_intros(3), of c b] by simp

lemma high_plain: "128 \<le> byte c \<Longrightarrow> c \<noteq> CHR 0x5C \<and> c \<noteq> CHR 0x22 \<and> 32 \<le> byte c"
  by (auto simp: byte_def)

lemma str_ok_high: "list_all (\<lambda>c. 128 \<le> byte c) t \<Longrightarrow> str_ok b \<Longrightarrow> str_ok (t @ b)"
  using high_plain by (induction t) (auto intro!: str_ok_plain)

lemma str_ok_tl:
  assumes "str_ok (c # b)" "c \<noteq> CHR 0x5C"
  shows "str_ok b"
proof -
  obtain u b' where u: "c # b = u @ b'" "unit_ok u" "str_ok b'" using assms(1) by (rule str_ok_cases) simp
  from u(2) show ?thesis by (cases rule: unit_ok_cases) (use u assms in auto)
qed

section \<open>Hexadecimal escapes\<close>

lemma hex_digit_val:
  assumes "0 \<le> n" "n < 16"
  shows "hex_val (hex_digit n) = Some n"
  using assms by (auto simp: hex_digit_def hex_val_def byte_in_def byte_chr)

lemma u_escape_ok:
  assumes "0 \<le> r" "r < 65536"
  shows "unit_ok (u_escape r)"
  using assms hex_digit_val unfolding u_escape_def by (intro unit_ok_intros) (auto simp: is_hex_def)

lemma hex4_digits:
  assumes "0 \<le> r" "r < 65536"
  shows "hex4 (hex_digit (r div 4096)) (hex_digit (r div 256 mod 16)) (hex_digit (r div 16 mod 16)) (hex_digit (r mod 16)) = r"
proof -
  have "r div 4096 < 16" "0 \<le> r div 4096" using assms by auto
  then have "hex4 (hex_digit (r div 4096)) (hex_digit (r div 256 mod 16)) (hex_digit (r div 16 mod 16)) (hex_digit (r mod 16))
      = ((r div 4096 * 16 + r div 256 mod 16) * 16 + r div 16 mod 16) * 16 + r mod 16"
    by (simp add: hex4_def hex_digit_val)
  also have "\<dots> = r"
  proof -
    have "r div 4096 = r div 256 div 16" "r div 256 = r div 16 div 16"
      using zdiv_zmult2_eq [of 16 r 256] zdiv_zmult2_eq [of 16 r 16] zdiv_zmult2_eq [of 16 r "16 * 16"]
        zdiv_zmult2_eq [of 16 "r" 16] zdiv_zmult2_eq [of 16 "r" "256"] by simp_all
    then show ?thesis by simp
  qed
  finally show ?thesis .
qed

lemma unquote_u:
  assumes "hex4 h1 h2 h3 h4 = r" "\<not> (55296 \<le> r \<and> r \<le> 57343)"
  shows "unquote (CHR 0x5C # CHR ''u'' # h1 # h2 # h3 # h4 # s) = EncodeRune r @ unquote s"
  using assms by (subst unquote.simps(2)) auto

lemma unquote_u_escape:
  assumes "0 \<le> r" "r < 55296 \<or> (57343 < r \<and> r < 65536)"
  shows "unquote (u_escape r @ s) = EncodeRune r @ unquote s"
proof -
  have "hex4 (hex_digit (r div 4096)) (hex_digit (r div 256 mod 16)) (hex_digit (r div 16 mod 16)) (hex_digit (r mod 16)) = r"
    using assms by (intro hex4_digits) auto
  from unquote_u [OF this, of s] assms(2) show ?thesis by (auto simp: u_escape_def)
qed

lemma unquote_escape:
  "e \<noteq> CHR ''u'' \<Longrightarrow> unquote (CHR 0x5C # e # s) = escape_char e # unquote s"
  by (subst unquote.simps(2)) simp

lemma unquote_rune:
  "c \<noteq> CHR 0x5C \<Longrightarrow> utf8_size (c # s) \<noteq> 0 \<Longrightarrow>
     unquote (c # s) = take (utf8_size (c # s)) (c # s) @ unquote (drop (utf8_size (c # s)) (c # s))"
  by (subst unquote.simps(2)) simp

lemma utf8_ascii: "byte c < 128 \<Longrightarrow> utf8_size (c # s) = 1"
  by (simp add: utf8_size.simps)

section \<open>Runes\<close>

lemma utf8_take:
  assumes "utf8_size s = n" "0 < n"
  shows "utf8_size (take n s @ r) = n"
proof (cases s)
  case (Cons c t)
  consider "byte c < 128" | "byte_in 194 223 c" | "byte_in 224 239 c" | "byte_in 240 244 c"
    using assms Cons by (auto simp: utf8_size.simps split: if_splits)
  then show ?thesis
  proof cases
    case 1
    then show ?thesis using assms Cons by (auto simp: utf8_ascii)
  next
    case 2
    then show ?thesis using assms Cons by (cases t) (auto simp: utf8_size.simps byte_in_def split: if_splits)
  next
    case 3
    then have "\<not> byte c < 128" "\<not> byte_in 194 223 c" by (auto simp: byte_in_def)
    with 3 show ?thesis using assms Cons
      by (cases t; cases "tl t") (auto simp: utf8_size.simps split: if_splits)
  next
    case 4
    then have "\<not> byte c < 128" "\<not> byte_in 194 223 c" "\<not> byte_in 224 239 c" by (auto simp: byte_in_def)
    with 4 show ?thesis using assms Cons
      by (cases t; cases "tl t"; cases "tl (tl t)") (auto simp: utf8_size.simps split: if_splits)
  qed
qed (use assms in auto)

lemma utf8_multi:
  assumes "128 \<le> byte c" "utf8_size (c # s) \<noteq> 0"
  shows "list_all (byte_in 128 191) (take (utf8_size (c # s) - 1) s)" "1 < utf8_size (c # s)"
    "c = CHR 0xE2 \<Longrightarrow> utf8_size (c # s) = 3"
proof -
  consider "byte_in 194 223 c" | "byte_in 224 239 c" | "byte_in 240 244 c"
    using assms by (auto simp: utf8_size.simps split: if_splits)
  then have "list_all (byte_in 128 191) (take (utf8_size (c # s) - 1) s) \<and> 1 < utf8_size (c # s)
    \<and> (c = CHR 0xE2 \<longrightarrow> utf8_size (c # s) = 3)"
  proof cases
    case 1
    then have "\<not> byte c < 128" "c \<noteq> CHR 0xE2" by (auto simp: byte_in_def byte_def)
    with 1 show ?thesis using assms by (cases s) (auto simp: utf8_size.simps split: if_splits)
  next
    case 2
    then have n: "\<not> byte c < 128" "\<not> byte_in 194 223 c" by (auto simp: byte_in_def)
    obtain b1 b2 s' where b: "s = b1 # b2 # s'" "byte_in 128 191 b2" "utf8_size (c # s) = 3"
        "byte_in (if byte c = 224 then 160 else 128) (if byte c = 237 then 159 else 191) b1"
      using assms(2) 2 n by (cases s; cases "tl s") (auto simp: utf8_size.simps split: if_splits)
    have "byte_in 128 191 b1" using b(4) by (auto simp: byte_in_def split: if_splits)
    then show ?thesis using b(1-3) by auto
  next
    case 3
    then have n: "\<not> byte c < 128" "\<not> byte_in 194 223 c" "\<not> byte_in 224 239 c" "c \<noteq> CHR 0xE2"
      by (auto simp: byte_in_def byte_def)
    obtain b1 b2 b3 s' where b: "s = b1 # b2 # b3 # s'" "byte_in 128 191 b2" "byte_in 128 191 b3" "utf8_size (c # s) = 4"
        "byte_in (if byte c = 240 then 144 else 128) (if byte c = 244 then 143 else 191) b1"
      using assms(2) 3 n by (cases s; cases "tl s"; cases "tl (tl s)") (auto simp: utf8_size.simps split: if_splits)
    have "byte_in 128 191 b1" using b(5) by (auto simp: byte_in_def split: if_splits)
    then show ?thesis using b(1-4) n by simp
  qed
  then show "list_all (byte_in 128 191) (take (utf8_size (c # s) - 1) s)" "1 < utf8_size (c # s)"
    "c = CHR 0xE2 \<Longrightarrow> utf8_size (c # s) = 3" by blast+
qed

lemma escape_byte_cases:
  obtains (esc) e where "escape_byte c = [CHR 0x5C, e]" "is_escape e" "e \<noteq> CHR ''u''" "escape_char e = c"
  | (hex) "escape_byte c = u_escape (byte c)" "byte c < 128"
  | (plain) "escape_byte c = [c]" "c \<noteq> CHR 0x5C" "c \<noteq> CHR 0x22" "32 \<le> byte c" "c \<noteq> CHR ''<''" "c \<noteq> CHR ''>''" "c \<noteq> CHR ''&''"
proof -
  let ?e = "if c = CHR 0x08 then CHR ''b'' else if c = CHR 0x0C then CHR ''f'' else if c = CHR 0x0A then CHR ''n''
    else if c = CHR 0x0D then CHR ''r'' else if c = CHR 0x09 then CHR ''t'' else c"
  let ?S = "{CHR 0x5C, CHR 0x22, CHR 0x08, CHR 0x0C, CHR 0x0A, CHR 0x0D, CHR 0x09}"
  show thesis
  proof (cases "c \<in> ?S")
    case True
    show thesis
    proof (rule esc)
      show "escape_byte c = [CHR 0x5C, ?e]" "is_escape ?e" "?e \<noteq> CHR ''u''" "escape_char ?e = c"
        using True by (auto simp: escape_byte_def is_escape_def escape_char_def)
    qed
  next
    case h: False
    show thesis
    proof (cases "byte c < 32 \<or> c = CHR ''<'' \<or> c = CHR ''>'' \<or> c = CHR ''&''")
      case True
      show thesis
      proof (rule hex)
        show "escape_byte c = u_escape (byte c)" using True h by (simp add: escape_byte_def)
        show "byte c < 128" using True by (auto simp: byte_def)
      qed
    next
      case False
      then show thesis using h by (intro plain) (simp_all add: escape_byte_def)
    qed
  qed
qed

lemma escape_byte_ok: "unit_ok (escape_byte c)"
  using byte_range(1) [of c] by (cases rule: escape_byte_cases [of c]) (simp_all add: unit_ok_intros u_escape_ok)

lemma take_Cons_pos: "0 < n \<Longrightarrow> take n (c # s) = c # take (n - 1) s"
  by (cases n) auto

lemma quote_body_ok: "str_ok (quote_body s)"
proof (induction s rule: quote_body.induct)
  case (2 c s)
  let ?n = "utf8_size (c # s)"
  show ?case
  proof (cases "byte c < 128")
    case True
    then show ?thesis using 2 by (simp add: quote_body.simps(2) str_ok_unit escape_byte_ok)
  next
    case F: False
    show ?thesis
    proof (cases "?n = 0")
      case True
      then show ?thesis using 2 F by (simp add: quote_body.simps(2) str_ok_unit u_escape_ok rune_error_def)
    next
      case False
      have IH: "str_ok (quote_body (drop ?n (c # s)))" using 2(3) F False by simp
      have "list_all (\<lambda>c. 128 \<le> byte c) (take ?n (c # s))"
        using utf8_multi [of c s] F False by (auto simp: take_Cons_pos list_all_iff byte_in_def)
      then have "str_ok (take ?n (c # s) @ quote_body (drop ?n (c # s)))" using IH by (rule str_ok_high)
      moreover have "unit_ok (u_escape 8232)" "unit_ok (u_escape 8233)" by (simp_all add: u_escape_ok)
      ultimately show ?thesis using F False IH str_ok_unit by (simp add: quote_body.simps(2) Let_def)
    qed
  qed
qed simp

section \<open>Decoding what was quoted\<close>

lemma unquote_escape_byte: "byte c < 128 \<Longrightarrow> unquote (escape_byte c @ r) = c # unquote r"
proof (cases rule: escape_byte_cases [of c])
  case (esc e)
  then show ?thesis by (simp add: unquote_escape)
next
  case hex
  then show ?thesis using byte_range(1) [of c] by (simp add: unquote_u_escape EncodeRune_def)
next
  case plain
  assume "byte c < 128"
  with plain show ?thesis using unquote_rune [of c r] by (simp add: utf8_ascii)
qed

lemma EncodeRune_separators:
  "EncodeRune 8232 = [CHR 0xE2, CHR 0x80, CHR 0xA8]" "EncodeRune 8233 = [CHR 0xE2, CHR 0x80, CHR 0xA9]"
  by code_simp+

lemma unquote_rune_append:
  assumes "utf8_size t = length t" "t \<noteq> []" "hd t \<noteq> CHR 0x5C"
  shows "unquote (t @ q) = t @ unquote q"
proof -
  obtain c t' where t: "t = c # t'" using assms(2) by (cases t) auto
  have n: "utf8_size (t @ q) = length t" using utf8_take [OF assms(1), of q] assms(2) by simp
  have "unquote (t @ q) = take (utf8_size (t @ q)) (t @ q) @ unquote (drop (utf8_size (t @ q)) (t @ q))"
    using unquote_rune [of c "t' @ q"] assms n t by auto
  then show ?thesis unfolding n by simp
qed

lemma unquote_quote_body: "ValidString s \<Longrightarrow> unquote (quote_body s) = s"
proof (induction s rule: quote_body.induct)
  case (2 c s)
  let ?n = "utf8_size (c # s)"
  have n: "?n \<noteq> 0" "ValidString (drop ?n (c # s))" using "2.prems" by (auto split: if_splits)
  show ?case
  proof (cases "byte c < 128")
    case True
    with n 2(1) show ?thesis by (simp add: quote_body.simps(2) unquote_escape_byte utf8_ascii)
  next
    case F: False
    let ?t = "take ?n (c # s)" and ?q = "quote_body (drop ?n (c # s))"
    have IH: "unquote ?q = drop ?n (c # s)" using 2(3) F n by simp
    have l: "length ?t = ?n" using utf8_size_bound [of "c # s"] by simp
    moreover have "utf8_size ?t = ?n" using utf8_take [of "c # s" ?n "[]"] n by simp
    moreover have "hd ?t \<noteq> CHR 0x5C" using F n by (auto simp: byte_def take_Cons_pos)
    ultimately have "unquote (?t @ ?q) = ?t @ unquote ?q" using n by (intro unquote_rune_append) auto
    then have multi: "unquote (?t @ ?q) = c # s" using IH append_take_drop_id [of ?n "c # s"] by simp
    have "unquote (u_escape 8232 @ ?q) = c # s" if "?t = [CHR 0xE2, CHR 0x80, CHR 0xA8]"
      using IH append_take_drop_id [of ?n "c # s"] unfolding that by (simp add: unquote_u_escape EncodeRune_separators)
    moreover have "unquote (u_escape 8233 @ ?q) = c # s" if "?t = [CHR 0xE2, CHR 0x80, CHR 0xA9]"
      using IH append_take_drop_id [of ?n "c # s"] unfolding that by (simp add: unquote_u_escape EncodeRune_separators)
    ultimately show ?thesis using multi F n(1) by (simp add: quote_body.simps(2) Let_def)
  qed
qed simp

section \<open>HTML escaping\<close>

definition html_special :: "char \<Rightarrow> bool" where
  "html_special c \<longleftrightarrow> c = CHR ''<'' \<or> c = CHR ''>'' \<or> c = CHR ''&''"

lemma html_escape_plain: "\<not> html_special c \<Longrightarrow> c \<noteq> CHR 0xE2 \<Longrightarrow> html_escape (c # s) = c # html_escape s"
  by (auto simp: html_escape.simps html_special_def split: list.splits)

lemma html_escape_special: "html_special c \<Longrightarrow> html_escape (c # s) = u_escape (byte c) @ html_escape s"
  by (auto simp: html_escape.simps html_special_def split: list.splits)

lemma html_escape_plains:
  "\<forall>c\<in>set t. \<not> html_special c \<and> c \<noteq> CHR 0xE2 \<Longrightarrow> html_escape (t @ s) = t @ html_escape s"
  by (induction t) (auto simp: html_escape_plain)

lemma html_escape_E2:
  "\<not> (\<exists>s2. s = CHR 0x80 # CHR 0xA8 # s2 \<or> s = CHR 0x80 # CHR 0xA9 # s2) \<Longrightarrow>
     html_escape (CHR 0xE2 # s) = CHR 0xE2 # html_escape s"
  "html_escape (CHR 0xE2 # CHR 0x80 # CHR 0xA8 # s2) = u_escape 8232 @ html_escape s2"
  "html_escape (CHR 0xE2 # CHR 0x80 # CHR 0xA9 # s2) = u_escape 8233 @ html_escape s2"
  by (auto simp: html_escape.simps html_special_def split: list.splits)

lemma hex_not_special: "is_hex c \<Longrightarrow> \<not> html_special c \<and> c \<noteq> CHR 0xE2"
  by (auto simp: is_hex_def hex_val_def html_special_def byte_in_def byte_def split: if_splits)

lemma unit_not_special:
  assumes "unit_ok u" "hd u = CHR 0x5C"
  shows "\<forall>c\<in>set u. \<not> html_special c \<and> c \<noteq> CHR 0xE2"
  using assms(1)
proof (cases rule: unit_ok_cases)
  case (hex h)
  then show ?thesis using hex_not_special by (auto simp: list_all_iff html_special_def)
qed (use assms(2) in \<open>auto simp: is_escape_def html_special_def\<close>)

lemma html_escape_ok: "str_ok b \<Longrightarrow> str_ok (html_escape b)"
proof (induction b rule: length_induct)
  case (1 b)
  show ?case
  proof (cases "b = []")
    case False
    then obtain u b' where u: "b = u @ b'" "unit_ok u" "str_ok b'" using str_ok_cases "1.prems" by blast
    have ne: "u \<noteq> []" using u(2) by (auto simp: unit_ok_def scan_unit_def)
    then have IH: "str_ok (html_escape b')" using 1 u by simp
    show ?thesis
    proof (cases "hd u = CHR 0x5C")
      case True
      then show ?thesis using html_escape_plains [OF unit_not_special [OF u(2)]] u IH by (simp add: str_ok_unit)
    next
      case False
      with u(2) obtain c where c: "u = [c]" "c \<noteq> CHR 0x5C" "c \<noteq> CHR 0x22" "32 \<le> byte c"
        by (cases rule: unit_ok_cases) auto
      consider "html_special c" | "\<not> html_special c" "c \<noteq> CHR 0xE2"
        | s2 where "c = CHR 0xE2" "b' = CHR 0x80 # CHR 0xA8 # s2 \<or> b' = CHR 0x80 # CHR 0xA9 # s2"
        | "c = CHR 0xE2" "\<not> (\<exists>s2. b' = CHR 0x80 # CHR 0xA8 # s2 \<or> b' = CHR 0x80 # CHR 0xA9 # s2)"
        by blast
      then show ?thesis
      proof cases
        case 1
        then have "unit_ok (u_escape (byte c))" by (intro u_escape_ok) (auto simp: html_special_def byte_def)
        then show ?thesis using 1 u c IH by (simp add: html_escape_special str_ok_unit)
      next
        case 2
        then show ?thesis using u c IH by (simp add: html_escape_plain str_ok_plain)
      next
        case (3 s2)
        then obtain d where d: "b' = CHR 0x80 # d # s2" "d = CHR 0xA8 \<or> d = CHR 0xA9" by blast
        have "str_ok (d # s2)" using u(3) unfolding d(1) by (rule str_ok_tl) simp
        then have "str_ok s2" using d(2) by (auto dest: str_ok_tl)
        then have "str_ok (html_escape s2)" using "1.IH" u(1) c(1) d(1) by simp
        moreover have "unit_ok (u_escape 8232)" "unit_ok (u_escape 8233)" by (simp_all add: u_escape_ok)
        ultimately have "str_ok (u_escape 8232 @ html_escape s2)" "str_ok (u_escape 8233 @ html_escape s2)"
          by (simp_all add: str_ok_unit)
        then show ?thesis unfolding u(1) c(1) d(1) 3(1) using d(2) by (auto simp: html_escape_E2)
      next
        case 4
        then show ?thesis using u c IH by (simp add: html_escape_E2 str_ok_plain)
      qed
    qed
  qed simp
qed

lemma html_escape_unit: "unit_ok u \<Longrightarrow> hd u = CHR 0x5C \<Longrightarrow> html_escape (u @ s) = u @ html_escape s"
  using html_escape_plains [OF unit_not_special] by blast

lemma u_escape_hd: "hd (u_escape r) = CHR 0x5C" "u_escape r @ s = CHR 0x5C # tl (u_escape r) @ s"
  by (simp_all add: u_escape_def)

lemma html_escape_head:
  assumes "html_escape s = d # x" "d \<noteq> CHR 0x5C" "d \<noteq> CHR 0xE2"
  shows "\<exists>s'. s = d # s' \<and> x = html_escape s'"
proof (cases s)
  case (Cons c t)
  consider "html_special c" | "\<not> html_special c" "c \<noteq> CHR 0xE2" | "c = CHR 0xE2" by blast
  then show ?thesis
  proof cases
    case 3
    then have "hd (html_escape s) \<in> {CHR 0x5C, CHR 0xE2}"
      unfolding Cons by (auto simp: html_escape.simps u_escape_def html_special_def split: list.splits)
    then show ?thesis using assms by auto
  qed (use assms Cons in \<open>auto simp: html_escape_special html_escape_plain u_escape_hd\<close>)
qed (use assms in auto)

lemma html_escape_idem: "html_escape (html_escape b) = html_escape b"
proof (induction b rule: length_induct)
  case (1 b)
  show ?case
  proof (cases b)
    case (Cons c s)
    have IH: "html_escape (html_escape s) = html_escape s" using 1 Cons by simp
    have esc: "html_escape (u_escape r @ html_escape t) = u_escape r @ html_escape (html_escape t)" if "0 \<le> r" "r < 65536" for r t
      using u_escape_ok [OF that] u_escape_hd(1) by (rule html_escape_unit)
    consider "html_special c" | "\<not> html_special c" "c \<noteq> CHR 0xE2"
      | d s2 where "c = CHR 0xE2" "s = CHR 0x80 # d # s2" "d = CHR 0xA8 \<or> d = CHR 0xA9"
      | "c = CHR 0xE2" "\<not> (\<exists>s2. s = CHR 0x80 # CHR 0xA8 # s2 \<or> s = CHR 0x80 # CHR 0xA9 # s2)"
      by blast
    then show ?thesis
    proof cases
      case 1
      then have "byte c < 65536" by (auto simp: html_special_def byte_def)
      then show ?thesis using 1 Cons IH byte_range(1) [of c] by (simp add: html_escape_special esc)
    next
      case 2
      then show ?thesis using Cons IH by (simp add: html_escape_plain)
    next
      case (3 d s2)
      have "html_escape (html_escape s2) = html_escape s2" using "1.IH" Cons 3 by simp
      then show ?thesis using 3 unfolding Cons by (auto simp: html_escape_E2 esc)
    next
      case 4
      have "\<not> (\<exists>x. html_escape s = CHR 0x80 # CHR 0xA8 # x \<or> html_escape s = CHR 0x80 # CHR 0xA9 # x)"
      proof
        assume "\<exists>x. html_escape s = CHR 0x80 # CHR 0xA8 # x \<or> html_escape s = CHR 0x80 # CHR 0xA9 # x"
        then obtain d x where d: "html_escape s = CHR 0x80 # d # x" "d = CHR 0xA8 \<or> d = CHR 0xA9" by blast
        then obtain s' where s': "s = CHR 0x80 # s'" "html_escape s' = d # x"
          using html_escape_head [of s "CHR 0x80" "d # x"] by auto
        then obtain s2 where "s' = d # s2" using html_escape_head [of s' d x] d(2) by auto
        with s'(1) d(2) 4(2) show False by auto
      qed
      then show ?thesis using 4 IH unfolding Cons by (simp add: html_escape_E2)
    qed
  qed simp
qed

lemma cont_plain: "byte_in 128 191 b \<Longrightarrow> \<not> html_special b \<and> b \<noteq> CHR 0xE2"
  by (auto simp: byte_in_def byte_def html_special_def)

lemma html_escape_rune:
  assumes "128 \<le> byte c" "utf8_size (c # s) \<noteq> 0"
    and "take (utf8_size (c # s)) (c # s) \<notin> {[CHR 0xE2, CHR 0x80, CHR 0xA8], [CHR 0xE2, CHR 0x80, CHR 0xA9]}"
  shows "html_escape (take (utf8_size (c # s)) (c # s) @ q) = take (utf8_size (c # s)) (c # s) @ html_escape q"
proof -
  let ?n = "utf8_size (c # s)"
  note m = utf8_multi [OF assms(1,2)]
  have t: "take ?n (c # s) = c # take (?n - 1) s" using assms(2) by (simp add: take_Cons_pos)
  have k: "\<forall>b\<in>set (take (?n - 1) s). \<not> html_special b \<and> b \<noteq> CHR 0xE2"
    using m(1) cont_plain by (auto simp: list_all_iff)
  have r: "html_escape (take (?n - 1) s @ q) = take (?n - 1) s @ html_escape q"
    using k by (rule html_escape_plains)
  show ?thesis
  proof (cases "c = CHR 0xE2")
    case True
    then have n: "?n = 3" using m(3) by blast
    then have "length s \<ge> 2" using utf8_size_bound [of "c # s"] by simp
    then obtain b1 b2 s' where s: "s = b1 # b2 # s'" by (cases s; cases "tl s") auto
    have "\<not> (\<exists>s2. take (?n - 1) s @ q = CHR 0x80 # CHR 0xA8 # s2 \<or> take (?n - 1) s @ q = CHR 0x80 # CHR 0xA9 # s2)"
      using assms(3) unfolding n t by (auto simp: s True)
    then show ?thesis unfolding t using r by (simp add: True html_escape_E2)
  next
    case False
    have "\<not> html_special c" using assms(1) by (auto simp: html_special_def byte_def)
    with False show ?thesis unfolding t using r by (simp add: html_escape_plain)
  qed
qed

lemma html_escape_quote_body: "html_escape (quote_body s) = quote_body s"
proof (induction s rule: quote_body.induct)
  case (2 c s)
  let ?n = "utf8_size (c # s)"
  show ?case
  proof (cases "byte c < 128")
    case True
    have "c \<noteq> CHR 0xE2" using True by (auto simp: byte_def)
    then have "html_escape (escape_byte c @ r) = escape_byte c @ html_escape r" for r
      by (cases rule: escape_byte_cases [of c])
        (use True byte_range(1) [of c] in \<open>auto simp: html_escape_plain html_special_def is_escape_def
           html_escape_unit u_escape_ok u_escape_hd(1) byte_def\<close>)
    then show ?thesis using 2 True by (simp add: quote_body.simps(2))
  next
    case F: False
    have esc: "html_escape (u_escape r @ t) = u_escape r @ html_escape t" if "0 \<le> r" "r < 65536" for r t
      using u_escape_ok [OF that] u_escape_hd(1) by (rule html_escape_unit)
    show ?thesis
    proof (cases "?n = 0")
      case True
      then show ?thesis using 2 F by (simp add: quote_body.simps(2) esc rune_error_def)
    next
      case False
      let ?t = "take ?n (c # s)" and ?q = "quote_body (drop ?n (c # s))"
      have IH: "html_escape ?q = ?q" using 2(3) F False by simp
      have "html_escape (?t @ ?q) = ?t @ ?q"
        if "?t \<noteq> [CHR 0xE2, CHR 0x80, CHR 0xA8]" "?t \<noteq> [CHR 0xE2, CHR 0x80, CHR 0xA9]"
        using html_escape_rune [of c s ?q] F False that IH by simp
      then show ?thesis using F False IH by (simp add: quote_body.simps(2) Let_def esc)
    qed
  qed
qed simp

end
