(* ===== verification/Go_Json_Build.thy ===== *)
theory Go_Json_Build
  imports Go_Json_Quote
begin

text \<open>
  Values as \<open>json.Marshal\<close> builds them: they are well formed, already compact, and the decoders of
  strings, numbers, slices and structs read them back.
\<close>

section \<open>Well-formedness\<close>

lemma utoa_first: "0 \<le> n \<Longrightarrow> n = 0 \<or> hd (utoa n) \<noteq> CHR ''0''"
proof (induction n rule: utoa.induct)
  case (1 n)
  show ?case
  proof (cases "n < 10")
    case True
    have "chr (48 + n) \<noteq> CHR ''0''" if "n \<noteq> 0"
      using that True "1.prems" byte_chr [of "48 + n"] by (auto simp: byte_def)
    with True show ?thesis by (subst utoa.simps) auto
  next
    case False
    then have "n div 10 \<noteq> 0" by auto
    with False 1 have "hd (utoa (n div 10)) \<noteq> CHR ''0''" by auto
    moreover have "utoa (n div 10) \<noteq> []" using utoa_digits [of "n div 10"] "1.prems" by auto
    moreover have "utoa n = utoa (n div 10) @ [chr (48 + n mod 10)]" using False by (subst utoa.simps) simp
    ultimately show ?thesis by simp
  qed
qed

lemma takeWhile_all: "list_all P s \<Longrightarrow> takeWhile P s = s \<and> dropWhile P s = []"
  by (auto simp: list_all_iff takeWhile_eq_all_conv)

lemma scan_mag_utoa: "0 \<le> n \<Longrightarrow> scan_mag (utoa n) = Some (utoa n, [])"
proof -
  assume n: "0 \<le> n"
  obtain c r where c: "utoa n = c # r" using utoa_digits [OF n] by (cases "utoa n") auto
  have d: "is_digit c" "list_all is_digit r" using utoa_digits [OF n] c by auto
  show ?thesis
  proof (cases "n = 0")
    case True
    moreover have "chr 48 = CHR ''0''" by code_simp
    ultimately show ?thesis by (simp add: utoa.simps scan_mag_def)
  next
    case False
    then have "c \<noteq> CHR ''0''" using utoa_first [OF n] c by simp
    with c d takeWhile_all [OF d(2)] show ?thesis by (simp add: scan_mag_def)
  qed
qed

lemma num_ok_utoa [simp]: "0 \<le> n \<Longrightarrow> num_ok (utoa n)"
proof -
  assume n: "0 \<le> n"
  have "scan_minus (utoa n) = ([], utoa n)"
    using utoa_not_minus [OF n] by (auto simp: scan_minus_def split: list.splits)
  with scan_mag_utoa [OF n] show ?thesis by (simp add: num_ok_def scan_num_def scan_frac_def scan_exp_def)
qed

lemma num_ok_itoa [simp]: "num_ok (itoa n)"
proof (cases "n < 0")
  case True
  then have "scan_minus (itoa n) = (''-'', utoa (- n))" by (simp add: itoa_def scan_minus_def)
  with True scan_mag_utoa [of "- n"] show ?thesis
    by (simp add: num_ok_def scan_num_def scan_frac_def scan_exp_def itoa_def)
qed (simp add: itoa_def)

lemma wf_jstr [simp]: "wf_json (jstr s) d"
  by (simp add: jstr_def quote_body_ok)

lemma wf_juint [simp]: "wf_json (juint w) d"
  by (simp add: juint_def)

lemma wf_jint [simp]: "wf_json (jint w) d"
  by (simp add: jint_def)

lemma wf_mk_elems: "wf_elems (mk_elems vs) d \<longleftrightarrow> list_all (\<lambda>v. wf_json v d) vs"
  by (induction vs) auto

lemma wf_mk_members: "wf_members (mk_members ms) d \<longleftrightarrow> list_all (\<lambda>(k, v). str_ok k \<and> wf_json v d) ms"
  by (induction ms) auto

lemma wf_jarr [simp]: "wf_json (jarr vs) d \<longleftrightarrow> 0 < d \<and> list_all (\<lambda>v. wf_json v (d - 1)) vs"
  by (simp add: jarr_def wf_mk_elems)

lemma wf_jobj [simp]: "wf_json (jobj ms) d \<longleftrightarrow> 0 < d \<and> list_all (\<lambda>(k, v). str_ok k \<and> wf_json v (d - 1)) ms"
  by (simp add: jobj_def wf_mk_members)

lemma wf_json_mono:
  "wf_json v d \<Longrightarrow> d \<le> d' \<Longrightarrow> wf_json v d'"
  "wf_elems es d \<Longrightarrow> d \<le> d' \<Longrightarrow> wf_elems es d'"
  "wf_members ms d \<Longrightarrow> d \<le> d' \<Longrightarrow> wf_members ms d'"
  by (induction v and es and ms arbitrary: d d' and d d' and d d') fastforce+

section \<open>Compaction\<close>

lemma wf_compact:
  "wf_json v d \<Longrightarrow> wf_json (compact_json v) d"
  "wf_elems es d \<Longrightarrow> wf_elems (compact_elems es) d"
  "wf_members ms d \<Longrightarrow> wf_members (compact_members ms) d"
  by (induction v and es and ms arbitrary: d and d and d) (auto simp: html_escape_ok)

lemma compact_idem [simp]:
  "compact_json (compact_json v) = compact_json v"
  "compact_elems (compact_elems es) = compact_elems es"
  "compact_members (compact_members ms) = compact_members ms"
  by (induction v and es and ms) (auto simp: html_escape_idem)

definition canonical :: "json \<Rightarrow> bool" where
  "canonical v \<longleftrightarrow> compact_json v = v"

lemma canonical_scalars [simp]:
  "canonical JNull" "canonical (JBool b)" "canonical (jstr s)" "canonical (juint w)" "canonical (jint i)"
  by (simp_all add: canonical_def jstr_def juint_def jint_def html_escape_quote_body)

lemma canonical_jarr [simp]: "canonical (jarr vs) \<longleftrightarrow> list_all canonical vs"
proof -
  have "compact_elems (mk_elems vs) = mk_elems vs \<longleftrightarrow> list_all canonical vs"
    by (induction vs) (auto simp: canonical_def)
  then show ?thesis by (simp add: canonical_def jarr_def)
qed

lemma canonical_jobj [simp]: "canonical (jobj ms) \<longleftrightarrow> list_all (\<lambda>(k, v). html_escape k = k \<and> canonical v) ms"
proof -
  have "compact_members (mk_members ms) = mk_members ms \<longleftrightarrow> list_all (\<lambda>(k, v). html_escape k = k \<and> canonical v) ms"
    by (induction ms) (auto simp: canonical_def)
  then show ?thesis by (simp add: canonical_def jobj_def)
qed

lemma jraw_Some:
  assumes "jraw r = Some v"
  shows "canonical v" "wf_json v max_nesting" "r = [] \<or> json_Valid r"
proof -
  show "r = [] \<or> json_Valid r" using assms by (auto simp: jraw_def json_Valid_def split: if_splits)
  show "canonical v" using assms by (auto simp: jraw_def canonical_def split: if_splits)
  show "wf_json v max_nesting"
    using assms by (auto simp: jraw_def wf_compact split: if_splits elim!: parse_doc_text)
qed

lemma jraw_canonical: "canonical v \<Longrightarrow> wf_json v max_nesting \<Longrightarrow> jraw (unparse v) = Some v"
proof -
  assume v: "canonical v" "wf_json v max_nesting"
  obtain c t where "unparse v = c # t" using v(2) by (rule unparse_first)
  then have "unparse v \<noteq> []" by simp
  then show ?thesis using v parse_doc_compact_text [OF v(2)] by (simp add: jraw_def canonical_def)
qed

section \<open>Reading built values\<close>

lemma elems_list_mk [simp]: "elems_list (mk_elems vs) = vs"
  by (induction vs) auto

lemma members_list_mk [simp]: "members_list (mk_members ms) = map (\<lambda>(k, v). (unquote k, v)) ms"
  by (induction ms) auto

lemma dec_string_jstr [simp]: "ValidString s \<Longrightarrow> dec_string old (jstr s) = Inr s"
  by (simp add: dec_string_def jstr_def unquote_quote_body)

lemma dec_uint_juint [simp]: "dec_uint old (juint w) = Inr w"
proof -
  have "uint w < 2 ^ LENGTH('a)" by (rule uint_lt2p)
  then show ?thesis by (simp add: dec_uint_def juint_def ParseUint_utoa)
qed

lemma dec_int_jint [simp]: "dec_int old (jint w) = Inr w"
proof -
  have "- (2 ^ (64 - 1)) \<le> sint w" "sint w < 2 ^ (64 - 1)"
    using sint_ge [of w] sint_lt [of w] by simp_all
  then have "ParseInt 64 (itoa (sint w)) = Some (sint w)" by (rule ParseInt_itoa)
  then show ?thesis by (simp add: dec_int_def jint_def)
qed

lemma dec_bool_JBool [simp]: "dec_bool old (JBool b) = Inr b"
  by (simp add: dec_bool_def)

lemma dec_raw_eq [simp]: "dec_raw old v = Inr (unparse v)"
  by (simp add: dec_raw_def)

lemma dec_elems_map:
  "(\<And>x old. x \<in> set xs \<Longrightarrow> f old (g x) = Inr x) \<Longrightarrow> dec_elems f z olds (map g xs) = Inr xs"
  by (induction xs arbitrary: olds) auto

lemma dec_slice_jarr:
  "(\<And>x old. x \<in> set xs \<Longrightarrow> f old (g x) = Inr x) \<Longrightarrow> dec_slice f z old (jarr (map g xs)) = Inr xs"
  by (simp add: dec_slice_def jarr_def dec_elems_map)

lemma dec_struct_jobj [simp]:
  "dec_struct strict fs old (jobj ms) = dec_members strict fs old (map (\<lambda>(k, v). (unquote k, v)) ms)"
  by (simp add: dec_struct_def jobj_def)

end
