(* ===== verification/Payload_Roundtrip.thy ===== *)
theory Payload_Roundtrip
  imports Json_Codec Go_Json_Build
begin

text \<open>
  Every payload the encoder writes is well formed, compact and free of duplicate members, and its
  decoder reads it back.
\<close>

section \<open>Member names\<close>

definition key_ok :: "string \<Rightarrow> bool" where
  "key_ok k \<longleftrightarrow> str_ok k \<and> html_escape k = k \<and> unquote k = k"

definition plain_char :: "char \<Rightarrow> bool" where
  "plain_char c \<longleftrightarrow> 32 \<le> byte c \<and> byte c < 128 \<and> c \<noteq> CHR 0x5C \<and> c \<noteq> CHR 0x22 \<and> \<not> html_special c"

lemma plain_key_ok: "list_all plain_char k \<Longrightarrow> key_ok k"
proof (induction k)
  case (Cons c k)
  then have c: "c \<noteq> CHR 0x5C" "c \<noteq> CHR 0x22" "32 \<le> byte c" "byte c < 128" "\<not> html_special c" "c \<noteq> CHR 0xE2"
    by (auto simp: plain_char_def byte_def)
  with Cons show ?case
    using unquote_rune [of c k] by (simp add: key_ok_def str_ok_plain html_escape_plain utf8_ascii)
qed (simp add: key_ok_def)

lemma payload_keys_ok:
  "key_ok ''v''" "key_ok ''type''" "key_ok ''id''" "key_ok ''session_id''" "key_ok ''seq''"
  "key_ok ''timestamp''" "key_ok ''payload''" "key_ok ''client_name''" "key_ok ''capabilities''"
  "key_ok ''name''" "key_ok ''versions''" "key_ok ''required''" "key_ok ''version''" "key_ok ''mode''"
  "key_ok ''server_time''" "key_ok ''resume_from''" "key_ok ''replay_to''" "key_ok ''state_sync''"
  "key_ok ''accepted_capabilities''" "key_ok ''namespaces''" "key_ok ''ping_id''" "key_ok ''client_time''"
  "key_ok ''content''" "key_ok ''ref_id''" "key_ok ''event_type''" "key_ok ''last_seq''" "key_ok ''namespace''"
  "key_ok ''object_id''" "key_ok ''data''" "key_ok ''object_ids''" "key_ok ''states''" "key_ok ''state''"
  "key_ok ''code''" "key_ok ''message''" "key_ok ''retryable''"
  by (rule plain_key_ok, simp add: plain_char_def byte_def html_special_def)+

lemmas keys_str = payload_keys_ok [unfolded key_ok_def, THEN conjunct1]
lemmas keys_html = payload_keys_ok [unfolded key_ok_def, THEN conjunct2, THEN conjunct1]
lemmas keys_unquote = payload_keys_ok [unfolded key_ok_def, THEN conjunct2, THEN conjunct2]

named_theorems payload_simps \<open>unfolding of payload encoders and decoders\<close>

lemmas [payload_simps] = keys_str keys_html keys_unquote find_field_def field_dec_def omit_def omit_sync_def

section \<open>Reading back every payload\<close>

lemma dec_slice_jslice:
  "(\<And>x old. x \<in> set xs \<Longrightarrow> f old (g x) = Inr x) \<Longrightarrow> dec_slice f z old (jslice g xs) = Inr xs"
  by (simp add: jslice_def dec_slice_jarr) (simp add: dec_slice_def)

lemma dec_elems_zero:
  "(\<And>x. x \<in> set xs \<Longrightarrow> f z (g x) = Inr x) \<Longrightarrow> dec_elems f z [] (map g xs) = Inr xs"
  by (induction xs) auto

lemma dec_slice_zero:
  "(\<And>x. x \<in> set xs \<Longrightarrow> f z (g x) = Inr x) \<Longrightarrow> dec_slice f z [] (jslice g xs) = Inr xs"
  by (auto simp: jslice_def dec_slice_def jarr_def dec_elems_zero)

lemma dec_CapabilityOffer_json:
  "ValidString (co_Name c) \<Longrightarrow> dec_CapabilityOffer strict zero_CapabilityOffer (CapabilityOffer_json c) = Inr c"
  by (cases c) (auto simp: dec_CapabilityOffer_def CapabilityOffer_json_def payload_simps dec_slice_jslice zero_CapabilityOffer_def)

lemma dec_NegotiatedCapability_json:
  "ValidString (nc_Name c) \<Longrightarrow> dec_NegotiatedCapability strict old (NegotiatedCapability_json c) = Inr c"
  by (cases c) (auto simp: dec_NegotiatedCapability_def NegotiatedCapability_json_def payload_simps)

lemma dec_ResumeStateSync_json:
  "\<forall>n\<in>set (rs_Namespaces s). ValidString n \<Longrightarrow> dec_ResumeStateSync strict old (ResumeStateSync_json s) = Inr s"
  by (cases s) (auto simp: dec_ResumeStateSync_def ResumeStateSync_json_def payload_simps dec_slice_jslice)

lemma ResumeStateSync_not_null: "ResumeStateSync_json s \<noteq> JNull"
  by (simp add: ResumeStateSync_json_def jobj_def)

lemma dec_pointer_not_null:
  "v \<noteq> JNull \<Longrightarrow> dec_pointer f z old v = ebind (f (case old of None \<Rightarrow> z | Some x \<Rightarrow> x) v) (\<lambda>y. Inr (Some y))"
  by (cases v) (simp_all add: dec_pointer_def)

lemma dec_pointer_sync:
  "\<forall>n\<in>set (rs_Namespaces s). ValidString n \<Longrightarrow>
     dec_pointer (dec_ResumeStateSync strict) z old (ResumeStateSync_json s) = Inr (Some s)"
  using ResumeStateSync_not_null [of s] by (simp add: dec_pointer_not_null dec_ResumeStateSync_json)

definition sync_text_ok :: "ResumeStateSync option \<Rightarrow> bool" where
  "sync_text_ok sync \<longleftrightarrow> (\<forall>s. sync = Some s \<longrightarrow> (\<forall>n\<in>set (rs_Namespaces s). ValidString n))"

lemma dec_HelloPayload_json:
  assumes "ValidString (hp_ClientName p)" "\<forall>c\<in>set (hp_Capabilities p). ValidString (co_Name c)"
  shows "dec_HelloPayload strict zero_HelloPayload (HelloPayload_json p) = Inr p"
proof -
  have "dec_slice (dec_CapabilityOffer strict) zero_CapabilityOffer [] (jslice CapabilityOffer_json (hp_Capabilities p)) = Inr (hp_Capabilities p)"
    using assms(2) by (intro dec_slice_zero dec_CapabilityOffer_json) auto
  then show ?thesis using assms(1)
    by (cases p) (auto simp: dec_HelloPayload_def HelloPayload_json_def payload_simps zero_HelloPayload_def)
qed

lemma dec_WelcomeNew_json:
  assumes "wp_Mode p = WelcomeModeNew" "\<forall>c\<in>set (wp_AcceptedCapabilities p). ValidString (nc_Name c)"
    and "wp_ResumeFrom p = 0" "wp_ReplayTo p = 0" "wp_StateSync p = None"
  shows "dec_WelcomePayload strict zero_WelcomePayload (WelcomePayload_json p) = Inr p"
proof -
  have "dec_slice (dec_NegotiatedCapability strict) zero_NegotiatedCapability []
      (jslice NegotiatedCapability_json (wp_AcceptedCapabilities p)) = Inr (wp_AcceptedCapabilities p)"
    using assms(2) by (intro dec_slice_zero dec_NegotiatedCapability_json) auto
  moreover have "ValidString ''NEW''" by code_simp
  ultimately show ?thesis using assms
    by (cases p) (auto simp: dec_WelcomePayload_def WelcomePayload_json_def payload_simps zero_WelcomePayload_def
        WelcomeModeNew_def WelcomeModeResumed_def)
qed

lemma dec_WelcomeResumed_json:
  assumes "wp_Mode p = WelcomeModeResumed" "sync_text_ok (wp_StateSync p)" "wp_AcceptedCapabilities p = []"
  shows "dec_WelcomePayload strict zero_WelcomePayload (WelcomePayload_json p) = Inr p"
proof -
  have "ValidString ''RESUMED''" by code_simp
  then show ?thesis using assms
    by (cases p) (auto simp: dec_WelcomePayload_def WelcomePayload_json_def payload_simps zero_WelcomePayload_def
        WelcomeModeResumed_def sync_text_ok_def dec_pointer_sync split: option.splits)
qed

lemma dec_PingPayload_json: "ValidString (pp_PingID p) \<Longrightarrow> dec_PingPayload strict old (PingPayload_json p) = Inr p"
  by (cases p) (auto simp: dec_PingPayload_def PingPayload_json_def payload_simps)

lemma dec_PongPayload_json: "ValidString (po_PingID p) \<Longrightarrow> dec_PongPayload strict old (PongPayload_json p) = Inr p"
  by (cases p) (auto simp: dec_PongPayload_def PongPayload_json_def payload_simps)

lemma dec_AckPayload_json: "ValidString (ap_RefID p) \<Longrightarrow> dec_AckPayload strict old (AckPayload_json p) = Inr p"
  by (cases p) (auto simp: dec_AckPayload_def AckPayload_json_def payload_simps)

lemma dec_ResumePayload_json:
  "sync_text_ok (rp_StateSync p) \<Longrightarrow> dec_ResumePayload strict zero_ResumePayload (ResumePayload_json p) = Inr p"
  by (cases p) (auto simp: dec_ResumePayload_def ResumePayload_json_def payload_simps zero_ResumePayload_def
      sync_text_ok_def dec_pointer_sync split: option.splits)

lemma dec_StateQueryPayload_json:
  "ValidString (sq_Namespace p) \<Longrightarrow> \<forall>i\<in>set (sq_ObjectIDs p). ValidString i \<Longrightarrow>
     dec_StateQueryPayload strict old (StateQueryPayload_json p) = Inr p"
  by (cases p) (auto simp: dec_StateQueryPayload_def StateQueryPayload_json_def payload_simps dec_slice_jslice)

lemma dec_ErrorPayload_json:
  "ValidString (er_Code p) \<Longrightarrow> ValidString (er_Message p) \<Longrightarrow> ValidString (er_RefID p) \<Longrightarrow>
     dec_ErrorPayload strict zero_ErrorPayload (ErrorPayload_json p) = Inr p"
  by (cases p) (auto simp: dec_ErrorPayload_def ErrorPayload_json_def payload_simps zero_ErrorPayload_def)

lemma dec_SendPayload_json:
  "SendPayload_json p = Some v \<Longrightarrow> jraw (sp_Content p) = Some c \<Longrightarrow>
     dec_SendPayload strict old v = Inr (p\<lparr>sp_Content := unparse c\<rparr>)"
  by (cases p; cases old) (auto simp: dec_SendPayload_def SendPayload_json_def payload_simps)

lemma dec_EventPayload_json:
  "EventPayload_json p = Some v \<Longrightarrow> jraw (ep_Content p) = Some c \<Longrightarrow> ValidString (ep_EventType p) \<Longrightarrow>
     dec_EventPayload strict zero_EventPayload v = Inr (p\<lparr>ep_Content := unparse c\<rparr>)"
  by (cases p) (auto simp: dec_EventPayload_def EventPayload_json_def payload_simps zero_EventPayload_def)

definition compact_state :: "StateObject \<Rightarrow> StateObject" where
  "compact_state x = (case jraw (so_Data x) of None \<Rightarrow> x | Some d \<Rightarrow> x\<lparr>so_Data := unparse d\<rparr>)"

lemma dec_StateObject_json:
  "StateObject_json x = Some v \<Longrightarrow> ValidString (so_Namespace x) \<Longrightarrow> ValidString (so_ObjectID x) \<Longrightarrow>
     dec_StateObject strict old v = Inr (compact_state x)"
  by (cases x; cases old) (auto simp: dec_StateObject_def StateObject_json_def payload_simps compact_state_def)

lemma dec_StateUpdatePayload_json:
  "StateUpdatePayload_json p = Some v \<Longrightarrow> ValidString (so_Namespace (su_State p)) \<Longrightarrow>
     ValidString (so_ObjectID (su_State p)) \<Longrightarrow>
     dec_StateUpdatePayload strict old v = Inr \<lparr>su_State = compact_state (su_State p)\<rparr>"
  by (cases p; cases old) (auto simp: dec_StateUpdatePayload_def StateUpdatePayload_json_def payload_simps dec_StateObject_json)

section \<open>Payload texts\<close>

lemma IsSpace_brace: "trim_left_space (CHR ''{'' # s) = CHR ''{'' # s"
  by (simp add: DecodeRune_def utf8_ascii byte_def IsSpace_def)

lemma jobj_not_null_text: "\<not> is_null_text (unparse (jobj ms))"
  by (simp add: is_null_text_def jobj_def IsSpace_brace del: trim_left_space.simps)

lemma walk_members_mk:
  assumes "distinct (map (unquote \<circ> fst) ms)" "set seen \<inter> (unquote \<circ> fst) ` set ms = {}"
    and "\<forall>(k, v)\<in>set ms. unquote k \<in> set opaque \<or> walkStrictJSONValue opaque v = None"
  shows "walk_members opaque seen (mk_members ms) = None"
  using assms by (induction ms arbitrary: seen) auto

lemma walk_jobj:
  "distinct (map (unquote \<circ> fst) ms) \<Longrightarrow>
   \<forall>(k, v)\<in>set ms. unquote k \<in> set opaque \<or> walkStrictJSONValue opaque v = None \<Longrightarrow>
     walkStrictJSONValue opaque (jobj ms) = None"
  by (simp add: jobj_def walk_members_mk)

lemma walk_jarr: "\<forall>v\<in>set vs. walkStrictJSONValue opaque v = None \<Longrightarrow> walkStrictJSONValue opaque (jarr vs) = None"
  unfolding jarr_def by simp (induction vs, auto)

lemma walk_scalars [simp]:
  "walkStrictJSONValue opaque (jstr s) = None" "walkStrictJSONValue opaque (juint w) = None"
  "walkStrictJSONValue opaque (jint i) = None"
  by (simp_all add: jstr_def juint_def jint_def)

lemma walk_jslice: "(\<And>x. x \<in> set xs \<Longrightarrow> walkStrictJSONValue opaque (f x) = None) \<Longrightarrow>
    walkStrictJSONValue opaque (jslice f xs) = None"
  by (auto simp: jslice_def intro!: walk_jarr)

lemma eof_bad_request_Nil [simp]: "eof_bad_request [] = None"
  by (simp add: eof_bad_request_def ensureJSONEOF_def)

lemma decodePayload_built:
  assumes "wf_json (jobj ms) max_nesting" "walkStrictJSONValue [''content'', ''data''] (jobj ms) = None"
    and "dec strict zero (jobj ms) = Inr p"
  shows "decodePayload (unparse (jobj ms)) dec zero strict = Inr p"
  using assms decode_first_unparse [OF assms(1)] jobj_not_null_text [of ms]
  by (cases strict) (simp_all add: decodePayload_def decode_one_def rejectDuplicateJSONFields_def unparse_jobj)

lemma fold_put_dom:
  "map_get (fold (\<lambda>(k, x) m. map_put k (f x) m) ms m) k \<noteq> None \<longleftrightarrow> k \<in> fst ` set ms \<or> map_get m k \<noteq> None"
  by (induction ms arbitrary: m) (auto split: if_splits)

lemma payload_fields_built:
  "wf_json (jobj ms) max_nesting \<Longrightarrow>
     payload_fields (unparse (jobj ms)) = Inr (fold (\<lambda>(k, x) m. map_put k (unparse x) m) (map (\<lambda>(k, v). (unquote k, v)) ms) [])"
  using parse_doc_compact_text [of "jobj ms"] by (simp add: payload_fields_def) (simp add: jobj_def)

lemma jsonFieldPresent_built:
  "wf_json (jobj ms) max_nesting \<Longrightarrow> jsonFieldPresent (unparse (jobj ms)) k = Inr (k \<in> unquote ` fst ` set ms)"
  unfolding jsonFieldPresent_def payload_fields_built ebind_simps fold_put_dom
  by (force simp: image_iff)

lemma fold_put_notin: "k \<notin> fst ` set ms \<Longrightarrow> map_get (fold (\<lambda>(k, x) m. map_put k (f x) m) ms m) k = map_get m k"
  by (induction ms arbitrary: m) auto

lemma jsonFieldPresentAndNonNull_single:
  "wf_json (jobj [(k, v)]) max_nesting \<Longrightarrow> unquote k = k \<Longrightarrow>
     jsonFieldPresentAndNonNull (unparse (jobj [(k, v)])) k = Inr (\<not> is_null_text (unparse v))"
  by (simp add: jsonFieldPresentAndNonNull_def payload_fields_built)

section \<open>Well-formed payloads\<close>

text \<open>What the encoder of a payload without raw messages produces, with room for \<open>d\<close> levels of nesting.\<close>

definition built :: "int \<Rightarrow> json \<Rightarrow> bool" where
  "built d v \<longleftrightarrow> wf_json v d \<and> canonical v \<and> walkStrictJSONValue [''content'', ''data''] v = None"

lemma built_scalars [simp]: "built d (jstr s)" "built d (juint w)" "built d (jint i)" "built d (JBool b)" "built d JNull"
  by (simp_all add: built_def)

lemma built_jslice: "0 < d \<Longrightarrow> (\<And>x. x \<in> set xs \<Longrightarrow> built (d - 1) (f x)) \<Longrightarrow> built d (jslice f xs)"
  by (auto simp: built_def jslice_def list_all_iff intro!: walk_jarr)

definition member_built :: "int \<Rightarrow> string \<times> json \<Rightarrow> bool" where
  "member_built d kv \<longleftrightarrow> key_ok (fst kv) \<and>
     (if fst kv \<in> {''content'', ''data''} then wf_json (snd kv) d \<and> canonical (snd kv) else built d (snd kv))"

lemma built_jobj:
  assumes "0 < d" "distinct (map fst ms)" "list_all (member_built (d - 1)) ms"
  shows "built d (jobj ms)"
proof -
  have k: "\<forall>kv\<in>set ms. str_ok (fst kv) \<and> html_escape (fst kv) = fst kv \<and> unquote (fst kv) = fst kv
      \<and> wf_json (snd kv) (d - 1) \<and> canonical (snd kv)
      \<and> (unquote (fst kv) \<in> {''content'', ''data''} \<or> walkStrictJSONValue [''content'', ''data''] (snd kv) = None)"
    using assms(3) by (auto simp: list_all_iff member_built_def key_ok_def built_def split: if_splits)
  then have eq: "map (unquote \<circ> fst) ms = map fst ms" by simp
  have "distinct (map (unquote \<circ> fst) ms)" unfolding eq by (rule assms(2))
  moreover have "\<forall>(k, v)\<in>set ms. unquote k \<in> set [''content'', ''data''] \<or> walkStrictJSONValue [''content'', ''data''] v = None"
    using k by fastforce
  ultimately have "walkStrictJSONValue [''content'', ''data''] (jobj ms) = None" by (rule walk_jobj)
  then show ?thesis using k assms(1) by (auto simp: built_def list_all_iff)
qed


lemma CapabilityOffer_built: "2 < d \<Longrightarrow> built d (CapabilityOffer_json c)"
  unfolding CapabilityOffer_json_def
  by (rule built_jobj) (auto simp: omit_def member_built_def payload_keys_ok intro!: built_jslice)

lemma NegotiatedCapability_built: "1 < d \<Longrightarrow> built d (NegotiatedCapability_json c)"
  unfolding NegotiatedCapability_json_def
  by (rule built_jobj) (auto simp: member_built_def payload_keys_ok)

lemma ResumeStateSync_built: "2 < d \<Longrightarrow> built d (ResumeStateSync_json s)"
  unfolding ResumeStateSync_json_def
  by (rule built_jobj) (auto simp: member_built_def payload_keys_ok intro!: built_jslice)

lemma payloads_built:
  "5 < d \<Longrightarrow> built d (HelloPayload_json hp)"
  "5 < d \<Longrightarrow> built d (WelcomePayload_json wp)"
  "5 < d \<Longrightarrow> built d (PingPayload_json pp)"
  "5 < d \<Longrightarrow> built d (PongPayload_json po)"
  "5 < d \<Longrightarrow> built d (AckPayload_json ap)"
  "5 < d \<Longrightarrow> built d (ResumePayload_json rp)"
  "5 < d \<Longrightarrow> built d (StateQueryPayload_json sq)"
  "5 < d \<Longrightarrow> built d (ErrorPayload_json er)"
  unfolding HelloPayload_json_def WelcomePayload_json_def PingPayload_json_def PongPayload_json_def
    AckPayload_json_def ResumePayload_json_def StateQueryPayload_json_def ErrorPayload_json_def
  by (auto simp: omit_def omit_sync_def member_built_def payload_keys_ok split: option.splits
      intro!: built_jobj built_jslice CapabilityOffer_built NegotiatedCapability_built ResumeStateSync_built)

end
