(* ===== verification/Codec_Roundtrip.thy ===== *)
theory Codec_Roundtrip
  imports Payload_Roundtrip
begin

text \<open>
  What validation guarantees of an accepted frame, and the round trip of envelopes through the codec.
\<close>

section \<open>Envelopes\<close>

lemma dec_Envelope_json:
  assumes "ValidString (env_Type e)" "ValidString (env_ID e)" "ValidString (env_SessionID e)"
  shows "dec_Envelope strict zero_envelope (jobj (Envelope_members e @ [(''payload'', v)])) =
    Inr (e\<lparr>env_Payload := unparse v\<rparr>)"
  using assms
  by (cases e) (auto simp: dec_Envelope_def Envelope_members_def payload_simps zero_envelope_def)

lemma Envelope_members_keys:
  "distinct (map fst (Envelope_members e @ [(''payload'', v)]))"
  "list_all (\<lambda>(k, x). key_ok k \<and> wf_json x d \<and> canonical x \<and> walkStrictJSONValue o' x = None) (Envelope_members e)"
  by (auto simp: Envelope_members_def omit_def payload_keys_ok)

lemma Envelope_wf:
  "0 < d \<Longrightarrow> wf_json v (d - 1) \<Longrightarrow> wf_json (jobj (Envelope_members e @ [(''payload'', v)])) d"
  using Envelope_members_keys(2) [of "d - 1" "[]" e] by (auto simp: list_all_iff key_ok_def keys_str)

lemma Envelope_walk:
  "walkStrictJSONValue [''payload''] (jobj (Envelope_members e @ [(''payload'', v)])) = None"
proof (rule walk_jobj)
  have eq: "map (unquote \<circ> fst) (Envelope_members e @ [(''payload'', v)]) = map fst (Envelope_members e @ [(''payload'', v)])"
    using Envelope_members_keys(2) [of 0 "[]" e] by (auto simp: list_all_iff key_ok_def keys_unquote)
  show "distinct (map (unquote \<circ> fst) (Envelope_members e @ [(''payload'', v)]))"
    unfolding eq by (rule Envelope_members_keys)
  show "\<forall>(k, x)\<in>set (Envelope_members e @ [(''payload'', v)]).
      unquote k \<in> set [''payload''] \<or> walkStrictJSONValue [''payload''] x = None"
    using Envelope_members_keys(2) [of 0 "[''payload'']" e] by (auto simp: list_all_iff keys_unquote)
qed

lemma validBounded_ValidString: "validBoundedProtocolString s n b \<Longrightarrow> ValidString s"
  by (auto simp: validBoundedProtocolString_def split: if_splits)

lemma ValidateEnvelope_None:
  assumes "ValidateEnvelope (Some e) limits = None"
  shows "env_V e = WireVersionV2" "env_Type e \<noteq> []"
    "validBoundedProtocolString (env_ID e) (MaxIDLength (normalizeLimits limits)) True"
    "validBoundedProtocolString (env_SessionID e) (MaxSessionIDLength (normalizeLimits limits)) True"
    "len (env_Payload e) \<le> MaxPayloadSize (normalizeLimits limits)"
    "\<exists>j. Envelope_json e = Some j \<and> len (unparse j) \<le> MaxFrameSize (normalizeLimits limits)"
  using assms by (auto simp: ValidateEnvelope_def Let_def json_Marshal_def split: option.splits if_splits)

definition frame_types :: "FrameType list" where
  "frame_types = [FrameHello, FrameWelcome, FramePing, FramePong, FrameSend, FrameAck, FrameEvent, FrameResume,
     FrameError, FrameStateQuery, FrameStateSnapshot, FrameStateUpdate]"

lemma frame_types_text: "t \<in> set frame_types \<Longrightarrow> ValidString t \<and> t \<noteq> []"
proof -
  have "list_all (\<lambda>t. ValidString t \<and> t \<noteq> []) frame_types" by code_simp
  then show "t \<in> set frame_types \<Longrightarrow> ValidString t \<and> t \<noteq> []" by (auto simp: list_all_iff)
qed

lemma ValidateFrame_None:
  assumes "ValidateFrame (Some e) limits strict = None"
  shows "ValidateEnvelope (Some e) (normalizeLimits limits) = None" "env_Type e \<in> set frame_types"
  using assms by (auto simp: ValidateFrame_def Let_def frame_types_def split: option.splits if_splits)

definition canonical_payload :: "bytes \<Rightarrow> bool" where
  "canonical_payload p \<longleftrightarrow> (\<exists>v. p = unparse v \<and> canonical v \<and> wf_json v (max_nesting - 1))"

lemma roundtrip:
  assumes enc: "Encode c (Some e) = Inr b" and can: "canonical_payload (env_Payload e)"
  shows "Decode c b = Inr e"
proof -
  obtain v where v: "env_Payload e = unparse v" "canonical v" "wf_json v (max_nesting - 1)"
    using can by (auto simp: canonical_payload_def)
  let ?j = "jobj (Envelope_members e @ [(''payload'', v)])"
  have wf: "wf_json ?j max_nesting" using v(3) by (intro Envelope_wf) (simp_all add: max_nesting_def)
  have raw: "jraw (env_Payload e) = Some v"
    unfolding v(1) using v(2) wf_json_mono(1) [OF v(3)] by (intro jraw_canonical) simp_all
  obtain k t where "unparse v = k # t" using v(3) by (rule unparse_first)
  then have ej: "Envelope_json e = Some ?j" using raw v(1) by (simp add: Envelope_json_def)
  from enc ej have val: "ValidateFrame (Some e) (codec_limits c) (jc_Strict c) = None" and b: "b = unparse ?j"
    by (auto simp: Encode_def validateOutboundFrame_def json_Marshal_def codec_limits_def split: option.splits)
  note V = ValidateEnvelope_None [OF ValidateFrame_None(1) [OF val]]
  have "len b \<le> MaxFrameSize (codec_limits c)" using V(6) ej b by (auto simp: codec_limits_def)
  moreover have "b \<noteq> []" by (simp add: b unparse_jobj)
  moreover have "decode_first b = Some (?j, [])" unfolding b by (rule decode_first_unparse [OF wf])
  moreover have "dec_Envelope s zero_envelope ?j = Inr e" for s
    using dec_Envelope_json [of e s v] validBounded_ValidString [OF V(3)] validBounded_ValidString [OF V(4)]
      frame_types_text [OF ValidateFrame_None(2) [OF val]] v(1) by simp
  ultimately show ?thesis
    using val Envelope_walk [of e v]
    by (cases "jc_Strict c") (simp_all add: Decode_def decode_one_def rejectDuplicateJSONFields_def)
qed

lemma marshal_canonical_payload: "built (max_nesting - 1) v \<Longrightarrow> canonical_payload (unparse v)"
  by (auto simp: canonical_payload_def built_def)

section \<open>Properties\<close>

text \<open>
  C5: A frame the codec encodes, whose payload is compact JSON as every payload built by the protocol
  is and nested less deeply than the decoder's limit, decodes to exactly the same frame, strictly or not.
\<close>

theorem codec_roundtrip:
  assumes "Encode c (Some e) = Inr b" "canonical_payload (env_Payload e)"
  shows "Decode c b = Inr e"
  using assms by (rule roundtrip)

definition demo_ping :: PingPayload where
  "demo_ping = \<lparr>pp_PingID = ''p<1>'', pp_ClientTime = - 5\<rparr>"

definition demo_payload :: bytes where
  \<open>demo_payload = ''{"ping_id":"p'' @ [CHR 0x5C] @ ''u003c1'' @ [CHR 0x5C] @ ''u003e","client_time":-5}''\<close>

definition demo_frame :: Envelope where
  "demo_frame = \<lparr>env_V = 2, env_Type = FramePing, env_ID = [], env_SessionID = ''s-1'', env_Seq = 0,
     env_Timestamp = 7, env_Payload = demo_payload\<rparr>"

definition demo_bytes :: bytes where
  \<open>demo_bytes = ''{"v":2,"type":"PING","session_id":"s-1","timestamp":7,"payload":'' @ demo_payload @ ''}''\<close>

lemma demo_encoded: "Encode NewJSONCodec (Some demo_frame) = Inr demo_bytes"
  by code_simp

lemma demo_canonical: "canonical_payload (env_Payload demo_frame)"
proof -
  have "env_Payload demo_frame = unparse (PingPayload_json demo_ping)" by code_simp
  then show ?thesis by (simp add: marshal_canonical_payload payloads_built max_nesting_def)
qed

theorem codec_roundtrip_witness:
  "Encode NewJSONCodec (Some demo_frame) = Inr demo_bytes \<and> Decode NewJSONCodec demo_bytes = Inr demo_frame"
  using codec_roundtrip [OF demo_encoded demo_canonical] demo_encoded by simp

text \<open>
  C16: Every frame the codec accepts from the wire is a valid frame of a known type within the size
  limits, with well-formed bounded identifiers, and can be encoded again.
\<close>

theorem decoded_frame_valid:
  assumes "Decode c data = Inr e"
  shows "len data \<le> MaxFrameSize (codec_limits c) \<and> env_V e = WireVersionV2 \<and> env_Type e \<in> set frame_types
    \<and> validBoundedProtocolString (env_ID e) (MaxIDLength (codec_limits c)) True
    \<and> validBoundedProtocolString (env_SessionID e) (MaxSessionIDLength (codec_limits c)) True
    \<and> len (env_Payload e) \<le> MaxPayloadSize (codec_limits c)
    \<and> (\<exists>b. Encode c (Some e) = Inr b \<and> len b \<le> MaxFrameSize (codec_limits c))"
proof -
  have len: "len data \<le> MaxFrameSize (codec_limits c)" and val: "ValidateFrame (Some e) (codec_limits c) (jc_Strict c) = None"
    using assms by (auto simp: Decode_def ebind_Inr split: if_splits option.splits)
  note V = ValidateEnvelope_None [OF ValidateFrame_None(1) [OF val]]
  have "\<exists>b. Encode c (Some e) = Inr b \<and> len b \<le> MaxFrameSize (codec_limits c)"
    using V(6) val by (auto simp: Encode_def validateOutboundFrame_def json_Marshal_def codec_limits_def)
  with len V(1-5) ValidateFrame_None(2) [OF val] show ?thesis by (simp add: codec_limits_def)
qed

definition demo_text :: bytes where
  \<open>demo_text = ''{ "v":2,"type":"ACK", "session_id":"s-1","payload":{"ref_id":"m-1"}}''\<close>

definition demo_ack :: Envelope where
  \<open>demo_ack = \<lparr>env_V = 2, env_Type = FrameAck, env_ID = [], env_SessionID = ''s-1'', env_Seq = 0,
     env_Timestamp = 0, env_Payload = ''{"ref_id":"m-1"}''\<rparr>\<close>

lemma demo_decoded: "Decode NewJSONCodec demo_text = Inr demo_ack"
  by code_simp

theorem decoded_frame_valid_witness:
  "env_Type demo_ack \<in> set frame_types \<and> (\<exists>b. Encode NewJSONCodec (Some demo_ack) = Inr b
     \<and> len b \<le> MaxFrameSize (codec_limits NewJSONCodec))"
  using decoded_frame_valid [OF demo_decoded] by blast

end
