(* ===== verification/Sort_Strings.thy ===== *)
theory Sort_Strings
  imports Prelude
begin

text \<open>
  \<open>sortStrings\<close> and \<open>equalStrings\<close> of \<open>client.go\<close>: the in-place insertion sort, index by index, and
  the element-wise comparison, with their specifications.
\<close>

section \<open>Definitions\<close>

text \<open>The inner loop swaps the element at \<open>j\<close> down while it is smaller than its predecessor.\<close>

fun sort_inner :: "string list \<Rightarrow> nat \<Rightarrow> string list" where
  "sort_inner vals 0 = vals"
| "sort_inner vals (Suc j) =
     (if vals ! Suc j < vals ! j
      then sort_inner (vals[Suc j := vals ! j, j := vals ! Suc j]) j
      else vals)"

function sort_outer :: "string list \<Rightarrow> nat \<Rightarrow> string list" where
  "sort_outer vals i =
     (if i < length vals then sort_outer (sort_inner vals i) (i + 1) else vals)"
  by pat_completeness auto

lemma length_sort_inner [simp]: "length (sort_inner vals j) = length vals"
  by (induction vals j rule: sort_inner.induct) auto

termination sort_outer
  by (relation "measure (\<lambda>(vals, i). length vals - i)") auto

declare sort_outer.simps [simp del]

definition sortStrings :: "string list \<Rightarrow> string list" where
  "sortStrings vals = sort_outer vals 1"

fun equal_loop :: "string list \<Rightarrow> string list \<Rightarrow> bool" where
  "equal_loop [] right \<longleftrightarrow> True"
| "equal_loop (x # left) right \<longleftrightarrow> (if x \<noteq> hd right then False else equal_loop left (tl right))"

definition equalStrings :: "string list \<Rightarrow> string list \<Rightarrow> bool" where
  "equalStrings left right = (if length left \<noteq> length right then False else equal_loop left right)"

section \<open>Correctness\<close>

lemma insort_snoc_less: "x < v \<Longrightarrow> insort x (as @ [v]) = insort x as @ [v]"
  by (induction as) auto

text \<open>The inner loop inserts the element at \<open>j\<close> into the sorted prefix before it.\<close>

lemma sort_inner_insort:
  "j < length vals \<Longrightarrow> sorted (take j vals) \<Longrightarrow>
     sort_inner vals j = insort (vals ! j) (take j vals) @ drop (Suc j) vals"
proof (induction vals j rule: sort_inner.induct)
  case (1 vals)
  then show ?case by (cases vals) auto
next
  case (2 vals j)
  let ?x = "vals ! Suc j" and ?v = "vals ! j"
  let ?w = "vals[Suc j := ?v, j := ?x]"
  have t: "take (Suc j) vals = take j vals @ [?v]"
    using "2.prems"(1) by (simp add: take_Suc_conv_app_nth)
  show ?case
  proof (cases "?x < ?v")
    case True
    have "sorted (take j ?w)" using "2.prems"(2) t by (simp add: sorted_append)
    with 2 True have "sort_inner ?w j = insort (?w ! j) (take j ?w) @ drop (Suc j) ?w" by simp
    moreover have "drop (Suc j) ?w = ?v # drop (Suc (Suc j)) vals"
      using "2.prems"(1) by (simp add: drop_update_swap Cons_nth_drop_Suc [symmetric])
    ultimately show ?thesis
      using True "2.prems"(1) unfolding t by (simp add: insort_snoc_less)
  next
    case False
    have "\<forall>a\<in>set (take (Suc j) vals). a \<le> ?x"
      using "2.prems"(2) False unfolding t by (auto simp: sorted_append)
    then have "insort ?x (take (Suc j) vals) = take (Suc j) vals @ [?x]"
      using "2.prems"(2) by (intro sorted_insort_is_snoc)
    moreover have "vals = take (Suc j) vals @ ?x # drop (Suc (Suc j)) vals"
      using "2.prems"(1) by (rule id_take_nth_drop)
    ultimately show ?thesis using False by simp
  qed
qed

lemma sort_outer_sort:
  assumes "sorted (take i vals)" "i \<le> length vals"
  shows "sort_outer vals i = sort vals"
  using assms
proof (induction vals i rule: sort_outer.induct)
  case (1 vals i)
  show ?case
  proof (cases "i < length vals")
    case True
    have e: "sort_inner vals i = insort (vals ! i) (take i vals) @ drop (Suc i) vals"
      using True "1.prems"(1) by (rule sort_inner_insort)
    have l: "length (insort (vals ! i) (take i vals)) = i + 1" using True by simp
    have "take (i + 1) (sort_inner vals i) = insort (vals ! i) (take i vals)"
      unfolding e using l by simp
    then have "sorted (take (i + 1) (sort_inner vals i))" using "1.prems"(1) by (simp add: sorted_insort)
    then have IH: "sort_outer (sort_inner vals i) (i + 1) = sort (sort_inner vals i)"
      using 1 True by simp
    have "mset (sort_inner vals i) = mset vals"
    proof -
      have "mset vals = mset (take i vals @ vals ! i # drop (Suc i) vals)"
        using True by (metis id_take_nth_drop)
      then show ?thesis unfolding e by simp
    qed
    then have "sort (sort_inner vals i) = sort vals" by (metis mset_eq_setD properties_for_sort sorted_sort mset_sort)
    with IH True show ?thesis by (subst sort_outer.simps) simp
  next
    case False
    then show ?thesis using "1.prems" by (subst sort_outer.simps) (simp add: sorted_sort_id)
  qed
qed

lemma sortStrings_sort: "sortStrings vals = sort vals"
proof (cases vals)
  case Nil
  then show ?thesis by (simp add: sortStrings_def sort_outer.simps)
next
  case (Cons v vs)
  then show ?thesis unfolding sortStrings_def by (intro sort_outer_sort) simp_all
qed

lemma equal_loop_eq: "length left = length right \<Longrightarrow> equal_loop left right \<longleftrightarrow> left = right"
proof (induction left arbitrary: right)
  case (Cons x left)
  then show ?case by (cases right) auto
qed simp

lemma equalStrings_eq [simp]: "equalStrings left right \<longleftrightarrow> left = right"
  by (auto simp: equalStrings_def equal_loop_eq)

section \<open>Properties\<close>

text \<open>
  C23: The insertion sort that puts object ids, namespaces and retried message ids in order is the
  ascending sort of byte strings: a sorted permutation of its input.
\<close>

theorem sortStrings_correct:
  "sortStrings vals = sort vals \<and> sorted (sortStrings vals) \<and> mset (sortStrings vals) = mset vals"
  by (simp add: sortStrings_sort)

end
