(* ===== verification/Client.thy ===== *)
theory Client
  imports Codec_Roundtrip Sort_Strings
begin

text \<open>
  \<open>client.go\<close>: the client-side state machine.  Every exported method is a function of the clock
  value it samples, its arguments and the state, to an outcome and the next state; the mutex makes
  each of them atomic.  A panic of \<open>mustPayload\<close> is an outcome of its own.
\<close>

text \<open>A value without raw members always encodes, so \<open>mustPayload\<close> never panics on it.\<close>

lemma mustPayload_total: "mustPayload (Some v) = Some (unparse v)"
  by (simp add: mustPayload_def json_Marshal_def)

section \<open>Configuration and state\<close>

record ClientConfig =
  cc_Limits :: Limits
  cc_Capabilities :: "CapabilityOffer list"
  cc_HeartbeatTimeout :: duration
  cc_DisconnectGrace :: duration
  cc_StrictValidation :: bool
  cc_MaxReplayEvents :: uint64
  cc_MaxReplayBytes :: int
  cc_EventIdentityWindow :: uint64
  cc_MaxStateObjects :: int
  cc_MaxStateBytes :: int

definition DefaultClientConfig :: ClientConfig where
  "DefaultClientConfig = \<lparr>cc_Limits = DefaultLimits, cc_Capabilities = [],
     cc_HeartbeatTimeout = 20 * 1000000000, cc_DisconnectGrace = 10 * 1000000000, cc_StrictValidation = True,
     cc_MaxReplayEvents = DefaultMaxReplayEvents, cc_MaxReplayBytes = DefaultMaxReplayBytes,
     cc_EventIdentityWindow = DefaultEventIdentityWindow, cc_MaxStateObjects = DefaultMaxStateCacheObjects,
     cc_MaxStateBytes = DefaultMaxStateCacheBytes\<rparr>"

record PendingPing =
  png_ID :: string
  png_SentAt :: time
  png_Generation :: ConnectionGeneration

record ClientProtocol =
  cl_config :: ClientConfig
  cl_state :: ConnectionState
  cl_generation :: ConnectionGeneration
  cl_sessionID :: string
  cl_lastSeq :: uint64
  cl_eventIDs :: "(uint64, string) gomap"
  cl_outbox :: "(string, Envelope) gomap"
  cl_pendingPing :: "PendingPing option"
  cl_suspectAt :: time
  cl_capabilities :: SessionCapabilities
  cl_stateObjects :: "(StateIdentity, StateObject) gomap"
  cl_stateBytes :: int
  cl_stateQueries :: "(string, StateQueryPayload) gomap"
  cl_replayTo :: uint64
  cl_replayBuffer :: "Envelope list"
  cl_replayBytes :: int
  cl_resumeStateNamespaces :: "string list"
  cl_resumeEventsComplete :: bool
  cl_gapResume :: bool

definition client_defaults :: "ClientConfig \<Rightarrow> Limits \<Rightarrow> CapabilityOffer list \<Rightarrow> ClientConfig" where
  "client_defaults config limits offers = config\<lparr>cc_Limits := limits, cc_Capabilities := offers,
     cc_MaxReplayEvents := (if cc_MaxReplayEvents config = 0 then DefaultMaxReplayEvents else cc_MaxReplayEvents config),
     cc_MaxReplayBytes := (if cc_MaxReplayBytes config = 0 then DefaultMaxReplayBytes else cc_MaxReplayBytes config),
     cc_EventIdentityWindow := (if cc_EventIdentityWindow config = 0 then DefaultEventIdentityWindow else cc_EventIdentityWindow config),
     cc_MaxStateObjects := (if cc_MaxStateObjects config = 0 then DefaultMaxStateCacheObjects else cc_MaxStateObjects config),
     cc_MaxStateBytes := (if cc_MaxStateBytes config = 0 then DefaultMaxStateCacheBytes else cc_MaxStateBytes config)\<rparr>"

definition new_client :: "ClientConfig \<Rightarrow> ClientProtocol" where
  "new_client config = \<lparr>cl_config = config, cl_state = StateDisconnected, cl_generation = 0, cl_sessionID = [],
     cl_lastSeq = 0, cl_eventIDs = [], cl_outbox = [], cl_pendingPing = None, cl_suspectAt = zero_time,
     cl_capabilities = no_capabilities, cl_stateObjects = [], cl_stateBytes = 0, cl_stateQueries = [],
     cl_replayTo = 0, cl_replayBuffer = [], cl_replayBytes = 0, cl_resumeStateNamespaces = [],
     cl_resumeEventsComplete = False, cl_gapResume = False\<rparr>"

definition NewClientProtocol :: "ClientConfig \<Rightarrow> go_error + ClientProtocol" where
  "NewClientProtocol config0 =
     (let limits = normalizeLimits (cc_Limits config0) in
      case validateLimits limits of Some e \<Rightarrow> Inl e | None \<Rightarrow>
      case validateAndCopyCapabilityOffers (cc_Capabilities config0) limits of
        Inl e \<Rightarrow> Inl (WrapError ''kmtproto: invalid client capabilities'' e)
      | Inr offers \<Rightarrow>
          (case validateImplementedCapabilityOffers offers of
             Some e \<Rightarrow> Inl (WrapError ''kmtproto: invalid client capabilities'' e)
           | None \<Rightarrow>
               (let config = client_defaults config0 limits offers in
                if cc_HeartbeatTimeout config \<le> 0 \<or> cc_DisconnectGrace config \<le> 0 then
                  Inl (NewError ''kmtproto: heartbeat durations must be positive'')
                else if cc_MaxReplayBytes config < 0 \<or> cc_MaxStateObjects config < 0 \<or> cc_MaxStateBytes config < 0 then
                  Inl (NewError ''kmtproto: replay and State limits must be positive'')
                else Inr (new_client config))))"

section \<open>Shared transitions\<close>

definition resetConnectionTransientLocked :: "ClientProtocol \<Rightarrow> ClientProtocol" where
  "resetConnectionTransientLocked c = c\<lparr>cl_pendingPing := None, cl_suspectAt := zero_time, cl_stateQueries := [],
     cl_replayBuffer := [], cl_replayTo := 0, cl_replayBytes := 0, cl_resumeStateNamespaces := [],
     cl_resumeEventsComplete := False, cl_gapResume := False\<rparr>"

definition beginRecoveryLocked :: "string list \<Rightarrow> bool \<Rightarrow> ClientProtocol \<Rightarrow> ClientProtocol" where
  "beginRecoveryLocked namespaces gap c =
     (resetConnectionTransientLocked c)\<lparr>cl_state := StateResuming, cl_resumeStateNamespaces := [] @ namespaces,
        cl_gapResume := gap\<rparr>"

definition abandonSessionLocked :: "ClientProtocol \<Rightarrow> ClientProtocol" where
  "abandonSessionLocked c = resetConnectionTransientLocked (c\<lparr>cl_state := StateDisconnected, cl_sessionID := [],
     cl_lastSeq := 0, cl_eventIDs := [], cl_outbox := [], cl_capabilities := no_capabilities,
     cl_stateObjects := [], cl_stateBytes := 0\<rparr>)"

definition rememberEventLocked :: "uint64 \<Rightarrow> string \<Rightarrow> ClientProtocol \<Rightarrow> ClientProtocol" where
  "rememberEventLocked seq eventID c =
     (let ids = map_put seq eventID (cl_eventIDs c); w = cc_EventIdentityWindow (cl_config c) in
      c\<lparr>cl_eventIDs := (if seq > w then map_del (seq - w) ids else ids)\<rparr>)"

definition disconnectLocked :: "ClientProtocol \<Rightarrow> ClientProtocol" where
  "disconnectLocked c = resetConnectionTransientLocked (c\<lparr>cl_state := StateDisconnected\<rparr>)"

definition stop_actions :: "string \<Rightarrow> string \<Rightarrow> string \<Rightarrow> Action list" where
  "stop_actions code reason sessionID =
     [ProtocolErrorAction \<lparr>er_Code = code, er_Message = reason, er_RefID = [], er_Retryable = False\<rparr>,
      FullSyncRequiredAction sessionID, CloseConnectionAction reason]"

definition stopReplayLocked :: "string \<Rightarrow> ClientProtocol \<Rightarrow> Action list \<times> ClientProtocol" where
  "stopReplayLocked reason c = (stop_actions ErrorSyncRequired reason (cl_sessionID c), disconnectLocked c)"

definition stopStateResumeLocked :: "string \<Rightarrow> ClientProtocol \<Rightarrow> Action list \<times> ClientProtocol" where
  "stopStateResumeLocked reason c = (stop_actions ErrorStateSyncRequired reason (cl_sessionID c), disconnectLocked c)"

definition handleIncomingFailureLocked :: "go_error \<Rightarrow> ClientProtocol \<Rightarrow> Action list outcome \<times> ClientProtocol" where
  "handleIncomingFailureLocked err c =
     (if cl_state c \<noteq> StateResuming then (Err err, c)
      else
        (let reason = ''resume failed: '' @ error_text err in
         if cl_resumeStateNamespaces c \<noteq> [] then
           (case stopStateResumeLocked reason c of (actions, c') \<Rightarrow> (Ret actions, c'))
         else
           (case stopReplayLocked reason c of (actions, c') \<Rightarrow> (Ret actions, c'))))"

definition resumeFrameLocked :: "string list \<Rightarrow> time \<Rightarrow> ClientProtocol \<Rightarrow> Envelope" where
  "resumeFrameLocked namespaces now c =
     \<lparr>env_V = WireVersionV2, env_Type = FrameResume, env_ID = [], env_SessionID = cl_sessionID c, env_Seq = 0,
      env_Timestamp = UnixMilli now,
      env_Payload = unparse (ResumePayload_json \<lparr>rp_LastSeq = cl_lastSeq c,
        rp_StateSync = (if namespaces \<noteq> [] then Some \<lparr>rs_Namespaces = [] @ namespaces\<rparr> else None)\<rparr>)\<rparr>"

definition replayEventBytes :: "Envelope \<Rightarrow> int" where
  "replayEventBytes frame = len (env_ID frame) + len (env_SessionID frame) + len (env_Payload frame) + 32"

definition stateObjectBytes :: "StateObject \<Rightarrow> int" where
  "stateObjectBytes object = len (so_Namespace object) + len (so_ObjectID object) + len (so_Data object) + 8"

definition cloneStateQueryPayload :: "StateQueryPayload \<Rightarrow> StateQueryPayload" where
  "cloneStateQueryPayload p = p\<lparr>sq_ObjectIDs := [] @ sq_ObjectIDs p\<rparr>"

text \<open>A frame that leaves the client is validated first.\<close>

abbreviation client_validates :: "ClientProtocol \<Rightarrow> Envelope \<Rightarrow> go_error option" where
  "client_validates c frame \<equiv> validateOutboundFrame (Some frame) (cc_Limits (cl_config c)) (cc_StrictValidation (cl_config c))"

section \<open>Queries\<close>

definition client_State :: "ClientProtocol \<Rightarrow> ConnectionState" where "client_State c = cl_state c"
definition client_Generation :: "ClientProtocol \<Rightarrow> ConnectionGeneration" where "client_Generation c = cl_generation c"
definition client_SessionID :: "ClientProtocol \<Rightarrow> string" where "client_SessionID c = cl_sessionID c"
definition client_LastSeq :: "ClientProtocol \<Rightarrow> uint64" where "client_LastSeq c = cl_lastSeq c"
definition client_Capabilities :: "ClientProtocol \<Rightarrow> NegotiatedCapability list" where
  "client_Capabilities c = Capabilities_List (cl_capabilities c)"
definition client_CapabilityEnabled :: "ClientProtocol \<Rightarrow> string \<Rightarrow> bool" where
  "client_CapabilityEnabled c name = Capabilities_Enabled (cl_capabilities c) name"
definition client_CapabilityVersion :: "ClientProtocol \<Rightarrow> string \<Rightarrow> uint16 option" where
  "client_CapabilityVersion c name = Capabilities_Version (cl_capabilities c) name"
definition client_StateObject :: "ClientProtocol \<Rightarrow> string \<Rightarrow> string \<Rightarrow> StateObject option" where
  "client_StateObject c namespace objectID =
     map_option cloneStateObject (map_get (cl_stateObjects c) (namespace, objectID))"

section \<open>Connection lifecycle\<close>

definition BeginConnect :: "ClientProtocol \<Rightarrow> ConnectionGeneration \<times> ClientProtocol" where
  "BeginConnect c =
     (let c' = resetConnectionTransientLocked (c\<lparr>cl_generation := cl_generation c + 1, cl_state := StateConnecting\<rparr>)
      in (cl_generation c', c'))"

definition TransportConnected :: "ConnectionGeneration \<Rightarrow> ClientProtocol \<Rightarrow> unit outcome \<times> ClientProtocol" where
  "TransportConnected generation c =
     (if generation \<noteq> cl_generation c then (Err ErrStaleConnection, c)
      else if cl_state c \<noteq> StateConnecting then (Err ErrInvalidState, c)
      else (Ret (), c\<lparr>cl_state := StateConnected\<rparr>))"

definition Disconnect :: "ConnectionGeneration \<Rightarrow> ClientProtocol \<Rightarrow> unit outcome \<times> ClientProtocol" where
  "Disconnect generation c =
     (if generation \<noteq> cl_generation c then (Err ErrStaleConnection, c)
      else (Ret (), disconnectLocked c))"

definition hello_frame :: "string \<Rightarrow> ClientProtocol \<Rightarrow> Envelope" where
  "hello_frame clientName c =
     \<lparr>env_V = WireVersionV2, env_Type = FrameHello, env_ID = [], env_SessionID = [], env_Seq = 0, env_Timestamp = 0,
      env_Payload = unparse (HelloPayload_json \<lparr>hp_ClientName = clientName,
        hp_Capabilities = cloneCapabilityOffers (cc_Capabilities (cl_config c))\<rparr>)\<rparr>"

definition StartSession ::
  "ConnectionGeneration \<Rightarrow> string \<Rightarrow> ClientProtocol \<Rightarrow> Action list outcome \<times> ClientProtocol" where
  "StartSession generation clientName c =
     (if generation \<noteq> cl_generation c then (Err ErrStaleConnection, c)
      else if cl_state c \<noteq> StateConnected \<or> cl_sessionID c \<noteq> [] then (Err ErrInvalidState, c)
      else
        (let frame = hello_frame clientName c in
         case client_validates c frame of
           Some e \<Rightarrow> (Err e, c)
         | None \<Rightarrow> (Ret [SendFrameAction frame], c\<lparr>cl_state := StateHandshaking\<rparr>)))"

definition startResumeLocked ::
  "ConnectionGeneration \<Rightarrow> string list \<Rightarrow> time \<Rightarrow> ClientProtocol \<Rightarrow> Action list outcome \<times> ClientProtocol" where
  "startResumeLocked generation namespaces now c =
     (if generation \<noteq> cl_generation c then (Err ErrStaleConnection, c)
      else if cl_state c \<noteq> StateConnected \<or> cl_sessionID c = [] then (Err ErrInvalidState, c)
      else
        (let frame = resumeFrameLocked namespaces now c in
         case client_validates c frame of
           Some e \<Rightarrow> (Err e, c)
         | None \<Rightarrow> (Ret [SendFrameAction frame], beginRecoveryLocked namespaces False c)))"

definition Resume :: "time \<Rightarrow> ConnectionGeneration \<Rightarrow> ClientProtocol \<Rightarrow> Action list outcome \<times> ClientProtocol" where
  "Resume now generation c = startResumeLocked generation [] now c"

definition ResumeWithState ::
  "time \<Rightarrow> ConnectionGeneration \<Rightarrow> string list \<Rightarrow> ClientProtocol \<Rightarrow> Action list outcome \<times> ClientProtocol" where
  "ResumeWithState now generation namespaces c =
     (if generation \<noteq> cl_generation c then (Err ErrStaleConnection, c)
      else if \<not> stateSyncEnabled (cl_capabilities c) then
        (Err (NewProtocolError ErrorProtocolViolation ''state-sync capability version 1 was not negotiated''), c)
      else
        (let canonical = sortStrings ([] @ namespaces) in
         case validateResumeStateSync (Some \<lparr>rs_Namespaces = canonical\<rparr>) (cc_Limits (cl_config c)) of
           Some e \<Rightarrow> (Err e, c)
         | None \<Rightarrow> startResumeLocked generation canonical now c))"

section \<open>Requests\<close>

definition query_frame :: "string \<Rightarrow> StateQueryPayload \<Rightarrow> time \<Rightarrow> ClientProtocol \<Rightarrow> Envelope" where
  "query_frame queryID payload now c =
     \<lparr>env_V = WireVersionV2, env_Type = FrameStateQuery, env_ID = queryID, env_SessionID = cl_sessionID c,
      env_Seq = 0, env_Timestamp = UnixMilli now, env_Payload = unparse (StateQueryPayload_json payload)\<rparr>"

definition QueryState ::
  "time \<Rightarrow> string \<Rightarrow> string \<Rightarrow> string list \<Rightarrow> ClientProtocol \<Rightarrow> Action list outcome \<times> ClientProtocol" where
  "QueryState now queryID namespace objectIDs c =
     (if cl_state c \<noteq> StateReady \<or> cl_sessionID c = [] then (Err ErrInvalidState, c)
      else if \<not> stateSyncEnabled (cl_capabilities c) then
        (Err (NewProtocolError ErrorProtocolViolation ''state-sync capability version 1 was not negotiated''), c)
      else
        (let payload = \<lparr>sq_Namespace = namespace, sq_ObjectIDs = sortStrings ([] @ objectIDs)\<rparr>;
             frame = query_frame queryID payload now c
         in case client_validates c frame of
           Some e \<Rightarrow> (Err e, c)
         | None \<Rightarrow>
             if map_get (cl_stateQueries c) queryID \<noteq> None then
               (Err (NewProtocolError ErrorProtocolViolation ''duplicate pending STATE_QUERY id''), c)
             else (Ret [SendFrameAction frame],
                   c\<lparr>cl_stateQueries := map_put queryID (cloneStateQueryPayload payload) (cl_stateQueries c)\<rparr>)))"

definition EnqueueSend ::
  "time \<Rightarrow> string \<Rightarrow> bytes \<Rightarrow> ClientProtocol \<Rightarrow> Action list outcome \<times> ClientProtocol" where
  "EnqueueSend now messageID content c =
     (let limits = cc_Limits (cl_config c) in
      if cl_state c \<noteq> StateReady \<or> cl_sessionID c = [] then (Err ErrInvalidState, c)
      else if messageID = [] \<or> len messageID > MaxIDLength limits \<or> \<not> json_Valid content then
        (Err (bad_request ''invalid SEND id or content''), c)
      else if len content > MaxPayloadSize limits then
        (Err (bad_request ''SEND content exceeds maximum payload size''), c)
      else if map_get (cl_outbox c) messageID \<noteq> None then
        (Err (NewProtocolError ErrorProtocolViolation ''duplicate local message id''), c)
      else
        (case mustPayload (SendPayload_json \<lparr>sp_Content = [] @ content\<rparr>) of
           None \<Rightarrow> (Panic ''mustPayload'', c)
         | Some payload \<Rightarrow>
             (let frame = \<lparr>env_V = WireVersionV2, env_Type = FrameSend, env_ID = messageID,
                env_SessionID = cl_sessionID c, env_Seq = 0, env_Timestamp = UnixMilli now, env_Payload = payload\<rparr>
              in case client_validates c frame of
                Some e \<Rightarrow> (Err e, c)
              | None \<Rightarrow> (Ret [SendFrameAction frame],
                         c\<lparr>cl_outbox := map_put messageID (copyEnvelope frame) (cl_outbox c)\<rparr>))))"

definition RetryPending :: "ClientProtocol \<Rightarrow> Action list outcome \<times> ClientProtocol" where
  "RetryPending c =
     (if cl_state c \<noteq> StateReady then (Err ErrInvalidState, c)
      else (Ret (map (\<lambda>i. SendFrameAction (copyEnvelope (the (map_get (cl_outbox c) i))))
                   (sortStrings (map fst (cl_outbox c)))), c))"

definition ping_frame :: "string \<Rightarrow> time \<Rightarrow> ClientProtocol \<Rightarrow> Envelope" where
  "ping_frame pingID now c =
     \<lparr>env_V = WireVersionV2, env_Type = FramePing, env_ID = [], env_SessionID = cl_sessionID c, env_Seq = 0,
      env_Timestamp = UnixMilli now,
      env_Payload = unparse (PingPayload_json \<lparr>pp_PingID = pingID, pp_ClientTime = UnixMilli now\<rparr>)\<rparr>"

definition SendPing ::
  "time \<Rightarrow> ConnectionGeneration \<Rightarrow> string \<Rightarrow> ClientProtocol \<Rightarrow> Action list outcome \<times> ClientProtocol" where
  "SendPing now generation pingID c =
     (if generation \<noteq> cl_generation c then (Err ErrStaleConnection, c)
      else if cl_state c \<noteq> StateReady \<or> cl_pendingPing c \<noteq> None \<or> pingID = [] then (Err ErrInvalidState, c)
      else
        (let frame = ping_frame pingID now c in
         case client_validates c frame of
           Some e \<Rightarrow> (Err e, c)
         | None \<Rightarrow> (Ret [SendFrameAction frame],
                    c\<lparr>cl_pendingPing := Some \<lparr>png_ID = pingID, png_SentAt = now, png_Generation = generation\<rparr>\<rparr>)))"

definition CheckHeartbeat ::
  "time \<Rightarrow> ConnectionGeneration \<Rightarrow> ClientProtocol \<Rightarrow> Action list outcome \<times> ClientProtocol" where
  "CheckHeartbeat now generation c =
     (if generation \<noteq> cl_generation c then (Err ErrStaleConnection, c)
      else case cl_pendingPing c of None \<Rightarrow> (Ret [], c) | Some ping \<Rightarrow>
      if cl_state c = StateReady \<and> time_Sub now (png_SentAt ping) \<ge> cc_HeartbeatTimeout (cl_config c) then
        (Ret [], c\<lparr>cl_state := StateSuspect, cl_suspectAt := now\<rparr>)
      else if cl_state c = StateSuspect \<and> time_Sub now (cl_suspectAt c) \<ge> cc_DisconnectGrace (cl_config c) then
        (Ret [CloseConnectionAction ''heartbeat timeout''], disconnectLocked c)
      else (Ret [], c))"

section \<open>Incoming frames\<close>

text \<open>The buffered replay is delivered in order; every delivery advances the sequence.\<close>

fun deliver_replay :: "Envelope list \<Rightarrow> ClientProtocol \<Rightarrow> Action list \<times> ClientProtocol" where
  "deliver_replay [] c = ([], c)"
| "deliver_replay (event # events) c =
     (case deliver_replay events (rememberEventLocked (env_Seq event) (env_ID event) (c\<lparr>cl_lastSeq := env_Seq event\<rparr>)) of
        (actions, c') \<Rightarrow> (DeliverEventAction (copyEnvelope event) # actions, c'))"

definition become_ready :: "ClientProtocol \<Rightarrow> ClientProtocol" where
  "become_ready c = (resetConnectionTransientLocked c)\<lparr>cl_state := StateReady\<rparr>"

fun apply_objects ::
  "ClientConfig \<Rightarrow> StateObject list \<Rightarrow> (StateIdentity, StateObject) gomap \<Rightarrow> int \<Rightarrow>
     go_error + (Action list \<times> (StateIdentity, StateObject) gomap \<times> int)" where
  "apply_objects config [] next nextBytes = Inr ([], next, nextBytes)"
| "apply_objects config (incoming # objects) next nextBytes =
     (let identity = Identity incoming; current = map_get next identity in
      case ApplyStateObject current incoming (cc_Limits config) of (committed, result, err) \<Rightarrow>
      (case err of
         Some e \<Rightarrow>
           if errors_Is e ErrStateStale \<or> errors_Is e ErrStateConflict then
             Inl (newProtocolErrorWithCause ErrorInvalidStateVersion ''State version is stale or conflicting'' e)
           else Inl e
       | None \<Rightarrow>
           if result = StateApplyDuplicate then apply_objects config objects next nextBytes
           else if current = None \<and> len next + 1 > cc_MaxStateObjects config then
             Inl (NewProtocolError ErrorSyncRequired ''State cache exceeds configured object limit'')
           else
             (let nextBytes' = (case current of None \<Rightarrow> nextBytes | Some cur \<Rightarrow> nextBytes - stateObjectBytes cur)
                               + stateObjectBytes committed in
              if nextBytes' > cc_MaxStateBytes config then
                Inl (NewProtocolError ErrorSyncRequired ''State cache exceeds configured byte limit'')
              else ebind (apply_objects config objects (map_put identity committed next) nextBytes')
                (\<lambda>(actions, next', bytes'). Inr (StateChangedAction (cloneStateObject committed) result # actions, next', bytes')))))"

definition applyStateObjectsLocked ::
  "StateObject list \<Rightarrow> ClientProtocol \<Rightarrow> (go_error + Action list) \<times> ClientProtocol" where
  "applyStateObjectsLocked objects c =
     (case apply_objects (cl_config c) objects (cl_stateObjects c) (cl_stateBytes c) of
        Inl e \<Rightarrow> (Inl e, c)
      | Inr (actions, next, nextBytes) \<Rightarrow> (Inr actions, c\<lparr>cl_stateObjects := next, cl_stateBytes := nextBytes\<rparr>))"

abbreviation violation :: "string \<Rightarrow> go_error" where
  "violation m \<equiv> NewProtocolError ErrorProtocolViolation m"

definition handleResumeStateSnapshotLocked ::
  "Envelope \<Rightarrow> ClientProtocol \<Rightarrow> (go_error + Action list) \<times> ClientProtocol" where
  "handleResumeStateSnapshotLocked frame c =
     (if \<not> stateSyncEnabled (cl_capabilities c) \<or> cl_resumeStateNamespaces c = [] then
        (Inl (violation ''unexpected resume STATE_SNAPSHOT''), c)
      else if \<not> cl_resumeEventsComplete c then
        (Inl (violation ''resume STATE_SNAPSHOT arrived before EVENT replay completed''), c)
      else case decodePayload (env_Payload frame) dec_StateSnapshotPayload zero_StateSnapshotPayload
                  (cc_StrictValidation (cl_config c)) of
        Inl e \<Rightarrow> (Inl e, c)
      | Inr payload \<Rightarrow>
          if list_ex (\<lambda>object. so_Namespace object \<notin> set (cl_resumeStateNamespaces c)) (ss_States payload) then
            (Inl (violation ''resume STATE_SNAPSHOT returned an unrequested namespace''), c)
          else (case applyStateObjectsLocked (ss_States payload) c of
            (Inl e, c1) \<Rightarrow>
              (case stopStateResumeLocked ''State snapshot conflicts with retained State'' c1 of
                 (actions, c2) \<Rightarrow> (Inr actions, c2))
          | (Inr stateActions, c1) \<Rightarrow>
              (case deliver_replay (cl_replayBuffer c1) c1 of (events, c2) \<Rightarrow>
                 (Inr (events @ stateActions @ [SessionReadyAction (cl_sessionID c2)]), become_ready c2))))"

fun check_requested :: "StateQueryPayload \<Rightarrow> StateObject list \<Rightarrow> go_error option" where
  "check_requested query [] = None"
| "check_requested query (object # objects) =
     (if so_Namespace object \<noteq> sq_Namespace query then
        Some (violation ''STATE_SNAPSHOT returned another namespace'')
      else if so_ObjectID object \<notin> set (sq_ObjectIDs query) then
        Some (violation ''STATE_SNAPSHOT returned an unrequested object'')
      else check_requested query objects)"

definition handleStateSnapshotLocked ::
  "Envelope \<Rightarrow> ClientProtocol \<Rightarrow> (go_error + Action list) \<times> ClientProtocol" where
  "handleStateSnapshotLocked frame c =
     (if cl_state c = StateResuming then handleResumeStateSnapshotLocked frame c
      else if cl_state c \<noteq> StateReady then (Inl ErrInvalidState, c)
      else if \<not> stateSyncEnabled (cl_capabilities c) then
        (Inl (violation ''STATE_SNAPSHOT requires state-sync capability version 1''), c)
      else case map_get (cl_stateQueries c) (env_ID frame) of
        None \<Rightarrow> (Inl (violation ''STATE_SNAPSHOT does not match a pending query''), c)
      | Some query \<Rightarrow>
          (case decodePayload (env_Payload frame) dec_StateSnapshotPayload zero_StateSnapshotPayload
                  (cc_StrictValidation (cl_config c)) of
             Inl e \<Rightarrow> (Inl e, c)
           | Inr payload \<Rightarrow>
               (case check_requested query (ss_States payload) of
                  Some e \<Rightarrow> (Inl e, c)
                | None \<Rightarrow>
                    (case applyStateObjectsLocked (ss_States payload) c of
                       (Inl e, c1) \<Rightarrow> (Inl e, c1)
                     | (Inr actions, c1) \<Rightarrow>
                         (Inr actions, c1\<lparr>cl_stateQueries := map_del (env_ID frame) (cl_stateQueries c1)\<rparr>)))))"

definition handleStateUpdateLocked ::
  "Envelope \<Rightarrow> ClientProtocol \<Rightarrow> (go_error + Action list) \<times> ClientProtocol" where
  "handleStateUpdateLocked frame c =
     (if cl_state c \<noteq> StateReady then (Inl ErrInvalidState, c)
      else if \<not> stateSyncEnabled (cl_capabilities c) then
        (Inl (violation ''STATE_UPDATE requires state-sync capability version 1''), c)
      else case decodePayload (env_Payload frame) dec_StateUpdatePayload zero_StateUpdatePayload
                  (cc_StrictValidation (cl_config c)) of
        Inl e \<Rightarrow> (Inl e, c)
      | Inr payload \<Rightarrow> applyStateObjectsLocked [su_State payload] c)"

definition welcome_new :: "Envelope \<Rightarrow> WelcomePayload \<Rightarrow> ClientProtocol \<Rightarrow> (go_error + Action list) \<times> ClientProtocol" where
  "welcome_new frame payload c =
     (let limits = cc_Limits (cl_config c) in
      if wp_Mode payload \<noteq> WelcomeModeNew \<or> env_SessionID frame = [] then (Inl (violation ''expected NEW WELCOME''), c)
      else case validateNegotiatedAgainstOffers (cc_Capabilities (cl_config c)) (wp_AcceptedCapabilities payload) limits of
        Some e \<Rightarrow> (Inl e, c)
      | None \<Rightarrow>
          (case NewSessionCapabilities (wp_AcceptedCapabilities payload) limits of
             Inl e \<Rightarrow> (Inl e, c)
           | Inr capabilities \<Rightarrow>
               (Inr [SessionReadyAction (env_SessionID frame)],
                c\<lparr>cl_sessionID := env_SessionID frame, cl_capabilities := capabilities, cl_state := StateReady\<rparr>)))"

definition welcome_resumed :: "Envelope \<Rightarrow> WelcomePayload \<Rightarrow> ClientProtocol \<Rightarrow> (go_error + Action list) \<times> ClientProtocol" where
  "welcome_resumed frame payload c =
     (if wp_Mode payload \<noteq> WelcomeModeResumed \<or> env_SessionID frame \<noteq> cl_sessionID c
         \<or> wp_ResumeFrom payload \<noteq> cl_lastSeq c + 1 \<or> wp_ReplayTo payload < cl_lastSeq c then
        (Inl (violation ''invalid resume acknowledgement''), c)
      else if cl_resumeStateNamespaces c = [] \<and> wp_StateSync payload \<noteq> None then
        (Inl (violation ''unexpected resume state_sync acknowledgement''), c)
      else if cl_resumeStateNamespaces c \<noteq> [] \<and> (case wp_StateSync payload of None \<Rightarrow> True
                | Some s \<Rightarrow> \<not> equalStrings (rs_Namespaces s) (cl_resumeStateNamespaces c)) then
        (Inl (violation ''resume state_sync acknowledgement mismatch''), c)
      else
        (let c1 = c\<lparr>cl_replayTo := wp_ReplayTo payload, cl_replayBuffer := [], cl_replayBytes := 0,
                     cl_resumeEventsComplete := (wp_ReplayTo payload = cl_lastSeq c), cl_gapResume := False\<rparr> in
         if cl_replayTo c1 - cl_lastSeq c1 > cc_MaxReplayEvents (cl_config c1) then
           (case stopReplayLocked ''replay exceeds configured event limit'' c1 of (actions, c2) \<Rightarrow> (Inr actions, c2))
         else if cl_replayTo c1 = cl_lastSeq c1 then
           (if cl_resumeStateNamespaces c1 \<noteq> [] then (Inr [], c1)
            else (Inr [SessionReadyAction (cl_sessionID c1)], become_ready c1))
         else (Inr [], c1)))"

definition handleWelcomeLocked :: "Envelope \<Rightarrow> ClientProtocol \<Rightarrow> (go_error + Action list) \<times> ClientProtocol" where
  "handleWelcomeLocked frame c =
     (case decodePayload (env_Payload frame) dec_WelcomePayload zero_WelcomePayload (cc_StrictValidation (cl_config c)) of
        Inl e \<Rightarrow> (Inl e, c)
      | Inr payload \<Rightarrow>
          (case cl_state c of
             StateHandshaking \<Rightarrow> welcome_new frame payload c
           | StateResuming \<Rightarrow> welcome_resumed frame payload c
           | _ \<Rightarrow> (Inl ErrInvalidState, c)))"

definition handlePongLocked ::
  "ConnectionGeneration \<Rightarrow> Envelope \<Rightarrow> ClientProtocol \<Rightarrow> (go_error + Action list) \<times> ClientProtocol" where
  "handlePongLocked generation frame c =
     (if cl_state c \<noteq> StateReady \<and> cl_state c \<noteq> StateSuspect then (Inl ErrInvalidState, c)
      else case decodePayload (env_Payload frame) dec_PongPayload zero_PongPayload (cc_StrictValidation (cl_config c)) of
        Inl e \<Rightarrow> (Inl e, c)
      | Inr payload \<Rightarrow>
          if (case cl_pendingPing c of None \<Rightarrow> True
              | Some ping \<Rightarrow> po_PingID payload \<noteq> png_ID ping \<or> generation \<noteq> png_Generation ping) then (Inr [], c)
          else (Inr [], c\<lparr>cl_pendingPing := None, cl_suspectAt := zero_time,
                          cl_state := (if cl_state c = StateSuspect then StateReady else cl_state c)\<rparr>))"

definition handleAckLocked :: "Envelope \<Rightarrow> ClientProtocol \<Rightarrow> (go_error + Action list) \<times> ClientProtocol" where
  "handleAckLocked frame c =
     (if cl_state c \<noteq> StateReady \<and> cl_state c \<noteq> StateSuspect then (Inl ErrInvalidState, c)
      else case decodePayload (env_Payload frame) dec_AckPayload zero_AckPayload (cc_StrictValidation (cl_config c)) of
        Inl e \<Rightarrow> (Inl e, c)
      | Inr payload \<Rightarrow>
          if map_get (cl_outbox c) (ap_RefID payload) = None then (Inr [], c)
          else (Inr [AckedAction (ap_RefID payload)], c\<lparr>cl_outbox := map_del (ap_RefID payload) (cl_outbox c)\<rparr>))"

text \<open>An EVENT while resuming, past the identity check.\<close>

definition replay_event :: "Envelope \<Rightarrow> ClientProtocol \<Rightarrow> (go_error + Action list) \<times> ClientProtocol" where
  "replay_event frame c =
     (if cl_replayTo c = 0 then
        (if cl_gapResume c then (Inr [], c) else (Inl (violation ''EVENT arrived before RESUMED WELCOME''), c))
      else if env_Seq frame \<noteq> cl_lastSeq c + of_nat (length (cl_replayBuffer c)) + 1 \<or> env_Seq frame > cl_replayTo c then
        (Inl (violation ''invalid replay sequence''), c)
      else if of_nat (length (cl_replayBuffer c)) + 1 > cc_MaxReplayEvents (cl_config c)
              \<or> replayEventBytes frame > cc_MaxReplayBytes (cl_config c) - cl_replayBytes c then
        (case stopReplayLocked ''replay exceeds configured memory limit'' c of (actions, c') \<Rightarrow> (Inr actions, c'))
      else
        (let c1 = c\<lparr>cl_replayBuffer := cl_replayBuffer c @ [copyEnvelope frame],
                     cl_replayBytes := cl_replayBytes c + replayEventBytes frame\<rparr> in
         if env_Seq frame \<noteq> cl_replayTo c1 then (Inr [], c1)
         else if cl_resumeStateNamespaces c1 \<noteq> [] then (Inr [], c1\<lparr>cl_resumeEventsComplete := True\<rparr>)
         else (case deliver_replay (cl_replayBuffer c1) c1 of (actions, c2) \<Rightarrow>
                 (Inr (actions @ [SessionReadyAction (cl_sessionID c2)]), become_ready c2))))"

text \<open>A live EVENT: the next one is delivered, a later one exposes a gap.\<close>

definition live_event :: "Envelope \<Rightarrow> time \<Rightarrow> ClientProtocol \<Rightarrow> (go_error + Action list) \<times> ClientProtocol" where
  "live_event frame now c =
     (if env_Seq frame > cl_lastSeq c + 1 then
        (let resume = resumeFrameLocked [] now c in
         case client_validates c resume of
           Some e \<Rightarrow> (Inl e, c)
         | None \<Rightarrow> (Inr [SendFrameAction resume], beginRecoveryLocked [] True c))
      else (Inr [DeliverEventAction (copyEnvelope frame)],
            rememberEventLocked (env_Seq frame) (env_ID frame) (c\<lparr>cl_lastSeq := env_Seq frame\<rparr>)))"

definition handleEventLocked :: "Envelope \<Rightarrow> time \<Rightarrow> ClientProtocol \<Rightarrow> (go_error + Action list) \<times> ClientProtocol" where
  "handleEventLocked frame now c =
     (if cl_state c \<noteq> StateReady \<and> cl_state c \<noteq> StateResuming then (Inl ErrInvalidState, c)
      else if env_Seq frame \<le> cl_lastSeq c then
        (case map_get (cl_eventIDs c) (env_Seq frame) of
           None \<Rightarrow> (Inl ErrIdentityExpired, c)
         | Some knownID \<Rightarrow> if knownID = env_ID frame then (Inr [], c) else (Inl ErrProtocolConflict, c))
      else if cl_state c = StateResuming then replay_event frame c
      else live_event frame now c)"

definition handleErrorLocked :: "Envelope \<Rightarrow> ClientProtocol \<Rightarrow> (go_error + Action list) \<times> ClientProtocol" where
  "handleErrorLocked frame c =
     (case decodePayload (env_Payload frame) dec_ErrorPayload zero_ErrorPayload (cc_StrictValidation (cl_config c)) of
        Inl e \<Rightarrow> (Inr [CloseConnectionAction ''invalid ERROR frame''], disconnectLocked c)
      | Inr payload \<Rightarrow>
          (let c0 = (if er_RefID payload \<noteq> [] then c\<lparr>cl_stateQueries := map_del (er_RefID payload) (cl_stateQueries c)\<rparr> else c);
               behavior = fst (BehaviorForErrorCode (er_Code payload));
               wasResuming = (cl_state c0 = StateResuming);
               stateRecovery = (cl_resumeStateNamespaces c0 \<noteq> []);
               fullSync = (eb_FullSyncRequired behavior \<or> eb_AbandonSession behavior
                             \<or> (stateRecovery \<and> er_Code payload = ErrorStateSyncRequired));
               needClose = (eb_CloseConnection behavior \<or> (wasResuming \<and> \<not> fullSync));
               c1 = (if wasResuming then disconnectLocked c0 else c0);
               c2 = (if eb_AbandonSession behavior then abandonSessionLocked c1 else c1);
               c3 = (if needClose then disconnectLocked c2 else c2)
           in (Inr ([ProtocolErrorAction payload]
                    @ (if wasResuming \<and> fullSync then [FullSyncRequiredAction (cl_sessionID c0)] else [])
                    @ (if needClose then [CloseConnectionAction (er_Code payload)] else [])), c3)))"

definition dispatch_incoming ::
  "ConnectionGeneration \<Rightarrow> Envelope \<Rightarrow> time \<Rightarrow> ClientProtocol \<Rightarrow> (go_error + Action list) \<times> ClientProtocol" where
  "dispatch_incoming generation frame now c =
     (if env_Type frame = FrameWelcome then handleWelcomeLocked frame c
      else if env_Type frame = FramePong then handlePongLocked generation frame c
      else if env_Type frame = FrameAck then handleAckLocked frame c
      else if env_Type frame = FrameEvent then handleEventLocked frame now c
      else if env_Type frame = FrameStateSnapshot then handleStateSnapshotLocked frame c
      else if env_Type frame = FrameStateUpdate then handleStateUpdateLocked frame c
      else if env_Type frame = FrameError then handleErrorLocked frame c
      else (Inl (violation ''unexpected server frame type''), c))"

definition wrong_session :: "Envelope \<Rightarrow> ClientProtocol \<Rightarrow> go_error option" where
  "wrong_session frame c =
     (if env_Type frame = FrameWelcome then None
      else if env_Type frame = FrameError then
        guard_err (env_SessionID frame \<noteq> [] \<and> env_SessionID frame \<noteq> cl_sessionID c)
          (violation ''ERROR belongs to another session'')
      else guard_err (env_SessionID frame \<noteq> cl_sessionID c) (violation ''frame belongs to another session''))"

definition HandleIncoming ::
  "time \<Rightarrow> ConnectionGeneration \<Rightarrow> Envelope \<Rightarrow> ClientProtocol \<Rightarrow> Action list outcome \<times> ClientProtocol" where
  "HandleIncoming now generation frame c =
     (if generation \<noteq> cl_generation c then (Err ErrStaleConnection, c)
      else case ValidateFrame (Some frame) (cc_Limits (cl_config c)) (cc_StrictValidation (cl_config c)) of
        Some err \<Rightarrow>
          if env_Type frame = FrameError
          then (Ret [CloseConnectionAction ''invalid ERROR frame''], disconnectLocked c)
          else handleIncomingFailureLocked err c
      | None \<Rightarrow>
          (case wrong_session frame c of
             Some err \<Rightarrow> handleIncomingFailureLocked err c
           | None \<Rightarrow>
               (case dispatch_incoming generation frame now c of
                  (Inl err, c1) \<Rightarrow> handleIncomingFailureLocked err c1
                | (Inr actions, c1) \<Rightarrow> (Ret actions, c1))))"

end
