(* ===== verification/Go_Map.thy ===== *)
theory Go_Map
  imports Prelude
begin

text \<open>
  Sizes, sums and membership of Go maps under insertion and deletion.
\<close>

lemma map_ok_Cons [simp]: "map_ok ((k, v) # m) \<longleftrightarrow> k \<notin> fst ` set m \<and> map_ok m"
  by (simp add: map_ok_def)

lemma map_ok_set: "map_ok m \<Longrightarrow> (k, v) \<in> set m \<longleftrightarrow> map_get m k = Some v"
  by (simp add: map_ok_def)

lemma map_get_None: "map_get m k = None \<longleftrightarrow> k \<notin> fst ` set m"
  by (rule map_of_eq_None_iff)

lemma len_put: "len (map_put k v m) = len m + (if map_get m k = None then 1 else 0)"
  by (induction m) auto

lemma len_del: "map_ok m \<Longrightarrow> len (map_del k m) = len m - (if map_get m k = None then 0 else 1)"
proof (induction m)
  case (Cons kv m)
  then show ?case
    by (cases kv) (auto simp: map_get_None AList.delete_id)
qed simp

lemma sum_put:
  fixes f :: "'v \<Rightarrow> int"
  shows "map_ok m \<Longrightarrow> sum_list (map (f \<circ> snd) (map_put k v m)) =
    sum_list (map (f \<circ> snd) m) - (case map_get m k of None \<Rightarrow> 0 | Some w \<Rightarrow> f w) + f v"
  by (induction m) auto

text \<open>A property of all entries, by lookup.\<close>

definition map_all :: "('k \<Rightarrow> 'v \<Rightarrow> bool) \<Rightarrow> ('k, 'v) gomap \<Rightarrow> bool" where
  "map_all P m \<longleftrightarrow> (\<forall>k v. map_get m k = Some v \<longrightarrow> P k v)"

lemma map_all_put: "map_all P m \<Longrightarrow> P k v \<Longrightarrow> map_all P (map_put k v m)"
  by (simp add: map_all_def)

lemma map_all_del: "map_all P m \<Longrightarrow> map_all P (map_del k m)"
  by (simp add: map_all_def)

lemma map_all_Nil [simp]: "map_all P []"
  by (simp add: map_all_def)

lemma map_all_get: "map_all P m \<Longrightarrow> map_get m k = Some v \<Longrightarrow> P k v"
  by (simp add: map_all_def)

lemma map_all_set: "map_ok m \<Longrightarrow> map_all P m \<longleftrightarrow> (\<forall>(k, v)\<in>set m. P k v)"
  by (auto simp: map_all_def map_ok_set)

lemma map_put_eq_Nil [simp]: "map_put k v m \<noteq> []"
  by (cases m) auto

end
