(* ===== verification/Client_Inv.thy ===== *)
theory Client_Inv
  imports Client Go_Map
begin

text \<open>
  The invariant of the client state machine and that every method keeps it, on every branch.
\<close>

section \<open>The invariant\<close>

definition config_ok :: "ClientConfig \<Rightarrow> bool" where
  "config_ok cfg \<longleftrightarrow> validateLimits (cc_Limits cfg) = None \<and> cc_MaxReplayEvents cfg \<noteq> 0 \<and> 0 < cc_MaxReplayBytes cfg
     \<and> cc_EventIdentityWindow cfg \<noteq> 0 \<and> 0 < cc_MaxStateObjects cfg \<and> 0 < cc_MaxStateBytes cfg
     \<and> 0 < cc_HeartbeatTimeout cfg \<and> 0 < cc_DisconnectGrace cfg"

text \<open>The retained identities are exactly those of the last \<open>EventIdentityWindow\<close> sequence numbers.\<close>

definition ids_ok :: "ClientProtocol \<Rightarrow> bool" where
  "ids_ok c \<longleftrightarrow> map_ok (cl_eventIDs c) \<and>
     (\<forall>s. map_get (cl_eventIDs c) s \<noteq> None \<longleftrightarrow>
        0 < unat s \<and> unat s \<le> unat (cl_lastSeq c)
        \<and> unat (cl_lastSeq c) < unat s + unat (cc_EventIdentityWindow (cl_config c)))"

definition frame_ok :: "ClientConfig \<Rightarrow> Envelope \<Rightarrow> bool" where
  "frame_ok cfg f \<longleftrightarrow> ValidateFrame (Some f) (cc_Limits cfg) (cc_StrictValidation cfg) = None"

definition cache_bytes :: "(StateIdentity, StateObject) gomap \<Rightarrow> int" where
  "cache_bytes m = sum_list (map (stateObjectBytes \<circ> snd) m)"

definition objects_ok :: "ClientConfig \<Rightarrow> (StateIdentity, StateObject) gomap \<Rightarrow> int \<Rightarrow> bool" where
  "objects_ok cfg m n \<longleftrightarrow> map_ok m \<and> map_all (\<lambda>i x. Identity x = i \<and> state_ok (cc_Limits cfg) x) m
     \<and> n = cache_bytes m \<and> len m \<le> cc_MaxStateObjects cfg \<and> n \<le> cc_MaxStateBytes cfg"

definition cache_ok :: "ClientProtocol \<Rightarrow> bool" where
  "cache_ok c \<longleftrightarrow> objects_ok (cl_config c) (cl_stateObjects c) (cl_stateBytes c)"

definition outbox_ok :: "ClientProtocol \<Rightarrow> bool" where
  "outbox_ok c \<longleftrightarrow> map_ok (cl_outbox c) \<and> map_all (\<lambda>i f. env_ID f = i \<and> env_Type f = FrameSend
     \<and> env_SessionID f = cl_sessionID c \<and> frame_ok (cl_config c) f) (cl_outbox c)"

definition no_session_ok :: "ClientProtocol \<Rightarrow> bool" where
  "no_session_ok c \<longleftrightarrow> (cl_sessionID c = [] \<longrightarrow> cl_lastSeq c = 0 \<and> cl_eventIDs c = [] \<and> cl_outbox c = []
     \<and> cl_stateObjects c = [] \<and> cl_capabilities c = no_capabilities)"

definition data_inv :: "ClientProtocol \<Rightarrow> bool" where
  "data_inv c \<longleftrightarrow> config_ok (cl_config c) \<and> ids_ok c \<and> cache_ok c \<and> outbox_ok c \<and> no_session_ok c"

definition ping_ok :: "ClientProtocol \<Rightarrow> bool" where
  "ping_ok c \<longleftrightarrow> (case cl_pendingPing c of None \<Rightarrow> cl_state c \<noteq> StateSuspect
     | Some p \<Rightarrow> cl_state c \<in> {StateReady, StateSuspect} \<and> png_Generation p = cl_generation c \<and> png_ID p \<noteq> [])"

definition queries_ok :: "ClientProtocol \<Rightarrow> bool" where
  "queries_ok c \<longleftrightarrow> map_ok (cl_stateQueries c) \<and> (cl_stateQueries c \<noteq> [] \<longrightarrow>
     cl_state c \<in> {StateReady, StateSuspect} \<and> stateSyncEnabled (cl_capabilities c))"

definition idle_replay :: "ClientProtocol \<Rightarrow> bool" where
  "idle_replay c \<longleftrightarrow> cl_replayTo c = 0 \<and> cl_replayBuffer c = [] \<and> cl_replayBytes c = 0
     \<and> cl_resumeStateNamespaces c = [] \<and> \<not> cl_resumeEventsComplete c \<and> \<not> cl_gapResume c"

text \<open>While resuming, the buffer holds the events right after the last delivered one.\<close>

definition replay_run :: "ClientProtocol \<Rightarrow> bool" where
  "replay_run c \<longleftrightarrow>
     map (unat \<circ> env_Seq) (cl_replayBuffer c) =
       [Suc (unat (cl_lastSeq c)) ..< Suc (unat (cl_lastSeq c) + length (cl_replayBuffer c))]
     \<and> cl_replayBytes c = sum_list (map replayEventBytes (cl_replayBuffer c))
     \<and> cl_replayBytes c \<le> cc_MaxReplayBytes (cl_config c)
     \<and> length (cl_replayBuffer c) \<le> unat (cc_MaxReplayEvents (cl_config c))
     \<and> (\<forall>f\<in>set (cl_replayBuffer c). env_Type f = FrameEvent \<and> env_SessionID f = cl_sessionID c \<and> frame_ok (cl_config c) f)"

definition replay_bounds :: "ClientProtocol \<Rightarrow> bool" where
  "replay_bounds c \<longleftrightarrow> (cl_replayTo c = 0 \<longrightarrow> cl_replayBuffer c = [])
     \<and> (cl_replayTo c \<noteq> 0 \<longrightarrow> \<not> cl_gapResume c
          \<and> unat (cl_lastSeq c) + length (cl_replayBuffer c) \<le> unat (cl_replayTo c)
          \<and> (cl_resumeEventsComplete c \<longleftrightarrow> unat (cl_lastSeq c) + length (cl_replayBuffer c) = unat (cl_replayTo c)))
     \<and> (cl_resumeEventsComplete c \<longrightarrow> cl_resumeStateNamespaces c \<noteq> [])
     \<and> (cl_gapResume c \<longrightarrow> cl_resumeStateNamespaces c = [])"

definition replay_ok :: "ClientProtocol \<Rightarrow> bool" where
  "replay_ok c \<longleftrightarrow> (if cl_state c = StateResuming then replay_run c \<and> replay_bounds c else idle_replay c)"

definition session_ok :: "ClientProtocol \<Rightarrow> bool" where
  "session_ok c \<longleftrightarrow> (cl_state c \<in> {StateReady, StateSuspect, StateResuming} \<longrightarrow> cl_sessionID c \<noteq> [])
     \<and> (cl_state c = StateHandshaking \<longrightarrow> cl_sessionID c = [])"

definition conn_inv :: "ClientProtocol \<Rightarrow> bool" where
  "conn_inv c \<longleftrightarrow> ping_ok c \<and> queries_ok c \<and> replay_ok c \<and> session_ok c"

definition client_inv :: "ClientProtocol \<Rightarrow> bool" where
  "client_inv c \<longleftrightarrow> data_inv c \<and> conn_inv c"

named_theorems client_defs \<open>unfolding of the client's shared transitions\<close>

lemmas [client_defs] = resetConnectionTransientLocked_def beginRecoveryLocked_def abandonSessionLocked_def
  disconnectLocked_def become_ready_def stopReplayLocked_def stopStateResumeLocked_def

lemmas data_defs = data_inv_def ids_ok_def cache_ok_def outbox_ok_def no_session_ok_def
lemmas conn_defs = conn_inv_def ping_ok_def queries_ok_def replay_ok_def replay_run_def replay_bounds_def
  idle_replay_def session_ok_def

lemma unat64_less: "unat w < 2 ^ 64" for w :: uint64
proof -
  have "unat w < 2 ^ LENGTH(64)" by (rule unsigned_less)
  then show ?thesis by simp
qed

lemma cloneStateQueryPayload_id [simp]: "cloneStateQueryPayload p = p"
  by (simp add: cloneStateQueryPayload_def)

section \<open>Shared transitions\<close>

lemma data_inv_conn:
  "data_inv (resetConnectionTransientLocked c) \<longleftrightarrow> data_inv c"
  "data_inv (disconnectLocked c) \<longleftrightarrow> data_inv c"
  "data_inv (beginRecoveryLocked ns gap c) \<longleftrightarrow> data_inv c"
  "data_inv (become_ready c) \<longleftrightarrow> data_inv c"
  "data_inv (c\<lparr>cl_state := s\<rparr>) \<longleftrightarrow> data_inv c"
  by (simp_all add: data_defs client_defs)

lemma inv_disconnect: "data_inv c \<Longrightarrow> client_inv (disconnectLocked c)"
  by (simp add: client_inv_def data_inv_conn) (simp add: conn_defs client_defs)

lemma inv_become_ready: "data_inv c \<Longrightarrow> cl_sessionID c \<noteq> [] \<Longrightarrow> client_inv (become_ready c)"
  by (simp add: client_inv_def data_inv_conn) (simp add: conn_defs client_defs)

lemma inv_beginRecovery:
  "data_inv c \<Longrightarrow> cl_sessionID c \<noteq> [] \<Longrightarrow> gap \<longrightarrow> ns = [] \<Longrightarrow> client_inv (beginRecoveryLocked ns gap c)"
  by (simp add: client_inv_def data_inv_conn) (simp add: conn_defs client_defs data_inv_def config_ok_def)

lemma inv_abandon: "data_inv c \<Longrightarrow> client_inv (abandonSessionLocked c)"
  by (auto simp: client_inv_def data_defs conn_defs client_defs config_ok_def objects_ok_def cache_bytes_def)

section \<open>Delivering events\<close>

lemma remember_ids:
  assumes "ids_ok c" "cc_EventIdentityWindow (cl_config c) \<noteq> 0" "unat s = Suc (unat (cl_lastSeq c))"
  shows "ids_ok (rememberEventLocked s i (c\<lparr>cl_lastSeq := s\<rparr>))"
proof -
  let ?w = "cc_EventIdentityWindow (cl_config c)"
  have w: "0 < unat ?w" using assms(2) by (simp add: unat_gt_0)
  have eq: "t = s - ?w \<longleftrightarrow> unat t + unat ?w = unat s" if "?w < s" for t
  proof -
    have "unat (s - ?w) = unat s - unat ?w" "unat ?w < unat s" using that by (simp_all add: word_nat)
    then show ?thesis by (auto simp: word_unat_eq_iff)
  qed
  have old: "map_get (cl_eventIDs c) t \<noteq> None \<longleftrightarrow>
      0 < unat t \<and> unat t \<le> unat (cl_lastSeq c) \<and> unat (cl_lastSeq c) < unat t + unat ?w" for t
    using assms(1) by (simp add: ids_ok_def)
  have ne: "t = s \<longleftrightarrow> unat t = Suc (unat (cl_lastSeq c))" for t
    using assms(3) by (simp add: word_unat_eq_iff)
  show ?thesis
  proof (cases "?w < s")
    case True
    then have "unat ?w < unat s" by (simp add: word_nat)
    then show ?thesis
      using assms(1,3) True w
      by (auto simp: ids_ok_def rememberEventLocked_def Let_def eq [OF True] ne)
  next
    case False
    then have "unat s \<le> unat ?w" by (simp add: word_nat)
    then show ?thesis
      using assms(1,3) False w
      by (auto simp: ids_ok_def rememberEventLocked_def Let_def ne)
  qed
qed

lemma data_inv_deliver:
  assumes "data_inv c" "cl_sessionID c \<noteq> []" "unat s = Suc (unat (cl_lastSeq c))"
  shows "data_inv (rememberEventLocked s i (c\<lparr>cl_lastSeq := s\<rparr>))"
proof -
  have "ids_ok (rememberEventLocked s i (c\<lparr>cl_lastSeq := s\<rparr>))"
    using assms by (intro remember_ids) (simp_all add: data_inv_def config_ok_def)
  with assms(1,2) show ?thesis
    by (simp add: data_inv_def cache_ok_def outbox_ok_def no_session_ok_def rememberEventLocked_def Let_def)
qed

lemma run_Cons:
  "map f (e # es) = [Suc n ..< Suc (n + length (e # es))] \<longleftrightarrow>
     f e = Suc n \<and> map f es = [Suc (Suc n) ..< Suc (Suc n + length es)]"
  by (simp del: upt_Suc add: upt_conv_Cons)

lemma run_snoc:
  "map f (es @ [e]) = [Suc n ..< Suc (n + length (es @ [e]))] \<longleftrightarrow>
     map f es = [Suc n ..< Suc (n + length es)] \<and> f e = Suc (n + length es)"
  by auto

text \<open>What delivering a run of events changes.\<close>

lemma deliver_replay_run:
  assumes "data_inv c" "cl_sessionID c \<noteq> []"
    and "map (unat \<circ> env_Seq) es = [Suc (unat (cl_lastSeq c)) ..< Suc (unat (cl_lastSeq c) + length es)]"
  shows "fst (deliver_replay es c) = map DeliverEventAction es \<and> data_inv (snd (deliver_replay es c))
    \<and> unat (cl_lastSeq (snd (deliver_replay es c))) = unat (cl_lastSeq c) + length es
    \<and> (\<exists>ids n. snd (deliver_replay es c) = c\<lparr>cl_lastSeq := n, cl_eventIDs := ids\<rparr>)"
  using assms
proof (induction es c rule: deliver_replay.induct)
  case (1 c)
  have "c = c\<lparr>cl_lastSeq := cl_lastSeq c, cl_eventIDs := cl_eventIDs c\<rparr>" by simp
  then have "\<exists>ids n. c = c\<lparr>cl_lastSeq := n, cl_eventIDs := ids\<rparr>" by blast
  with 1 show ?case by simp
next
  case (2 e es c)
  let ?c = "rememberEventLocked (env_Seq e) (env_ID e) (c\<lparr>cl_lastSeq := env_Seq e\<rparr>)"
  have s: "unat (env_Seq e) = Suc (unat (cl_lastSeq c))"
    and es: "map (unat \<circ> env_Seq) es = [Suc (Suc (unat (cl_lastSeq c))) ..< Suc (Suc (unat (cl_lastSeq c)) + length es)]"
    using "2.prems"(3) unfolding run_Cons by (simp_all del: upt_Suc)
  have ls: "cl_lastSeq ?c = env_Seq e" "cl_sessionID ?c = cl_sessionID c"
    by (simp_all add: rememberEventLocked_def Let_def)
  have "data_inv ?c" using "2.prems"(1,2) s by (rule data_inv_deliver)
  moreover have "map (unat \<circ> env_Seq) es = [Suc (unat (cl_lastSeq ?c)) ..< Suc (unat (cl_lastSeq ?c) + length es)]"
    using es s ls by (simp del: upt_Suc)
  moreover have "cl_sessionID ?c \<noteq> []" using ls "2.prems"(2) by simp
  ultimately have IH: "fst (deliver_replay es ?c) = map DeliverEventAction es" "data_inv (snd (deliver_replay es ?c))"
      "unat (cl_lastSeq (snd (deliver_replay es ?c))) = unat (cl_lastSeq ?c) + length es"
      "\<exists>ids n. snd (deliver_replay es ?c) = ?c\<lparr>cl_lastSeq := n, cl_eventIDs := ids\<rparr>"
    using "2.IH" by blast+
  have "snd (deliver_replay (e # es) c) = snd (deliver_replay es ?c)"
    and "fst (deliver_replay (e # es) c) = DeliverEventAction e # fst (deliver_replay es ?c)"
    by (simp_all split: prod.split)
  moreover have "\<exists>ids n. snd (deliver_replay es ?c) = c\<lparr>cl_lastSeq := n, cl_eventIDs := ids\<rparr>"
    using IH(4) by (auto simp: rememberEventLocked_def Let_def)
  ultimately show ?case using IH(1-3) ls s by simp
qed

section \<open>The State cache\<close>

lemma Apply_None: "ApplyStateObject cur inc limits = (x, res, None) \<Longrightarrow> state_ok limits inc
    \<and> (res = StateApplyApplied \<and> x = inc \<or> res = StateApplyDuplicate \<and> cur = Some x)"
  by (auto simp: ApplyStateObject_def state_ok_def Let_def cloneStateObject_def
      split: option.splits if_splits sum.splits bool.splits)

lemma objects_ok_put:
  assumes "objects_ok cfg m n" "state_ok (cc_Limits cfg) x"
    and "map_get m (Identity x) = None \<longrightarrow> len m + 1 \<le> cc_MaxStateObjects cfg"
    and "n' = (case map_get m (Identity x) of None \<Rightarrow> n | Some y \<Rightarrow> n - stateObjectBytes y) + stateObjectBytes x"
    and "n' \<le> cc_MaxStateBytes cfg"
  shows "objects_ok cfg (map_put (Identity x) x m) n'"
proof -
  have ok: "map_ok m" using assms(1) by (simp add: objects_ok_def)
  have "n' = cache_bytes (map_put (Identity x) x m)"
    using assms(1,4) by (simp add: objects_ok_def cache_bytes_def sum_put [OF ok] split: option.splits)
  with assms show ?thesis
    by (auto simp: objects_ok_def len_put map_ok_put intro!: map_all_put)
qed

lemma apply_objects_ok:
  "objects_ok cfg m n \<Longrightarrow> apply_objects cfg xs m n = Inr (acts, m', n') \<Longrightarrow>
     objects_ok cfg m' n' \<and> (\<forall>a\<in>set acts. \<exists>x. a = StateChangedAction x StateApplyApplied \<and> x \<in> set xs)"
proof (induction cfg xs m n arbitrary: acts rule: apply_objects.induct)
  case (2 cfg x xs m n)
  obtain y res err where a: "ApplyStateObject (map_get m (Identity x)) x (cc_Limits cfg) = (y, res, err)"
    by (metis prod_cases3)
  then have e: "err = None" using "2.prems"(2) by (cases err) (auto simp: Let_def split: if_splits)
  note r = Apply_None [OF a [unfolded e]]
  show ?case
  proof (cases "res = StateApplyDuplicate")
    case True
    then have "apply_objects cfg xs m n = Inr (acts, m', n')" using "2.prems"(2) a e by (simp add: Let_def)
    from "2.IH"(1) [OF refl refl a [symmetric] refl e True "2.prems"(1) this] show ?thesis by auto
  next
    case False
    let ?n = "(case map_get m (Identity x) of None \<Rightarrow> n | Some cur \<Rightarrow> n - stateObjectBytes cur) + stateObjectBytes x"
    from False r have y: "y = x" "res = StateApplyApplied" "state_ok (cc_Limits cfg) x" by auto
    from "2.prems"(2) a e False y(1,2) obtain acts' where
        lim: "map_get m (Identity x) = None \<longrightarrow> len m + 1 \<le> cc_MaxStateObjects cfg" "?n \<le> cc_MaxStateBytes cfg"
        and rec: "apply_objects cfg xs (map_put (Identity x) x m) ?n = Inr (acts', m', n')"
        and acts: "acts = StateChangedAction x StateApplyApplied # acts'"
      by (auto simp: Let_def ebind_Inr split: if_splits)
    have ok: "objects_ok cfg (map_put (Identity x) x m) ?n"
      using "2.prems"(1) y(3) lim by (intro objects_ok_put) auto
    have l1: "\<not> (map_get m (Identity x) = None \<and> cc_MaxStateObjects cfg < len m + 1)"
      and l2: "\<not> cc_MaxStateBytes cfg < ?n" using lim by auto
    from "2.IH"(2) [OF refl refl a [symmetric, unfolded y(1)] refl e False l1 refl l2 ok rec] acts
    show ?thesis by auto
  qed
qed simp

end
