(* ===== verification/Client_Step.thy ===== *)
theory Client_Step
  imports Client_Inv
begin

text \<open>
  One call on the client: it keeps the invariant, extends the delivered events by exactly the ones it
  delivers, in order, and sends only valid frames of its session.
\<close>

section \<open>What an observer sees\<close>

text \<open>The events delivered in the current session: an INVALID_SESSION error starts a new history.\<close>

definition observe :: "Envelope list \<Rightarrow> Action \<Rightarrow> Envelope list" where
  "observe h a = (case a of
     DeliverEventAction e \<Rightarrow> h @ [e]
   | ProtocolErrorAction p \<Rightarrow> if er_Code p = ErrorInvalidSession then [] else h
   | _ \<Rightarrow> h)"

definition history_ok :: "Envelope list \<Rightarrow> ClientProtocol \<Rightarrow> bool" where
  "history_ok h c \<longleftrightarrow> map (unat \<circ> env_Seq) h = [1 ..< Suc (unat (cl_lastSeq c))]
     \<and> (\<forall>e\<in>set h. env_Type e = FrameEvent \<and> env_SessionID e = cl_sessionID c \<and> frame_ok (cl_config c) e
          \<and> (\<forall>i. map_get (cl_eventIDs c) (env_Seq e) = Some i \<longrightarrow> i = env_ID e))"

definition sent_ok :: "ClientProtocol \<Rightarrow> Action \<Rightarrow> bool" where
  "sent_ok c a \<longleftrightarrow> (case a of
     SendFrameAction f \<Rightarrow> frame_ok (cl_config c) f \<and> (env_Type f = FrameHello \<or> env_SessionID f = cl_sessionID c)
   | _ \<Rightarrow> True)"

definition step_ok :: "ClientProtocol \<Rightarrow> Action list \<Rightarrow> ClientProtocol \<Rightarrow> bool" where
  "step_ok c acts c' \<longleftrightarrow> client_inv c' \<and> cl_config c' = cl_config c
     \<and> (\<forall>h. history_ok h c \<longrightarrow> history_ok (foldl observe h acts) c') \<and> list_all (sent_ok c) acts"

text \<open>Actions that neither deliver an event nor end the session.\<close>

definition quiet :: "Action \<Rightarrow> bool" where
  "quiet a \<longleftrightarrow> (case a of DeliverEventAction e \<Rightarrow> False
     | ProtocolErrorAction p \<Rightarrow> er_Code p \<noteq> ErrorInvalidSession | _ \<Rightarrow> True)"

lemma observe_quiet: "list_all quiet acts \<Longrightarrow> foldl observe h acts = h"
  by (induction acts) (auto simp: quiet_def observe_def split: Action.splits)

lemma observe_deliver: "foldl observe h (map DeliverEventAction es) = h @ es"
  by (induction es arbitrary: h) (simp_all add: observe_def)

definition same_data :: "ClientProtocol \<Rightarrow> ClientProtocol \<Rightarrow> bool" where
  "same_data c c' \<longleftrightarrow> cl_config c' = cl_config c \<and> cl_lastSeq c' = cl_lastSeq c
     \<and> cl_eventIDs c' = cl_eventIDs c \<and> cl_sessionID c' = cl_sessionID c"

lemma same_data_simps [simp]:
  "same_data c c" "same_data c (disconnectLocked c)" "same_data c (become_ready c)"
  "same_data c (beginRecoveryLocked ns gap c)" "same_data c (resetConnectionTransientLocked c)"
  by (simp_all add: same_data_def client_defs)

lemma step_quiet:
  "client_inv c' \<Longrightarrow> same_data c c' \<Longrightarrow> list_all quiet acts \<Longrightarrow> list_all (sent_ok c) acts \<Longrightarrow> step_ok c acts c'"
  by (auto simp: step_ok_def same_data_def history_ok_def observe_quiet)

lemma step_none: "client_inv c \<Longrightarrow> step_ok c [] c"
  by (rule step_quiet) simp_all

section \<open>Deliveries\<close>

lemma history_deliver:
  assumes "history_ok h c" "unat (env_Seq e) = Suc (unat (cl_lastSeq c))"
    and "env_Type e = FrameEvent" "env_SessionID e = cl_sessionID c" "frame_ok (cl_config c) e"
  shows "history_ok (h @ [e]) (rememberEventLocked (env_Seq e) (env_ID e) (c\<lparr>cl_lastSeq := env_Seq e\<rparr>))"
proof -
  have "unat (env_Seq x) \<le> unat (cl_lastSeq c)" if "x \<in> set h" for x
  proof -
    have "unat (env_Seq x) \<in> set (map (unat \<circ> env_Seq) h)" using that by force
    also have "map (unat \<circ> env_Seq) h = [1 ..< Suc (unat (cl_lastSeq c))]"
      using assms(1) unfolding history_ok_def by blast
    finally show ?thesis by (simp del: upt_Suc)
  qed
  then have "env_Seq x \<noteq> env_Seq e" if "x \<in> set h" for x using that assms(2) by fastforce
  then show ?thesis
    using assms by (auto simp: history_ok_def rememberEventLocked_def Let_def)
qed

lemma history_replay:
  assumes "history_ok h c" "map (unat \<circ> env_Seq) es = [Suc (unat (cl_lastSeq c)) ..< Suc (unat (cl_lastSeq c) + length es)]"
    and "\<forall>e\<in>set es. env_Type e = FrameEvent \<and> env_SessionID e = cl_sessionID c \<and> frame_ok (cl_config c) e"
  shows "history_ok (h @ es) (snd (deliver_replay es c))"
  using assms
proof (induction es c arbitrary: h rule: deliver_replay.induct)
  case (2 e es c)
  let ?c = "rememberEventLocked (env_Seq e) (env_ID e) (c\<lparr>cl_lastSeq := env_Seq e\<rparr>)"
  have s: "unat (env_Seq e) = Suc (unat (cl_lastSeq c))"
    and es: "map (unat \<circ> env_Seq) es = [Suc (Suc (unat (cl_lastSeq c))) ..< Suc (Suc (unat (cl_lastSeq c)) + length es)]"
    using "2.prems"(2) unfolding run_Cons by (simp_all del: upt_Suc)
  have f: "cl_lastSeq ?c = env_Seq e" "cl_sessionID ?c = cl_sessionID c" "cl_config ?c = cl_config c"
    by (simp_all add: rememberEventLocked_def Let_def)
  have "history_ok (h @ [e]) ?c" using "2.prems" s by (intro history_deliver) auto
  from "2.IH" [OF this] es s f "2.prems"(3) have "history_ok ((h @ [e]) @ es) (snd (deliver_replay es ?c))"
    by (simp del: upt_Suc add: comp_def)
  then show ?case by (auto split: prod.splits)
qed simp

text \<open>The end of a recovery: the whole buffer is delivered and the session is READY again.\<close>

lemma step_replay:
  assumes "data_inv c" "cl_sessionID c \<noteq> []" "replay_run c" "deliver_replay (cl_replayBuffer c) c = (acts, c')"
    and "list_all quiet rest" "list_all (sent_ok c) rest"
  shows "step_ok c (acts @ rest) (become_ready c')"
proof -
  let ?es = "cl_replayBuffer c"
  have run: "map (unat \<circ> env_Seq) ?es = [Suc (unat (cl_lastSeq c)) ..< Suc (unat (cl_lastSeq c) + length ?es)]"
    and ev: "\<forall>e\<in>set ?es. env_Type e = FrameEvent \<and> env_SessionID e = cl_sessionID c \<and> frame_ok (cl_config c) e"
    using assms(3) unfolding replay_run_def by blast+
  note D = deliver_replay_run [OF assms(1,2) run, unfolded assms(4), simplified]
  obtain ids n where c': "c' = c\<lparr>cl_lastSeq := n, cl_eventIDs := ids\<rparr>" and acts: "acts = map DeliverEventAction ?es"
      and "data_inv c'" using D by blast
  then have "client_inv (become_ready c')" using assms(2) by (intro inv_become_ready) simp_all
  moreover have "history_ok (foldl observe h (acts @ rest)) (become_ready c')" if "history_ok h c" for h
  proof -
    have "history_ok (h @ ?es) c'" using history_replay [OF that run ev] assms(4) by simp
    then show ?thesis
      using assms(5) by (simp add: acts observe_deliver observe_quiet) (simp add: history_ok_def client_defs)
  qed
  moreover have "list_all (sent_ok c) (acts @ rest)"
    using assms(6) by (auto simp: acts list_all_iff sent_ok_def)
  moreover have "cl_config (become_ready c') = cl_config c" by (simp add: c' client_defs)
  ultimately show ?thesis unfolding step_ok_def by blast
qed

section \<open>Failures and stops\<close>

lemma stop_quiet: "code \<noteq> ErrorInvalidSession \<Longrightarrow> list_all quiet (stop_actions code r s) \<and> list_all (sent_ok c) (stop_actions code r s)"
  by (simp add: stop_actions_def quiet_def sent_ok_def)

lemma sync_codes [simp]: "ErrorSyncRequired \<noteq> ErrorInvalidSession" "ErrorStateSyncRequired \<noteq> ErrorInvalidSession"
  by (simp_all add: error_code_defs)

lemma step_disconnect:
  "client_inv c \<Longrightarrow> list_all quiet acts \<Longrightarrow> list_all (sent_ok c) acts \<Longrightarrow> step_ok c acts (disconnectLocked c)"
  by (intro step_quiet inv_disconnect) (simp_all add: client_inv_def)

lemma step_stop:
  assumes "client_inv c"
  shows "step_ok c (fst (stopReplayLocked r c)) (snd (stopReplayLocked r c))"
    "step_ok c (fst (stopStateResumeLocked r c)) (snd (stopStateResumeLocked r c))"
  using assms stop_quiet by (simp_all add: stopReplayLocked_def stopStateResumeLocked_def step_disconnect)

text \<open>The actions of an outcome; an error or a panic has none.\<close>

fun outcome_actions :: "Action list outcome \<Rightarrow> Action list" where
  "outcome_actions (Ret acts) = acts"
| "outcome_actions (Err e) = []"
| "outcome_actions (Panic s) = []"

definition call_ok :: "ClientProtocol \<Rightarrow> Action list outcome \<times> ClientProtocol \<Rightarrow> bool" where
  "call_ok c r \<longleftrightarrow> step_ok c (outcome_actions (fst r)) (snd r) \<and> (\<forall>s. fst r \<noteq> Panic s)"

definition handler_ok :: "ClientProtocol \<Rightarrow> (go_error + Action list) \<times> ClientProtocol \<Rightarrow> bool" where
  "handler_ok c r \<longleftrightarrow> (case fst r of Inl e \<Rightarrow> snd r = c | Inr acts \<Rightarrow> step_ok c acts (snd r))"

lemma handler_ok_simps [simp]:
  "handler_ok c (Inl e, c') \<longleftrightarrow> c' = c" "handler_ok c (Inr acts, c') \<longleftrightarrow> step_ok c acts c'"
  by (simp_all add: handler_ok_def)

lemma failure_ok: "client_inv c \<Longrightarrow> call_ok c (handleIncomingFailureLocked err c)"
  using step_stop [of c "''resume failed: '' @ error_text err"] step_none [of c]
  by (auto simp: call_ok_def handleIncomingFailureLocked_def Let_def split: prod.splits)

lemma stop_handler_ok: "client_inv c \<Longrightarrow> handler_ok c (case stopReplayLocked r c of (a, c') \<Rightarrow> (Inr a, c'))"
    "client_inv c \<Longrightarrow> handler_ok c (case stopStateResumeLocked r c of (a, c') \<Rightarrow> (Inr a, c'))"
  using step_stop [of c r] by (simp_all add: case_prod_beta)

section \<open>Handlers\<close>

lemma client_validates_ok: "client_inv c \<Longrightarrow> client_validates c f = None \<longleftrightarrow> frame_ok (cl_config c) f"
  by (simp add: client_inv_def data_inv_def config_ok_def frame_ok_def validateOutboundFrame_def validateLimits_normalized)

lemma live_event_ok:
  assumes "client_inv c" "cl_state c = StateReady" "cl_lastSeq c < env_Seq frame"
    and "env_Type frame = FrameEvent" "env_SessionID frame = cl_sessionID c" "frame_ok (cl_config c) frame"
  shows "handler_ok c (live_event frame now c)"
proof (cases "cl_lastSeq c + 1 < env_Seq frame")
  case True
  have "handler_ok c (Inr [SendFrameAction (resumeFrameLocked [] now c)], beginRecoveryLocked [] True c)"
    if "client_validates c (resumeFrameLocked [] now c) = None"
    using assms(1,2) that client_validates_ok [OF assms(1)]
    by (auto intro!: step_quiet inv_beginRecovery
        simp: quiet_def sent_ok_def resumeFrameLocked_def client_inv_def conn_inv_def session_ok_def)
  then show ?thesis using True by (simp add: live_event_def Let_def split: option.split)
next
  case False
  let ?c = "rememberEventLocked (env_Seq frame) (env_ID frame) (c\<lparr>cl_lastSeq := env_Seq frame\<rparr>)"
  have s: "unat (env_Seq frame) = Suc (unat (cl_lastSeq c))"
    using False assms(3) unat_Suc_less [OF assms(3)] by (simp add: word_less_nat_alt not_less)
  have d: "data_inv ?c" "cl_sessionID c \<noteq> []"
    using assms(1,2) s by (auto intro!: data_inv_deliver simp: client_inv_def conn_inv_def session_ok_def)
  moreover have "conn_inv ?c"
    using assms(1,2) by (simp add: client_inv_def conn_defs rememberEventLocked_def Let_def split: option.splits)
  ultimately have "client_inv ?c" by (simp add: client_inv_def)
  then have "step_ok c [DeliverEventAction frame] ?c"
    using history_deliver [OF _ s assms(4-6)]
    by (simp add: step_ok_def sent_ok_def observe_def) (simp add: rememberEventLocked_def Let_def)
  then show ?thesis using False by (simp add: live_event_def Let_def)
qed

text \<open>The next event of the replay joins the buffer.\<close>

lemma replay_append:
  fixes c frame
  defines "c1 \<equiv> c\<lparr>cl_replayBuffer := cl_replayBuffer c @ [frame], cl_replayBytes := cl_replayBytes c + replayEventBytes frame\<rparr>"
  assumes "replay_run c" "replay_bounds c" "cl_replayTo c \<noteq> 0"
    and "env_Seq frame = cl_lastSeq c + of_nat (length (cl_replayBuffer c)) + 1" "env_Seq frame \<le> cl_replayTo c"
    and "of_nat (length (cl_replayBuffer c)) + 1 \<le> cc_MaxReplayEvents (cl_config c)"
    and "replayEventBytes frame \<le> cc_MaxReplayBytes (cl_config c) - cl_replayBytes c"
    and "env_Type frame = FrameEvent" "env_SessionID frame = cl_sessionID c" "frame_ok (cl_config c) frame"
    and "cl_lastSeq c < env_Seq frame"
  shows "replay_run c1"
    and "env_Seq frame \<noteq> cl_replayTo c \<Longrightarrow> replay_bounds c1"
    and "env_Seq frame = cl_replayTo c \<Longrightarrow> cl_resumeStateNamespaces c \<noteq> [] \<Longrightarrow>
       replay_run (c1\<lparr>cl_resumeEventsComplete := True\<rparr>) \<and> replay_bounds (c1\<lparr>cl_resumeEventsComplete := True\<rparr>)"
proof -
  let ?b = "cl_replayBuffer c" and ?n = "unat (cl_lastSeq c)"
  have b: "?n + length ?b \<le> unat (cl_replayTo c)" "length ?b \<le> unat (cc_MaxReplayEvents (cl_config c))"
    using assms(2-4) by (auto simp: replay_run_def replay_bounds_def)
  have lt: "?n + length ?b < 2 ^ 64" "length ?b < 2 ^ 64"
    using b unat64_less [of "cl_replayTo c"] by simp_all
  have ne: "env_Seq frame \<noteq> 0" using assms(12) by auto
  have u1: "unat (cl_lastSeq c + of_nat (length ?b)) = ?n + length ?b"
    using lt by (simp add: unat_word_ariths unat_of_nat)
  have "Suc (?n + length ?b) \<noteq> 2 ^ 64"
  proof
    assume "Suc (?n + length ?b) = 2 ^ 64"
    then have "unat (cl_lastSeq c + of_nat (length ?b) + 1) = 0" unfolding unat_word_ariths(1) [of "cl_lastSeq c + of_nat (length ?b)"] u1 by simp
    then show False using ne assms(5) by (simp add: unat_eq_0)
  qed
  then have s: "unat (env_Seq frame) = Suc (?n + length ?b)"
    unfolding assms(5) unat_word_ariths(1) [of "cl_lastSeq c + of_nat (length ?b)"] u1 using lt by simp
  have "length ?b < unat (cc_MaxReplayEvents (cl_config c))"
  proof -
    have "unat (of_nat (length ?b) + 1 :: uint64) = Suc (length ?b)"
      using lt s unat64_less [of "env_Seq frame"] by (simp add: unat_word_ariths unat_of_nat)
    then show ?thesis using assms(7) by (simp add: word_le_nat_alt)
  qed
  then have run: "replay_run c1"
    using assms(2,8-11) s unfolding replay_run_def c1_def by (auto simp: run_snoc)
  then show "replay_run c1" .
  have le: "unat (env_Seq frame) \<le> unat (cl_replayTo c)" using assms(6) by (simp add: word_le_nat_alt)
  have inc: "\<not> cl_resumeEventsComplete c" using assms(3,4) le s by (simp add: replay_bounds_def)
  show "replay_bounds c1" if "env_Seq frame \<noteq> cl_replayTo c"
  proof -
    have "unat (env_Seq frame) \<noteq> unat (cl_replayTo c)" using that by (simp add: word_unat_eq_iff)
    then show ?thesis using assms(3,4) le s inc unfolding replay_bounds_def c1_def by auto
  qed
  show "replay_run (c1\<lparr>cl_resumeEventsComplete := True\<rparr>) \<and> replay_bounds (c1\<lparr>cl_resumeEventsComplete := True\<rparr>)"
    if "env_Seq frame = cl_replayTo c" "cl_resumeStateNamespaces c \<noteq> []"
  proof -
    have "replay_run (c1\<lparr>cl_resumeEventsComplete := True\<rparr>)" using run by (simp add: replay_run_def)
    moreover have "unat (cl_replayTo c) = Suc (?n + length ?b)" using s that(1) by simp
    then have "replay_bounds (c1\<lparr>cl_resumeEventsComplete := True\<rparr>)"
      using that(2) assms(3,4) by (simp add: replay_bounds_def c1_def)
    ultimately show ?thesis by blast
  qed
qed

lemma step_same: "same_data c c1 \<Longrightarrow> step_ok c1 acts c2 \<Longrightarrow> step_ok c acts c2"
proof -
  assume same: "same_data c c1" and step: "step_ok c1 acts c2"
  have "history_ok h c1 = history_ok h c" for h using same by (simp add: same_data_def history_ok_def)
  moreover have "sent_ok c1 = sent_ok c" using same by (simp add: same_data_def sent_ok_def fun_eq_iff split: Action.split)
  ultimately show ?thesis using same step by (simp add: step_ok_def same_data_def)
qed

lemma replay_event_ok:
  assumes "client_inv c" "cl_state c = StateResuming"
    and "env_Type frame = FrameEvent" "env_SessionID frame = cl_sessionID c" "frame_ok (cl_config c) frame"
    and "cl_lastSeq c < env_Seq frame"
  shows "handler_ok c (replay_event frame c)"
proof -
  let ?b = "cl_replayBuffer c"
  let ?c = "c\<lparr>cl_replayBuffer := ?b @ [frame], cl_replayBytes := cl_replayBytes c + replayEventBytes frame\<rparr>"
  have inv: "data_inv c" "cl_sessionID c \<noteq> []" "replay_run c" "replay_bounds c"
    using assms(1,2) by (auto simp: client_inv_def conn_inv_def replay_ok_def session_ok_def)
  consider (early) "cl_replayTo c = 0"
    | (bad) "cl_replayTo c \<noteq> 0" "env_Seq frame \<noteq> cl_lastSeq c + of_nat (length ?b) + 1 \<or> cl_replayTo c < env_Seq frame"
    | (full) "cl_replayTo c \<noteq> 0" "\<not> (env_Seq frame \<noteq> cl_lastSeq c + of_nat (length ?b) + 1 \<or> cl_replayTo c < env_Seq frame)"
        "of_nat (length ?b) + 1 > cc_MaxReplayEvents (cl_config c)
           \<or> replayEventBytes frame > cc_MaxReplayBytes (cl_config c) - cl_replayBytes c"
    | (ok) "cl_replayTo c \<noteq> 0" "env_Seq frame = cl_lastSeq c + of_nat (length ?b) + 1" "env_Seq frame \<le> cl_replayTo c"
        "of_nat (length ?b) + 1 \<le> cc_MaxReplayEvents (cl_config c)"
        "replayEventBytes frame \<le> cc_MaxReplayBytes (cl_config c) - cl_replayBytes c"
    by (meson not_less)
  then show ?thesis
  proof cases
    case early
    then show ?thesis using step_none [OF assms(1)] by (simp add: replay_event_def)
  next
    case bad
    then show ?thesis by (auto simp: replay_event_def)
  next
    case full
    have "replay_event frame c = (case stopReplayLocked ''replay exceeds configured memory limit'' c of (a, c') \<Rightarrow> (Inr a, c'))"
      using full by (simp add: replay_event_def)
    then show ?thesis using stop_handler_ok(1) [OF assms(1)] by simp
  next
    case ok
    note A = replay_append [OF inv(3,4) ok assms(3-6)]
    have D: "data_inv ?c" "cl_sessionID ?c \<noteq> []" using inv(1,2) by (simp_all add: data_defs)
    have S: "same_data c ?c" "same_data c (?c\<lparr>cl_resumeEventsComplete := True\<rparr>)" by (simp_all add: same_data_def)
    have more: "client_inv ?c" if "env_Seq frame \<noteq> cl_replayTo c"
      using D(1) assms(1,2) A that by (simp add: client_inv_def conn_inv_def replay_ok_def ping_ok_def queries_ok_def session_ok_def cong: option.case_cong)
    have all: "client_inv (?c\<lparr>cl_resumeEventsComplete := True\<rparr>)"
      if "env_Seq frame = cl_replayTo c" "cl_resumeStateNamespaces c \<noteq> []"
      using inv(1) assms(1,2) A that
      by (simp add: client_inv_def conn_inv_def replay_ok_def ping_ok_def queries_ok_def session_ok_def cong: option.case_cong)
        (simp add: data_defs)
    have "step_ok c (acts @ [SessionReadyAction (cl_sessionID c2)]) (become_ready c2)"
      if "deliver_replay (cl_replayBuffer ?c) ?c = (acts, c2)" for acts c2
      using step_same [OF S(1) step_replay [OF D A(1) that]] by (simp add: quiet_def sent_ok_def)
    then show ?thesis
      using ok more all S step_quiet [of _ c "[]"]
      by (auto simp: replay_event_def Let_def not_less [symmetric] simp del: deliver_replay.simps split: prod.splits)
  qed
qed

lemma handleEvent_ok:
  assumes "client_inv c" "env_Type frame = FrameEvent" "env_SessionID frame = cl_sessionID c" "frame_ok (cl_config c) frame"
  shows "handler_ok c (handleEventLocked frame now c)"
proof -
  consider (state) "cl_state c \<noteq> StateReady \<and> cl_state c \<noteq> StateResuming"
    | (old) "cl_state c = StateReady \<or> cl_state c = StateResuming" "env_Seq frame \<le> cl_lastSeq c"
    | (replay) "cl_state c = StateResuming" "cl_lastSeq c < env_Seq frame"
    | (live) "cl_state c = StateReady" "cl_lastSeq c < env_Seq frame"
    by fastforce
  then show ?thesis
  proof cases
    case replay
    then have "handleEventLocked frame now c = replay_event frame c" by (simp add: handleEventLocked_def not_le [symmetric])
    then show ?thesis using replay_event_ok assms replay by simp
  next
    case live
    then have "handleEventLocked frame now c = live_event frame now c" by (simp add: handleEventLocked_def not_le [symmetric])
    then show ?thesis using live_event_ok assms live by simp
  next
    case old
    then show ?thesis using step_none [OF assms(1)] by (auto simp: handleEventLocked_def split: option.splits)
  qed (simp add: handleEventLocked_def)
qed

lemma inv_cong:
  assumes "client_inv c" "data_inv c'" "cl_state c' = cl_state c" "cl_pendingPing c' = cl_pendingPing c"
    "cl_generation c' = cl_generation c" "queries_ok c'" "cl_replayTo c' = cl_replayTo c"
    "cl_replayBuffer c' = cl_replayBuffer c" "cl_replayBytes c' = cl_replayBytes c"
    "cl_resumeStateNamespaces c' = cl_resumeStateNamespaces c" "cl_resumeEventsComplete c' = cl_resumeEventsComplete c"
    "cl_gapResume c' = cl_gapResume c" "cl_lastSeq c' = cl_lastSeq c" "cl_sessionID c' = cl_sessionID c"
    "cl_config c' = cl_config c"
  shows "client_inv c'"
  using assms(1,2,6)
  unfolding client_inv_def conn_inv_def ping_ok_def replay_ok_def replay_run_def replay_bounds_def
    idle_replay_def session_ok_def assms(3-5) assms(7-)
  by blast

lemma applyState_ok:
  assumes "client_inv c" "cl_sessionID c \<noteq> []"
  shows "case applyStateObjectsLocked xs c of (Inl e, c') \<Rightarrow> c' = c
    | (Inr acts, c') \<Rightarrow> (\<exists>m n. c' = c\<lparr>cl_stateObjects := m, cl_stateBytes := n\<rparr>) \<and> data_inv c' \<and> client_inv c'
        \<and> list_all quiet acts \<and> list_all (sent_ok c) acts"
proof (cases "apply_objects (cl_config c) xs (cl_stateObjects c) (cl_stateBytes c)")
  case (Inr r)
  obtain acts m n where r: "r = (acts, m, n)" by (cases r)
  let ?c = "c\<lparr>cl_stateObjects := m, cl_stateBytes := n\<rparr>"
  have ok: "objects_ok (cl_config c) (cl_stateObjects c) (cl_stateBytes c)"
    using assms(1) by (simp add: client_inv_def data_inv_def cache_ok_def)
  note A = apply_objects_ok [OF ok Inr [unfolded r]]
  have d: "data_inv ?c"
    using assms A by (simp add: client_inv_def data_inv_def ids_ok_def cache_ok_def outbox_ok_def no_session_ok_def)
  have "queries_ok ?c" using assms(1) by (simp add: client_inv_def conn_inv_def queries_ok_def)
  then have "client_inv ?c" using assms(1) d by (intro inv_cong [of c ?c]) simp_all
  moreover have "list_all quiet acts" "list_all (sent_ok c) acts"
    using A by (auto simp: list_all_iff quiet_def sent_ok_def)
  ultimately show ?thesis using d Inr r by (auto simp: applyStateObjectsLocked_def)
qed (simp add: applyStateObjectsLocked_def)

lemma handleStateUpdate_ok:
  assumes "client_inv c"
  shows "handler_ok c (handleStateUpdateLocked frame c)"
proof (cases "cl_state c = StateReady")
  case True
  then have s: "cl_sessionID c \<noteq> []" using assms by (simp add: client_inv_def conn_inv_def session_ok_def)
  have "handler_ok c (applyStateObjectsLocked xs c)" for xs
    using applyState_ok [OF assms s, of xs]
    by (auto simp: same_data_def intro: step_quiet split: prod.splits sum.splits)
  then show ?thesis by (simp add: handleStateUpdateLocked_def split: sum.splits)
qed (simp add: handleStateUpdateLocked_def)

lemma handleResumeStateSnapshot_ok:
  assumes "client_inv c" "cl_state c = StateResuming"
  shows "handler_ok c (handleResumeStateSnapshotLocked frame c)"
proof -
  have inv: "data_inv c" "cl_sessionID c \<noteq> []" "replay_run c"
    using assms by (auto simp: client_inv_def conn_inv_def replay_ok_def session_ok_def)
  have "handler_ok c (case applyStateObjectsLocked xs c of
            (Inl e, c1) \<Rightarrow>
              (case stopStateResumeLocked ''State snapshot conflicts with retained State'' c1 of
                 (actions, c2) \<Rightarrow> (Inr actions, c2))
          | (Inr stateActions, c1) \<Rightarrow>
              (case deliver_replay (cl_replayBuffer c1) c1 of (events, c2) \<Rightarrow>
                 (Inr (events @ stateActions @ [SessionReadyAction (cl_sessionID c2)]), become_ready c2)))" for xs
  proof (cases "applyStateObjectsLocked xs c")
    case (Pair r c1)
    show ?thesis
    proof (cases r)
      case (Inl e)
      then have "c1 = c" using applyState_ok [OF assms(1) inv(2), of xs] Pair by simp
      then show ?thesis using Pair Inl stop_handler_ok(2) [OF assms(1)] by simp
    next
      case (Inr acts)
      obtain m n where c1: "c1 = c\<lparr>cl_stateObjects := m, cl_stateBytes := n\<rparr>" "data_inv c1"
          and q: "list_all quiet acts" "list_all (sent_ok c) acts"
        using applyState_ok [OF assms(1) inv(2), of xs] Pair Inr by auto
      have run: "replay_run c1" "cl_sessionID c1 \<noteq> []" using inv(2,3) by (simp_all add: c1(1) replay_run_def)
      have same: "same_data c c1" by (simp add: c1(1) same_data_def)
      have sent: "list_all (sent_ok c1) acts"
        using q(2) by (simp add: c1(1) list_all_iff sent_ok_def cong: Action.case_cong)
      have "step_ok c1 (events @ acts @ [SessionReadyAction (cl_sessionID c2)]) (become_ready c2)"
        if "deliver_replay (cl_replayBuffer c1) c1 = (events, c2)" for events c2
        using q(1) sent by (intro step_replay [OF c1(2) run(2,1) that]) (simp_all add: quiet_def sent_ok_def)
      then show ?thesis using Pair Inr step_same [OF same] by (auto split: prod.splits)
    qed
  qed
  then show ?thesis by (auto simp: handleResumeStateSnapshotLocked_def split: sum.splits)
qed

lemma handleStateSnapshot_ok:
  assumes "client_inv c"
  shows "handler_ok c (handleStateSnapshotLocked frame c)"
proof (cases "cl_state c = StateReady")
  case True
  then have s: "cl_sessionID c \<noteq> []" using assms by (simp add: client_inv_def conn_inv_def session_ok_def)
  have "handler_ok c (case applyStateObjectsLocked xs c of (Inl e, c1) \<Rightarrow> (Inl e, c1)
     | (Inr actions, c1) \<Rightarrow> (Inr actions, c1\<lparr>cl_stateQueries := map_del (env_ID frame) (cl_stateQueries c1)\<rparr>))" for xs
  proof (cases "applyStateObjectsLocked xs c")
    case (Pair r c1)
    show ?thesis
    proof (cases r)
      case (Inl e)
      then show ?thesis using applyState_ok [OF assms s, of xs] Pair by simp
    next
      case (Inr acts)
      let ?c = "c1\<lparr>cl_stateQueries := map_del (env_ID frame) (cl_stateQueries c1)\<rparr>"
      obtain m n where c1: "c1 = c\<lparr>cl_stateObjects := m, cl_stateBytes := n\<rparr>" "data_inv c1" "client_inv c1"
          and q: "list_all quiet acts" "list_all (sent_ok c) acts"
        using applyState_ok [OF assms s, of xs] Pair Inr by auto
      have "queries_ok ?c" using c1(3) True c1(1) by (auto simp: client_inv_def conn_inv_def queries_ok_def)
      then have "client_inv ?c" using c1(2,3) by (intro inv_cong [of c1 ?c]) (simp_all add: data_defs)
      then have "step_ok c acts ?c" using q by (intro step_quiet) (simp_all add: same_data_def c1(1))
      then show ?thesis using Pair Inr by simp
    qed
  qed
  then show ?thesis using True by (auto simp: handleStateSnapshotLocked_def split: sum.splits option.splits)
next
  case False
  then show ?thesis using handleResumeStateSnapshot_ok [OF assms] by (simp add: handleStateSnapshotLocked_def)
qed

lemma welcome_new_ok:
  assumes "client_inv c" "cl_state c = StateHandshaking"
  shows "handler_ok c (welcome_new frame payload c)"
proof -
  have s: "cl_sessionID c = []" using assms by (simp add: client_inv_def conn_inv_def session_ok_def)
  then have z: "cl_lastSeq c = 0" "cl_eventIDs c = []" "cl_outbox c = []" "cl_stateObjects c = []"
    using assms by (simp_all add: client_inv_def data_inv_def no_session_ok_def)
  let ?c = "\<lambda>caps. c\<lparr>cl_sessionID := env_SessionID frame, cl_capabilities := caps, cl_state := StateReady\<rparr>"
  have "step_ok c [SessionReadyAction (env_SessionID frame)] (?c caps)" if "env_SessionID frame \<noteq> []" for caps
  proof -
    have "data_inv (?c caps)"
      using assms(1) z that by (simp add: client_inv_def data_inv_def ids_ok_def cache_ok_def outbox_ok_def no_session_ok_def)
    moreover have "conn_inv (?c caps)"
      using assms that by (auto simp: client_inv_def conn_defs split: option.splits)
    ultimately have "client_inv (?c caps)" by (simp add: client_inv_def)
    moreover have "history_ok h (?c caps)" if "history_ok h c" for h
      using that z by (simp add: history_ok_def)
    ultimately show ?thesis by (simp add: step_ok_def observe_def sent_ok_def)
  qed
  then show ?thesis by (simp add: welcome_new_def Let_def split: sum.split option.split)
qed

lemma welcome_resumed_ok:
  assumes "client_inv c" "cl_state c = StateResuming"
  shows "handler_ok c (welcome_resumed frame payload c)"
proof -
  let ?c = "c\<lparr>cl_replayTo := wp_ReplayTo payload, cl_replayBuffer := [], cl_replayBytes := 0,
              cl_resumeEventsComplete := (wp_ReplayTo payload = cl_lastSeq c), cl_gapResume := False\<rparr>"
  have inv: "data_inv ?c" "cl_sessionID ?c \<noteq> []"
    using assms by (simp_all add: client_inv_def conn_inv_def session_ok_def data_defs)
  have same: "same_data c ?c" by (simp add: same_data_def)
  have stop: "step_ok c acts c2" if "stopReplayLocked r ?c = (acts, c2)" for r acts c2
    using that inv stop_quiet [of ErrorSyncRequired]
    by (intro step_same [OF same] step_quiet)
      (auto simp: stopReplayLocked_def intro!: inv_disconnect)
  have wait: "step_ok c [] ?c"
    if "\<not> wp_ReplayTo payload < cl_lastSeq c" "wp_ReplayTo payload = cl_lastSeq c \<longrightarrow> cl_resumeStateNamespaces c \<noteq> []"
  proof -
    have "unat (cl_lastSeq c) \<le> unat (wp_ReplayTo payload)" using that(1) by (simp add: word_less_nat_alt)
    then have "replay_run ?c" "replay_bounds ?c"
      using inv(1) that(2) by (auto simp: replay_run_def replay_bounds_def data_inv_def config_ok_def word_unat_eq_iff)
    moreover have "ping_ok c" "queries_ok c" using assms(1) by (simp_all add: client_inv_def conn_inv_def)
    ultimately have "client_inv ?c"
      using assms(2) inv by (simp add: client_inv_def conn_inv_def replay_ok_def ping_ok_def queries_ok_def session_ok_def
          cong: option.case_cong)
    then show ?thesis using same by (intro step_quiet) simp_all
  qed
  have ready: "step_ok c [SessionReadyAction (cl_sessionID c)] (become_ready ?c)"
    using inv by (intro step_same [OF same] step_quiet inv_become_ready) (simp_all add: quiet_def sent_ok_def)
  show ?thesis
    using stop wait ready by (auto simp: welcome_resumed_def Let_def split: prod.split)
qed

lemma handleWelcome_ok: "client_inv c \<Longrightarrow> handler_ok c (handleWelcomeLocked frame c)"
  using welcome_new_ok welcome_resumed_ok
  by (auto simp: handleWelcomeLocked_def split: sum.split ConnectionState.split)

lemma handlePong_ok:
  assumes "client_inv c"
  shows "handler_ok c (handlePongLocked generation frame c)"
proof -
  let ?c = "c\<lparr>cl_pendingPing := None, cl_suspectAt := zero_time,
      cl_state := (if cl_state c = StateSuspect then StateReady else cl_state c)\<rparr>"
  have "step_ok c [] ?c" if "cl_state c = StateReady \<or> cl_state c = StateSuspect"
  proof (rule step_quiet)
    have "data_inv ?c" using assms unfolding client_inv_def by (simp add: data_defs)
    moreover have "idle_replay c" "cl_sessionID c \<noteq> []" "queries_ok c"
      using assms that by (auto simp: client_inv_def conn_inv_def replay_ok_def session_ok_def)
    then have "conn_inv ?c"
      using that by (auto simp: conn_inv_def replay_ok_def ping_ok_def session_ok_def idle_replay_def queries_ok_def)
    ultimately show "client_inv ?c" by (simp add: client_inv_def)
  qed (simp_all add: same_data_def)
  then show ?thesis using step_none [OF assms]
    by (auto simp: handlePongLocked_def split: sum.split)
qed

lemma handleAck_ok:
  assumes "client_inv c"
  shows "handler_ok c (handleAckLocked frame c)"
proof -
  have "step_ok c [AckedAction i] (c\<lparr>cl_outbox := map_del i (cl_outbox c)\<rparr>)" for i
  proof (rule step_quiet)
    let ?c = "c\<lparr>cl_outbox := map_del i (cl_outbox c)\<rparr>"
    have "data_inv ?c" "queries_ok ?c"
      using assms by (auto simp: client_inv_def data_defs conn_inv_def queries_ok_def intro: map_all_del)
    then show "client_inv ?c" using assms by (intro inv_cong [of c ?c]) simp_all
  qed (simp_all add: same_data_def quiet_def sent_ok_def)
  then show ?thesis using step_none [OF assms] by (auto simp: handleAckLocked_def split: sum.split)
qed

lemma handleError_ok:
  assumes "client_inv c"
  shows "handler_ok c (handleErrorLocked frame c)"
proof (cases "decodePayload (env_Payload frame) dec_ErrorPayload zero_ErrorPayload (cc_StrictValidation (cl_config c))")
  case (Inl e)
  have "step_ok c [CloseConnectionAction ''invalid ERROR frame''] (disconnectLocked c)"
    using assms by (rule step_disconnect) (simp_all add: quiet_def sent_ok_def)
  then show ?thesis using Inl by (simp add: handleErrorLocked_def)
next
  case (Inr payload)
  define c0 where
    "c0 = (if er_RefID payload \<noteq> [] then c\<lparr>cl_stateQueries := map_del (er_RefID payload) (cl_stateQueries c)\<rparr> else c)"
  define c1 where "c1 = (if cl_state c0 = StateResuming then disconnectLocked c0 else c0)"
  define fs where "fs = (if cl_state c0 = StateResuming \<and> (eb_FullSyncRequired (fst (BehaviorForErrorCode (er_Code payload)))
      \<or> eb_AbandonSession (fst (BehaviorForErrorCode (er_Code payload)))
      \<or> (cl_resumeStateNamespaces c0 \<noteq> [] \<and> er_Code payload = ErrorStateSyncRequired))
    then [FullSyncRequiredAction (cl_sessionID c0)] else [])"
  have d0: "data_inv c0" using assms unfolding c0_def client_inv_def by (simp add: data_defs)
  have q0: "queries_ok c0" using assms by (auto simp: c0_def client_inv_def conn_inv_def queries_ok_def)
  have "client_inv c0" using assms d0 q0 by (intro inv_cong [of c c0]) (simp_all add: c0_def)
  then have i1: "client_inv c1" using d0 inv_disconnect by (simp add: c1_def)
  then have d1: "data_inv c1" by (simp add: client_inv_def)
  have same: "same_data c c1" "same_data c (disconnectLocked c1)" by (simp_all add: same_data_def c0_def c1_def client_defs)
  have fsq: "list_all quiet fs" "list_all (sent_ok c) fs" by (simp_all add: fs_def quiet_def sent_ok_def)
  show ?thesis
  proof (cases "er_Code payload = ErrorInvalidSession")
    case True
    have b: "eb_AbandonSession (fst (BehaviorForErrorCode ErrorInvalidSession))"
        "\<not> eb_CloseConnection (fst (BehaviorForErrorCode ErrorInvalidSession))"
      by (simp_all add: BehaviorForErrorCode_def no_behavior_def error_code_defs)
    then have eq: "handleErrorLocked frame c = (Inr (ProtocolErrorAction payload # fs), abandonSessionLocked c1)"
      using Inr True by (simp add: handleErrorLocked_def Let_def fs_def c1_def c0_def [symmetric])
    have "history_ok [] (abandonSessionLocked c1)" by (simp add: history_ok_def client_defs)
    then have "step_ok c (ProtocolErrorAction payload # fs) (abandonSessionLocked c1)"
      using inv_abandon [OF d1] fsq same(1) True observe_quiet [OF fsq(1)]
      by (simp add: step_ok_def observe_def sent_ok_def same_data_def) (simp add: client_defs)
    then show ?thesis by (simp add: eq)
  next
    case False
    define b where "b = (eb_CloseConnection (fst (BehaviorForErrorCode (er_Code payload)))
      \<or> (cl_state c0 = StateResuming \<and> fs = []))"
    have eq: "handleErrorLocked frame c = (Inr (ProtocolErrorAction payload # fs
        @ (if b then [CloseConnectionAction (er_Code payload)] else [])), if b then disconnectLocked c1 else c1)"
      using Inr False
      by (simp add: handleErrorLocked_def Let_def fs_def b_def c1_def c0_def [symmetric] BehaviorForErrorCode_abandon)
    have "step_ok c (ProtocolErrorAction payload # fs @ cs) c2"
      if "cs = [] \<or> cs = [CloseConnectionAction i]" "c2 = c1 \<or> c2 = disconnectLocked c1" for cs c2 i
      using that i1 inv_disconnect [OF d1] same False fsq
      by (intro step_quiet) (auto simp: quiet_def sent_ok_def)
    from this [of "[CloseConnectionAction (er_Code payload)]"] this [of "[]"] show ?thesis by (simp add: eq)
  qed
qed

lemma dispatch_ok:
  assumes "client_inv c" "frame_ok (cl_config c) frame" "wrong_session frame c = None"
  shows "handler_ok c (dispatch_incoming generation frame now c)"
proof -
  have "handler_ok c (handleEventLocked frame now c)" if "env_Type frame = FrameEvent"
    using assms that by (intro handleEvent_ok) (simp_all add: wrong_session_def frame_type_defs)
  then show ?thesis
    using assms(1) handleWelcome_ok handlePong_ok handleAck_ok handleStateSnapshot_ok handleStateUpdate_ok handleError_ok
    by (auto simp: dispatch_incoming_def)
qed

lemma call_ok_Err [simp]: "call_ok c (Err e, c') \<longleftrightarrow> step_ok c [] c'"
  by (simp add: call_ok_def)

lemma call_ok_Ret [simp]: "call_ok c (Ret acts, c') \<longleftrightarrow> step_ok c acts c'"
  by (simp add: call_ok_def)

lemma HandleIncoming_ok:
  assumes "client_inv c"
  shows "call_ok c (HandleIncoming now generation frame c)"
proof -
  have "step_ok c [CloseConnectionAction ''invalid ERROR frame''] (disconnectLocked c)"
    using assms by (rule step_disconnect) (simp_all add: quiet_def sent_ok_def)
  moreover have "call_ok c (case dispatch_incoming generation frame now c of
      (Inl err, c1) \<Rightarrow> handleIncomingFailureLocked err c1 | (Inr actions, c1) \<Rightarrow> (Ret actions, c1))"
    if "ValidateFrame (Some frame) (cc_Limits (cl_config c)) (cc_StrictValidation (cl_config c)) = None"
       "wrong_session frame c = None"
    using dispatch_ok [OF assms _ that(2), of generation now] that(1) failure_ok [OF assms]
    by (auto simp: frame_ok_def handler_ok_def split: prod.splits sum.splits)
  ultimately show ?thesis
    using step_none [OF assms] failure_ok [OF assms]
    by (auto simp: HandleIncoming_def split: option.split)
qed

end
