(* ===== verification/Client_Reach.thy ===== *)
theory Client_Reach
  imports Client_Step
begin

text \<open>
  Histories of calls on one client: the calls of the API in any order, with any arguments and any
  clock, as a transition relation, and what holds in every reachable state.
\<close>

section \<open>Calls\<close>

datatype client_call =
    CallBeginConnect
  | CallTransportConnected ConnectionGeneration
  | CallStartSession ConnectionGeneration string
  | CallResume ConnectionGeneration
  | CallResumeWithState ConnectionGeneration "string list"
  | CallDisconnect ConnectionGeneration
  | CallQueryState string string "string list"
  | CallEnqueueSend string bytes
  | CallRetryPending
  | CallSendPing ConnectionGeneration string
  | CallCheckHeartbeat ConnectionGeneration
  | CallHandleIncoming ConnectionGeneration Envelope

definition no_actions :: "unit outcome \<Rightarrow> Action list outcome" where
  "no_actions r = (case r of Ret _ \<Rightarrow> Ret [] | Err e \<Rightarrow> Err e | Panic s \<Rightarrow> Panic s)"

fun perform :: "time \<Rightarrow> client_call \<Rightarrow> ClientProtocol \<Rightarrow> Action list outcome \<times> ClientProtocol" where
  "perform now CallBeginConnect c = (Ret [], snd (BeginConnect c))"
| "perform now (CallTransportConnected g) c = (case TransportConnected g c of (r, c') \<Rightarrow> (no_actions r, c'))"
| "perform now (CallStartSession g name) c = StartSession g name c"
| "perform now (CallResume g) c = Resume now g c"
| "perform now (CallResumeWithState g ns) c = ResumeWithState now g ns c"
| "perform now (CallDisconnect g) c = (case Disconnect g c of (r, c') \<Rightarrow> (no_actions r, c'))"
| "perform now (CallQueryState i ns ids) c = QueryState now i ns ids c"
| "perform now (CallEnqueueSend i content) c = EnqueueSend now i content c"
| "perform now CallRetryPending c = RetryPending c"
| "perform now (CallSendPing g i) c = SendPing now g i c"
| "perform now (CallCheckHeartbeat g) c = CheckHeartbeat now g c"
| "perform now (CallHandleIncoming g frame) c = HandleIncoming now g frame c"

inductive client_step :: "ClientProtocol \<Rightarrow> Action list \<Rightarrow> ClientProtocol \<Rightarrow> bool" where
  call: "perform now call c = (r, c') \<Longrightarrow> client_step c (outcome_actions r) c'"

inductive client_run :: "ClientConfig \<Rightarrow> Action list \<Rightarrow> ClientProtocol \<Rightarrow> bool" for config where
  start: "NewClientProtocol config = Inr c \<Longrightarrow> client_run config [] c"
| step: "client_run config acts c \<Longrightarrow> client_step c more_acts c' \<Longrightarrow> client_run config (acts @ more_acts) c'"

section \<open>Every call keeps the invariant\<close>

lemma client_defaults_sel:
  "cc_Limits (client_defaults config l offers) = l"
  "cc_HeartbeatTimeout (client_defaults config l offers) = cc_HeartbeatTimeout config"
  "cc_DisconnectGrace (client_defaults config l offers) = cc_DisconnectGrace config"
  "cc_MaxReplayEvents (client_defaults config l offers) \<noteq> 0"
  "cc_EventIdentityWindow (client_defaults config l offers) \<noteq> 0"
  "cc_MaxReplayBytes (client_defaults config l offers) \<noteq> 0"
  "cc_MaxStateObjects (client_defaults config l offers) \<noteq> 0"
  "cc_MaxStateBytes (client_defaults config l offers) \<noteq> 0"
  by (simp_all add: client_defaults_def DefaultMaxReplayEvents_def DefaultEventIdentityWindow_def
      DefaultMaxReplayBytes_def DefaultMaxStateCacheObjects_def DefaultMaxStateCacheBytes_def)

lemma NewClientProtocol_Inr:
  assumes "NewClientProtocol config = Inr c"
  obtains cfg where "c = new_client cfg" "config_ok cfg"
proof -
  let ?l = "normalizeLimits (cc_Limits config)"
  obtain offers where l: "validateLimits ?l = None" and c: "c = new_client (client_defaults config ?l offers)"
      and ge: "\<not> (cc_HeartbeatTimeout (client_defaults config ?l offers) \<le> 0 \<or> cc_DisconnectGrace (client_defaults config ?l offers) \<le> 0)"
      "\<not> (cc_MaxReplayBytes (client_defaults config ?l offers) < 0 \<or> cc_MaxStateObjects (client_defaults config ?l offers) < 0
         \<or> cc_MaxStateBytes (client_defaults config ?l offers) < 0)"
    using assms unfolding NewClientProtocol_def Let_def
    by (simp split: option.splits sum.splits if_split_asm) blast
  have "config_ok (client_defaults config ?l offers)"
    using l ge client_defaults_sel [of config ?l offers] by (simp add: config_ok_def)
  with c show ?thesis by (rule that)
qed

lemma new_client_inv: "config_ok cfg \<Longrightarrow> client_inv (new_client cfg)"
  by (auto simp: new_client_def client_inv_def data_defs conn_defs config_ok_def objects_ok_def cache_bytes_def)

lemma state_only_ok:
  assumes "client_inv c" "client_inv (c\<lparr>cl_state := s\<rparr>)" "list_all quiet acts" "list_all (sent_ok c) acts"
  shows "step_ok c acts (c\<lparr>cl_state := s\<rparr>)"
  using assms by (intro step_quiet) (simp_all add: same_data_def)

lemma BeginConnect_ok: "client_inv c \<Longrightarrow> step_ok c [] (snd (BeginConnect c))"
  by (rule step_quiet) (auto simp: BeginConnect_def Let_def client_inv_def data_defs conn_defs client_defs same_data_def)

lemma TransportConnected_ok:
  assumes "client_inv c"
  shows "call_ok c (case TransportConnected g c of (r, c') \<Rightarrow> (no_actions r, c'))"
proof -
  have "client_inv (c\<lparr>cl_state := StateConnected\<rparr>)" if "cl_state c = StateConnecting"
    using assms that by (auto simp: client_inv_def data_inv_conn conn_defs split: option.splits)
  then show ?thesis
    using step_none [OF assms] state_only_ok [OF assms]
    by (simp add: TransportConnected_def no_actions_def)
qed

lemma Disconnect_ok: "client_inv c \<Longrightarrow> call_ok c (case Disconnect g c of (r, c') \<Rightarrow> (no_actions r, c'))"
  using step_none [of c] step_disconnect [of c "[]"] by (simp add: Disconnect_def no_actions_def)

lemma StartSession_ok:
  assumes "client_inv c"
  shows "call_ok c (StartSession g name c)"
proof -
  have "client_inv (c\<lparr>cl_state := StateHandshaking\<rparr>)" if "cl_state c = StateConnected" "cl_sessionID c = []"
    using assms that by (auto simp: client_inv_def data_inv_conn conn_defs split: option.splits)
  then have "step_ok c [SendFrameAction (hello_frame name c)] (c\<lparr>cl_state := StateHandshaking\<rparr>)"
    if "cl_state c = StateConnected" "cl_sessionID c = []" "client_validates c (hello_frame name c) = None"
    using that client_validates_ok [OF assms]
    by (intro state_only_ok [OF assms]) (simp_all add: quiet_def sent_ok_def hello_frame_def)
  then show ?thesis using step_none [OF assms] by (simp add: StartSession_def Let_def split: option.split)
qed

lemma startResume_ok:
  assumes "client_inv c"
  shows "call_ok c (startResumeLocked g ns now c)"
proof -
  have "step_ok c [SendFrameAction (resumeFrameLocked ns now c)] (beginRecoveryLocked ns False c)"
    if "cl_sessionID c \<noteq> []" "client_validates c (resumeFrameLocked ns now c) = None"
    using that client_validates_ok [OF assms] assms
    by (intro step_quiet inv_beginRecovery) (simp_all add: quiet_def sent_ok_def resumeFrameLocked_def client_inv_def)
  then show ?thesis using step_none [OF assms] by (simp add: startResumeLocked_def Let_def split: option.split)
qed

lemma ResumeWithState_ok: "client_inv c \<Longrightarrow> call_ok c (ResumeWithState now g ns c)"
  using startResume_ok [of c] step_none [of c] by (simp add: ResumeWithState_def Let_def split: option.split)

lemma QueryState_ok:
  assumes "client_inv c"
  shows "call_ok c (QueryState now i ns ids c)"
proof -
  have "step_ok c [SendFrameAction (query_frame i p now c)] (c\<lparr>cl_stateQueries := map_put i p (cl_stateQueries c)\<rparr>)"
    if "cl_state c = StateReady" "stateSyncEnabled (cl_capabilities c)" "client_validates c (query_frame i p now c) = None" for p
  proof (rule step_quiet)
    let ?c = "c\<lparr>cl_stateQueries := map_put i p (cl_stateQueries c)\<rparr>"
    have "data_inv ?c" "queries_ok ?c"
      using assms that by (auto simp: client_inv_def conn_inv_def queries_ok_def data_defs)
    then show "client_inv ?c" using assms by (intro inv_cong [of c ?c]) simp_all
  qed (use that client_validates_ok [OF assms] in \<open>simp_all add: same_data_def quiet_def sent_ok_def query_frame_def\<close>)
  then show ?thesis using step_none [OF assms] by (auto simp: QueryState_def Let_def split: option.split)
qed

lemma EnqueueSend_payload: "json_Valid content \<Longrightarrow> \<exists>p. mustPayload (SendPayload_json \<lparr>sp_Content = content\<rparr>) = Some p"
  by (auto simp: mustPayload_def json_Marshal_def SendPayload_json_def jraw_def json_Valid_def)

lemma EnqueueSend_ok:
  assumes "client_inv c"
  shows "call_ok c (EnqueueSend now i content c)"
proof -
  let ?f = "\<lambda>p. \<lparr>env_V = WireVersionV2, env_Type = FrameSend, env_ID = i, env_SessionID = cl_sessionID c, env_Seq = 0,
    env_Timestamp = UnixMilli now, env_Payload = p\<rparr>"
  have "step_ok c [SendFrameAction (?f p)] (c\<lparr>cl_outbox := map_put i (?f p) (cl_outbox c)\<rparr>)"
    if "cl_sessionID c \<noteq> []" "client_validates c (?f p) = None" for p
  proof (rule step_quiet)
    let ?c = "c\<lparr>cl_outbox := map_put i (?f p) (cl_outbox c)\<rparr>"
    have v: "frame_ok (cl_config c) (?f p)" using that(2) client_validates_ok [OF assms] by blast
    have "data_inv ?c" "queries_ok ?c"
      using assms that(1) v
      by (auto simp: client_inv_def conn_inv_def queries_ok_def data_inv_def ids_ok_def cache_ok_def outbox_ok_def
          no_session_ok_def intro!: map_all_put)
    then show "client_inv ?c" using assms by (intro inv_cong [of c ?c]) simp_all
    show "list_all (sent_ok c) [SendFrameAction (?f p)]" using v by (simp add: sent_ok_def)
  qed (simp_all add: same_data_def quiet_def)
  then show ?thesis
    using step_none [OF assms] EnqueueSend_payload [of content]
    by (auto simp: EnqueueSend_def Let_def split: option.split)
qed

lemma RetryPending_ok:
  assumes "client_inv c"
  shows "call_ok c (RetryPending c)"
proof -
  have "sent_ok c (SendFrameAction (the (map_get (cl_outbox c) i)))" if "i \<in> fst ` set (cl_outbox c)" for i
  proof -
    obtain f where "map_get (cl_outbox c) i = Some f" using \<open>i \<in> fst ` set (cl_outbox c)\<close> by (metis map_get_None not_None_eq)
    moreover have "map_all (\<lambda>i f. env_ID f = i \<and> env_Type f = FrameSend \<and> env_SessionID f = cl_sessionID c
        \<and> frame_ok (cl_config c) f) (cl_outbox c)"
      using assms by (simp add: client_inv_def data_inv_def outbox_ok_def)
    ultimately show ?thesis by (auto simp: sent_ok_def map_all_def)
  qed
  then show ?thesis
    using step_none [OF assms] assms
    by (auto simp: RetryPending_def sortStrings_sort list_all_iff quiet_def intro!: step_quiet)
qed

lemma SendPing_ok:
  assumes "client_inv c"
  shows "call_ok c (SendPing now g i c)"
proof -
  let ?c = "c\<lparr>cl_pendingPing := Some \<lparr>png_ID = i, png_SentAt = now, png_Generation = cl_generation c\<rparr>\<rparr>"
  have "step_ok c [SendFrameAction (ping_frame i now c)] ?c"
    if "cl_state c = StateReady" "i \<noteq> []" "client_validates c (ping_frame i now c) = None"
  proof (rule step_quiet)
    have "data_inv ?c" using assms unfolding client_inv_def by (simp add: data_defs)
    moreover have "conn_inv ?c"
      using assms that(1,2) by (simp add: client_inv_def conn_inv_def ping_ok_def queries_ok_def replay_ok_def idle_replay_def session_ok_def)
    ultimately show "client_inv ?c" by (simp add: client_inv_def)
  qed (use that client_validates_ok [OF assms] in \<open>simp_all add: same_data_def quiet_def sent_ok_def ping_frame_def\<close>)
  then show ?thesis using step_none [OF assms] by (auto simp: SendPing_def Let_def split: option.split)
qed

lemma CheckHeartbeat_ok:
  assumes "client_inv c"
  shows "call_ok c (CheckHeartbeat now g c)"
proof -
  let ?c = "c\<lparr>cl_state := StateSuspect, cl_suspectAt := now\<rparr>"
  have "step_ok c [] ?c" if "cl_state c = StateReady" "cl_pendingPing c = Some p" for p
  proof (rule step_quiet)
    have "data_inv ?c" using assms unfolding client_inv_def by (simp add: data_defs)
    moreover have "conn_inv ?c"
      using assms that by (simp add: client_inv_def conn_inv_def ping_ok_def queries_ok_def replay_ok_def idle_replay_def session_ok_def)
    ultimately show "client_inv ?c" by (simp add: client_inv_def)
  qed (simp_all add: same_data_def)
  moreover have "step_ok c [CloseConnectionAction ''heartbeat timeout''] (disconnectLocked c)"
    using assms by (rule step_disconnect) (simp_all add: quiet_def sent_ok_def)
  ultimately show ?thesis using step_none [OF assms] by (simp add: CheckHeartbeat_def split: option.split)
qed

lemma perform_ok: "client_inv c \<Longrightarrow> call_ok c (perform now call c)"
  using BeginConnect_ok TransportConnected_ok StartSession_ok startResume_ok ResumeWithState_ok Disconnect_ok
    QueryState_ok EnqueueSend_ok RetryPending_ok SendPing_ok CheckHeartbeat_ok HandleIncoming_ok
  by (cases call) (simp_all add: Resume_def)

section \<open>Reachable states\<close>

lemma client_step_ok: "client_inv c \<Longrightarrow> client_step c acts c' \<Longrightarrow> step_ok c acts c'"
proof -
  assume inv: "client_inv c" and "client_step c acts c'"
  then obtain now call r where "perform now call c = (r, c')" "acts = outcome_actions r"
    by (auto elim: client_step.cases)
  then show ?thesis using perform_ok [OF inv, of now call] by (simp add: call_ok_def)
qed

lemma run_inv:
  assumes "client_run config acts c"
  shows "client_inv c \<and> history_ok (foldl observe [] acts) c"
  using assms
proof induction
  case (start c)
  then obtain cfg where "c = new_client cfg" "config_ok cfg" by (rule NewClientProtocol_Inr)
  then show ?case by (simp add: new_client_inv) (simp add: history_ok_def new_client_def)
next
  case (step acts c more_acts c')
  then show ?case using client_step_ok [of c more_acts c'] by (simp add: step_ok_def)
qed

end
