(* ===== verification/Client_Props.thy ===== *)
theory Client_Props
  imports Client_Reach
begin

text \<open>
  Properties of the client over whole histories of calls: exactly-once in-order delivery, the
  invariant in every reachable state, and valid output.
\<close>

section \<open>A history to apply them to\<close>

definition demo_connected :: ClientProtocol where
  "demo_connected = (new_client DefaultClientConfig)\<lparr>cl_generation := 1, cl_state := StateConnected\<rparr>"

definition demo_hello :: Envelope where
  \<open>demo_hello = \<lparr>env_V = 2, env_Type = FrameHello, env_ID = [], env_SessionID = [], env_Seq = 0, env_Timestamp = 0,
     env_Payload = ''{"client_name":"demo"}''\<rparr>\<close>

definition demo_welcome :: Envelope where
  \<open>demo_welcome = \<lparr>env_V = 2, env_Type = FrameWelcome, env_ID = [], env_SessionID = ''s-1'', env_Seq = 0, env_Timestamp = 9,
     env_Payload = ''{"mode":"NEW","server_time":9}''\<rparr>\<close>

definition demo_event :: Envelope where
  \<open>demo_event = \<lparr>env_V = 2, env_Type = FrameEvent, env_ID = ''e-1'', env_SessionID = ''s-1'', env_Seq = 1, env_Timestamp = 9,
     env_Payload = ''{"content":7}''\<rparr>\<close>

definition demo_handshaking :: ClientProtocol where
  "demo_handshaking = demo_connected\<lparr>cl_state := StateHandshaking\<rparr>"

definition demo_ready :: ClientProtocol where
  "demo_ready = demo_connected\<lparr>cl_state := StateReady, cl_sessionID := ''s-1''\<rparr>"

definition demo_delivered :: ClientProtocol where
  "demo_delivered = demo_ready\<lparr>cl_lastSeq := 1, cl_eventIDs := [(1, ''e-1'')]\<rparr>"

lemma demo_new: "NewClientProtocol DefaultClientConfig = Inr (new_client DefaultClientConfig)"
  by code_simp

lemma demo_step1: "perform 0 CallBeginConnect (new_client DefaultClientConfig) =
    (Ret [], (new_client DefaultClientConfig)\<lparr>cl_generation := 1, cl_state := StateConnecting\<rparr>)"
  by code_simp

lemma demo_step2: "perform 0 (CallTransportConnected 1) ((new_client DefaultClientConfig)\<lparr>cl_generation := 1, cl_state := StateConnecting\<rparr>) =
    (Ret [], demo_connected)"
  by code_simp

lemma demo_step3: "perform 0 (CallStartSession 1 ''demo'') demo_connected = (Ret [SendFrameAction demo_hello], demo_handshaking)"
  by code_simp

lemma demo_step4: "perform 0 (CallHandleIncoming 1 demo_welcome) demo_handshaking = (Ret [SessionReadyAction ''s-1''], demo_ready)"
  by code_simp

lemma demo_step5: "perform 0 (CallHandleIncoming 1 demo_event) demo_ready = (Ret [DeliverEventAction demo_event], demo_delivered)"
  by code_simp

lemma client_run_perform:
  "client_run config acts c \<Longrightarrow> perform now call c = (r, c') \<Longrightarrow> client_run config (acts @ outcome_actions r) c'"
  by (rule client_run.step [OF _ client_step.call])

lemma demo_run_ready: "client_run DefaultClientConfig [SendFrameAction demo_hello, SessionReadyAction ''s-1''] demo_ready"
  using client_run_perform [OF client_run_perform [OF client_run_perform [OF client_run_perform
    [OF client_run.start [OF demo_new] demo_step1] demo_step2] demo_step3] demo_step4] by simp

lemma demo_run: "client_run DefaultClientConfig
    [SendFrameAction demo_hello, SessionReadyAction ''s-1'', DeliverEventAction demo_event] demo_delivered"
  using client_run_perform [OF demo_run_ready demo_step5] by simp

section \<open>Delivery\<close>

text \<open>
  C1: In every history of calls the events handed to the application in the current session are
  exactly the events 1, 2, ... up to LastSeq of that session, in order, each once.
\<close>

theorem events_exactly_once_in_order:
  assumes "client_run config acts c"
  shows "map (unat \<circ> env_Seq) (foldl observe [] acts) = [1 ..< Suc (unat (client_LastSeq c))]
    \<and> (\<forall>e\<in>set (foldl observe [] acts). env_Type e = FrameEvent \<and> env_SessionID e = client_SessionID c)"
  using run_inv [OF assms] unfolding history_ok_def client_LastSeq_def client_SessionID_def by blast

theorem events_exactly_once_in_order_witness:
  "client_run DefaultClientConfig [SendFrameAction demo_hello, SessionReadyAction ''s-1'', DeliverEventAction demo_event] demo_delivered
    \<and> map (unat \<circ> env_Seq) [demo_event] = [1 ..< Suc (unat (client_LastSeq demo_delivered))]"
  using events_exactly_once_in_order [OF demo_run] demo_run by (simp add: observe_def)

text \<open>
  C10: Every reachable client state satisfies the invariant: the retained event identities are exactly
  the configured window below LastSeq, the State cache holds valid objects within its object and byte
  limits with its bytes counted exactly, the outbox holds valid SENDs of the session under their ids,
  a buffered replay is a gap-free run after LastSeq within its limits, and no transient state is left
  outside the connection states it belongs to.
\<close>

theorem client_invariant:
  assumes "client_run config acts c"
  shows "client_inv c"
  using run_inv [OF assms] by blast

theorem client_invariant_witness: "client_inv demo_delivered \<and> client_LastSeq demo_delivered = 1"
  using client_invariant [OF demo_run] by (simp add: client_LastSeq_def demo_delivered_def)

section \<open>Output\<close>

definition client_codec :: "ClientProtocol \<Rightarrow> JSONCodec" where
  "client_codec c = \<lparr>jc_Limits = cc_Limits (cl_config c), jc_Strict = cc_StrictValidation (cl_config c)\<rparr>"

lemma frame_ok_encodes:
  assumes "validateLimits (cc_Limits (cl_config c)) = None" "frame_ok (cl_config c) f"
  shows "\<exists>b. Encode (client_codec c) (Some f) = Inr b"
proof -
  have n: "normalizeLimits (cc_Limits (cl_config c)) = cc_Limits (cl_config c)"
    using assms(1) by (rule validateLimits_normalized)
  have v: "ValidateFrame (Some f) (cc_Limits (cl_config c)) (cc_StrictValidation (cl_config c)) = None"
    using assms(2) by (simp add: frame_ok_def)
  obtain j where "Envelope_json f = Some j" using ValidateEnvelope_None(6) [OF ValidateFrame_None(1) [OF v]] by blast
  then show ?thesis using v
    by (simp add: Encode_def client_codec_def codec_limits_def validateOutboundFrame_def n json_Marshal_def)
qed

text \<open>
  C19: No call on a reachable client panics, and every frame it asks to send passes the codec with the
  client's limits and, apart from HELLO, carries the client's current session.
\<close>

theorem client_sends_encodable:
  assumes "client_run config acts c" "perform now call c = (r, c')"
  shows "(\<forall>s. r \<noteq> Panic s) \<and> (\<forall>f. SendFrameAction f \<in> set (outcome_actions r) \<longrightarrow>
    (\<exists>b. Encode (client_codec c) (Some f) = Inr b) \<and> (env_Type f = FrameHello \<or> env_SessionID f = client_SessionID c))"
proof -
  have inv: "client_inv c" using run_inv [OF assms(1)] by blast
  have ok: "call_ok c (r, c')" using perform_ok [OF inv, of now call] assms(2) by simp
  have "(\<exists>b. Encode (client_codec c) (Some f) = Inr b) \<and> (env_Type f = FrameHello \<or> env_SessionID f = client_SessionID c)"
    if "SendFrameAction f \<in> set (outcome_actions r)" for f
  proof -
    have "sent_ok c (SendFrameAction f)" using ok that by (auto simp: call_ok_def step_ok_def list_all_iff)
    then show ?thesis
      using frame_ok_encodes [of c f] inv
      by (simp add: sent_ok_def client_inv_def data_inv_def config_ok_def client_SessionID_def)
  qed
  then show ?thesis using ok by (simp add: call_ok_def)
qed

lemma demo_run_connected: "client_run DefaultClientConfig [] demo_connected"
  using client_run_perform [OF client_run_perform [OF client_run.start [OF demo_new] demo_step1] demo_step2] by simp

theorem client_sends_encodable_witness:
  "perform 0 (CallStartSession 1 ''demo'') demo_connected = (Ret [SendFrameAction demo_hello], demo_handshaking)
    \<and> (\<exists>b. Encode (client_codec demo_connected) (Some demo_hello) = Inr b)"
  using client_sends_encodable [OF demo_run_connected demo_step3] demo_step3 by simp

end
