(* ===== verification/Client_Recovery.thy ===== *)
theory Client_Recovery
  imports Client_Props
begin

text \<open>
  Recovery of the EVENT stream, the State cache and pending SENDs of the client.
\<close>

section \<open>Recovery is atomic\<close>

lemma delivers_stop [simp]: "DeliverEventAction e \<notin> set (stop_actions code r s)"
  by (simp add: stop_actions_def)

lemma failure_no_delivery:
  "handleIncomingFailureLocked err c = (Ret acts, c') \<Longrightarrow> DeliverEventAction e \<notin> set acts"
  by (auto simp: handleIncomingFailureLocked_def Let_def stopReplayLocked_def stopStateResumeLocked_def split: if_splits)

definition recovered :: "ClientProtocol \<Rightarrow> Action list \<Rightarrow> ClientProtocol \<Rightarrow> bool" where
  "recovered c acts c' \<longleftrightarrow> cl_state c' = StateReady \<and> cl_lastSeq c' = cl_replayTo c
     \<and> map (unat \<circ> env_Seq) (foldl observe [] acts) = [Suc (unat (cl_lastSeq c)) ..< Suc (unat (cl_replayTo c))]"

lemma recovered_complete:
  assumes "data_inv c" "cl_sessionID c \<noteq> []" "replay_run c" "deliver_replay (cl_replayBuffer c) c = (acts, c')"
    and "unat (cl_lastSeq c) + length (cl_replayBuffer c) = unat (cl_replayTo c)" "list_all quiet rest"
  shows "recovered c (acts @ rest) (become_ready c')"
proof -
  let ?es = "cl_replayBuffer c"
  have run: "map (unat \<circ> env_Seq) ?es = [Suc (unat (cl_lastSeq c)) ..< Suc (unat (cl_lastSeq c) + length ?es)]"
    using assms(3) unfolding replay_run_def by blast
  note D = deliver_replay_run [OF assms(1,2) run, unfolded assms(4), simplified]
  have "cl_lastSeq c' = cl_replayTo c" using D assms(5) by (simp add: word_unat_eq_iff)
  moreover have "foldl observe [] (acts @ rest) = ?es"
    using D observe_deliver [of "[]" ?es] observe_quiet [OF assms(6)] by simp
  ultimately show ?thesis using run unfolding assms(5) by (simp add: recovered_def client_defs del: upt_Suc)
qed

lemma replay_event_recovers:
  assumes "client_inv c" "cl_state c = StateResuming" "env_Type frame = FrameEvent" "env_SessionID frame = cl_sessionID c"
    "frame_ok (cl_config c) frame" "cl_lastSeq c < env_Seq frame"
    and "replay_event frame c = (Inr acts, c')" "DeliverEventAction e \<in> set acts"
  shows "recovered c acts c'"
proof -
  let ?b = "cl_replayBuffer c"
  let ?c = "c\<lparr>cl_replayBuffer := ?b @ [frame], cl_replayBytes := cl_replayBytes c + replayEventBytes frame\<rparr>"
  have inv: "data_inv c" "cl_sessionID c \<noteq> []" "replay_run c" "replay_bounds c"
    using assms(1,2) by (auto simp: client_inv_def conn_inv_def replay_ok_def session_ok_def)
  have z: "cl_replayTo c \<noteq> 0" using assms(7,8) by (auto simp: replay_event_def split: if_splits)
  have q: "\<not> (env_Seq frame \<noteq> cl_lastSeq c + of_nat (length ?b) + 1 \<or> cl_replayTo c < env_Seq frame)"
    (is "\<not> ?q")
  proof
    assume ?q
    then have "fst (replay_event frame c) = Inl (violation ''invalid replay sequence'')"
      using z by (simp only: replay_event_def if_False if_True fst_conv)
    then show False using assms(7) by simp
  qed
  have l: "\<not> (of_nat (length ?b) + 1 > cc_MaxReplayEvents (cl_config c)
      \<or> replayEventBytes frame > cc_MaxReplayBytes (cl_config c) - cl_replayBytes c)" (is "\<not> ?l")
  proof
    assume ?l
    then have "fst (replay_event frame c) = Inr (fst (stopReplayLocked ''replay exceeds configured memory limit'' c))"
      using z q by (simp only: replay_event_def if_False if_True case_prod_beta fst_conv)
    then show False using assms(7,8) by (simp add: stopReplayLocked_def)
  qed
  have body: "replay_event frame c = (if env_Seq frame \<noteq> cl_replayTo c then (Inr [], ?c)
      else if cl_resumeStateNamespaces c \<noteq> [] then (Inr [], ?c\<lparr>cl_resumeEventsComplete := True\<rparr>)
      else (case deliver_replay (cl_replayBuffer ?c) ?c of (actions, c2) \<Rightarrow>
              (Inr (actions @ [SessionReadyAction (cl_sessionID c2)]), become_ready c2)))"
    using z unfolding replay_event_def if_not_P [OF q] if_not_P [OF l] by (simp add: Let_def del: deliver_replay.simps)
  from assms(7,8) body obtain ds c2 where eq: "env_Seq frame = cl_replayTo c"
      "deliver_replay (cl_replayBuffer ?c) ?c = (ds, c2)" "acts = ds @ [SessionReadyAction (cl_sessionID c2)]"
      "c' = become_ready c2"
    by (auto simp del: deliver_replay.simps split: if_splits prod.splits)
  have ok: "env_Seq frame = cl_lastSeq c + of_nat (length ?b) + 1" "env_Seq frame \<le> cl_replayTo c"
      "of_nat (length ?b) + 1 \<le> cc_MaxReplayEvents (cl_config c)"
      "replayEventBytes frame \<le> cc_MaxReplayBytes (cl_config c) - cl_replayBytes c"
    using q l by (simp_all add: not_less)
  have run: "replay_run ?c" by (rule replay_append(1) [OF inv(3,4) z ok assms(3-6)])
  then have "map (unat \<circ> env_Seq) (?b @ [frame]) = [Suc (unat (cl_lastSeq c)) ..< Suc (unat (cl_lastSeq c) + length (?b @ [frame]))]"
    by (simp add: replay_run_def)
  then have "unat (env_Seq frame) = Suc (unat (cl_lastSeq c) + length ?b)" unfolding run_snoc by simp
  then have n: "unat (cl_lastSeq ?c) + length (cl_replayBuffer ?c) = unat (cl_replayTo ?c)" using eq(1) by simp
  have "data_inv ?c" "cl_sessionID ?c \<noteq> []" using inv(1,2) by (simp_all add: data_defs)
  from recovered_complete [OF this run eq(2) n, of "[SessionReadyAction (cl_sessionID c2)]"]
  show ?thesis using eq by (simp add: recovered_def quiet_def)
qed

lemma snapshot_recovers:
  assumes "client_inv c" "cl_state c = StateResuming"
    and "handleResumeStateSnapshotLocked frame c = (Inr acts, c')" "DeliverEventAction e \<in> set acts"
  shows "recovered c acts c'"
proof -
  have inv: "data_inv c" "cl_sessionID c \<noteq> []" "replay_run c" "replay_bounds c"
    using assms(1,2) by (auto simp: client_inv_def conn_inv_def replay_ok_def session_ok_def)
  obtain xs sa c1 ds c2 where a: "applyStateObjectsLocked xs c = (Inr sa, c1)" "cl_resumeEventsComplete c"
      "deliver_replay (cl_replayBuffer c1) c1 = (ds, c2)" "acts = ds @ sa @ [SessionReadyAction (cl_sessionID c2)]"
      "c' = become_ready c2"
    using assms(3,4)
    by (auto simp: handleResumeStateSnapshotLocked_def stopStateResumeLocked_def simp del: deliver_replay.simps
        split: if_splits prod.splits sum.splits)
  from applyState_ok [OF assms(1) inv(2), of xs] a(1) obtain m n where
      c1: "c1 = c\<lparr>cl_stateObjects := m, cl_stateBytes := n\<rparr>" "data_inv c1" "list_all quiet sa" by auto
  have run: "replay_run c1" "cl_sessionID c1 \<noteq> []" using inv(2,3) by (simp_all add: c1(1) replay_run_def)
  have "cl_replayBuffer c \<noteq> []"
  proof
    assume "cl_replayBuffer c = []"
    then have "ds = []" using a(3) c1(1) by simp
    moreover have "DeliverEventAction e \<notin> set sa" using c1(3) by (auto simp: list_all_iff quiet_def)
    ultimately show False using assms(4) a(4) by simp
  qed
  then have "unat (cl_lastSeq c1) + length (cl_replayBuffer c1) = unat (cl_replayTo c1)"
    using inv(4) a(2) by (auto simp: c1(1) replay_bounds_def)
  from recovered_complete [OF c1(2) run(2,1) a(3) this, of "sa @ [SessionReadyAction (cl_sessionID c2)]"]
  show ?thesis using a c1 by (simp add: recovered_def quiet_def)
qed

lemma welcome_no_delivery:
  "cl_state c = StateResuming \<Longrightarrow> handleWelcomeLocked frame c = (Inr acts, c') \<Longrightarrow> DeliverEventAction e \<notin> set acts"
  unfolding handleWelcomeLocked_def welcome_resumed_def Let_def stopReplayLocked_def
  by (simp split: sum.splits if_splits) auto

lemma error_no_delivery: "handleErrorLocked frame c = (Inr acts, c') \<Longrightarrow> DeliverEventAction e \<notin> set acts"
proof -
  have "\<exists>c'. handleErrorLocked frame c = (Inr as, c') \<Longrightarrow> DeliverEventAction e \<notin> set as" for as
    unfolding handleErrorLocked_def Let_def by (simp split: sum.splits) auto
  then show "handleErrorLocked frame c = (Inr acts, c') \<Longrightarrow> DeliverEventAction e \<notin> set acts" by blast
qed

lemma invalid_while_resuming:
  assumes "cl_state c = StateResuming"
  shows "handlePongLocked g frame c = (Inl ErrInvalidState, c)" "handleAckLocked frame c = (Inl ErrInvalidState, c)"
    "handleStateUpdateLocked frame c = (Inl ErrInvalidState, c)"
  using assms by (simp_all add: handlePongLocked_def handleAckLocked_def handleStateUpdateLocked_def)

lemma dispatch_recovers:
  assumes "client_inv c" "cl_state c = StateResuming" "frame_ok (cl_config c) frame" "wrong_session frame c = None"
    and "dispatch_incoming g frame now c = (Inr acts, c')" "DeliverEventAction e \<in> set acts"
  shows "recovered c acts c'"
proof -
  consider (event) "env_Type frame = FrameEvent" "handleEventLocked frame now c = (Inr acts, c')"
    | (snapshot) "handleStateSnapshotLocked frame c = (Inr acts, c')"
    | (other) "handleWelcomeLocked frame c = (Inr acts, c') \<or> handlePongLocked g frame c = (Inr acts, c')
        \<or> handleAckLocked frame c = (Inr acts, c') \<or> handleStateUpdateLocked frame c = (Inr acts, c')
        \<or> handleErrorLocked frame c = (Inr acts, c')"
    using assms(5) by (auto simp: dispatch_incoming_def split: if_splits)
  then show ?thesis
  proof cases
    case event
    have "env_SessionID frame = cl_sessionID c" using assms(4) event(1) by (simp add: wrong_session_def frame_type_defs)
    moreover have "cl_lastSeq c < env_Seq frame" "replay_event frame c = (Inr acts, c')"
      using event(2) assms(2,6) by (auto simp: handleEventLocked_def not_le split: if_splits option.splits)
    ultimately show ?thesis using replay_event_recovers assms(1-3,6) event(1) by blast
  next
    case snapshot
    then show ?thesis using snapshot_recovers [OF assms(1,2) _ assms(6)] assms(2)
      by (simp add: handleStateSnapshotLocked_def)
  next
    case other
    then show ?thesis
      using assms(6) welcome_no_delivery [OF assms(2)] error_no_delivery invalid_while_resuming [OF assms(2)] by auto
  qed
qed

text \<open>
  C3: While a reachable client recovers its stream, a frame either delivers nothing to the
  application or completes the recovery: then exactly the missing events LastSeq+1 up to the replay
  boundary the server announced are delivered, in order and in one batch, and the client is READY.
\<close>

theorem recovery_atomic:
  assumes "client_run config acts0 c" "client_State c = StateResuming"
    and "HandleIncoming now g frame c = (Ret acts, c')" "DeliverEventAction e \<in> set acts"
  shows "client_State c' = StateReady \<and> client_LastSeq c' = cl_replayTo c
    \<and> map (unat \<circ> env_Seq) (foldl observe [] acts) = [Suc (unat (client_LastSeq c)) ..< Suc (unat (cl_replayTo c))]"
proof -
  have inv: "client_inv c" using run_inv [OF assms(1)] by blast
  have s: "cl_state c = StateResuming" using assms(2) by (simp add: client_State_def)
  have v: "frame_ok (cl_config c) frame" "wrong_session frame c = None" "dispatch_incoming g frame now c = (Inr acts, c')"
    using assms(3,4) failure_no_delivery
    by (auto simp: HandleIncoming_def frame_ok_def split: if_splits option.splits prod.splits sum.splits)
  show ?thesis
    using dispatch_recovers [OF inv s v assms(4)] unfolding recovered_def client_State_def client_LastSeq_def by blast
qed

definition demo_event2 :: Envelope where
  \<open>demo_event2 = demo_event\<lparr>env_ID := ''e-2'', env_Seq := 2\<rparr>\<close>

definition demo_event3 :: Envelope where
  \<open>demo_event3 = demo_event\<lparr>env_ID := ''e-3'', env_Seq := 3\<rparr>\<close>

definition demo_resume :: Envelope where
  \<open>demo_resume = \<lparr>env_V = 2, env_Type = FrameResume, env_ID = [], env_SessionID = ''s-1'', env_Seq = 0, env_Timestamp = 0,
     env_Payload = ''{"last_seq":1}''\<rparr>\<close>

definition demo_resumed :: Envelope where
  \<open>demo_resumed = \<lparr>env_V = 2, env_Type = FrameWelcome, env_ID = [], env_SessionID = ''s-1'', env_Seq = 0, env_Timestamp = 9,
     env_Payload = ''{"mode":"RESUMED","server_time":9,"resume_from":2,"replay_to":2}''\<rparr>\<close>

definition demo_gap :: ClientProtocol where
  "demo_gap = demo_delivered\<lparr>cl_state := StateResuming, cl_gapResume := True\<rparr>"

definition demo_replaying :: ClientProtocol where
  "demo_replaying = demo_delivered\<lparr>cl_state := StateResuming, cl_replayTo := 2\<rparr>"

definition demo_recovered :: ClientProtocol where
  "demo_recovered = demo_delivered\<lparr>cl_lastSeq := 2, cl_eventIDs := [(1, ''e-1''), (2, ''e-2'')]\<rparr>"

lemma demo_step6: "perform 0 (CallHandleIncoming 1 demo_event3) demo_delivered = (Ret [SendFrameAction demo_resume], demo_gap)"
  by code_simp

lemma demo_step7: "perform 0 (CallHandleIncoming 1 demo_resumed) demo_gap = (Ret [], demo_replaying)"
  by code_simp

lemma demo_step8: "HandleIncoming 0 1 demo_event2 demo_replaying =
    (Ret [DeliverEventAction demo_event2, SessionReadyAction ''s-1''], demo_recovered)"
  by code_simp

lemma demo_run_replaying: "\<exists>acts. client_run DefaultClientConfig acts demo_replaying"
  using client_run_perform [OF client_run_perform [OF demo_run demo_step6] demo_step7] by blast

theorem recovery_atomic_witness:
  "HandleIncoming 0 1 demo_event2 demo_replaying = (Ret [DeliverEventAction demo_event2, SessionReadyAction ''s-1''], demo_recovered)
    \<and> client_State demo_recovered = StateReady \<and> client_LastSeq demo_recovered = cl_replayTo demo_replaying"
proof -
  obtain acts where run: "client_run DefaultClientConfig acts demo_replaying" using demo_run_replaying by blast
  have "client_State demo_replaying = StateResuming" by (simp add: client_State_def demo_replaying_def)
  from recovery_atomic [OF run this demo_step8, of demo_event2] show ?thesis using demo_step8 by simp
qed

section \<open>The State cache\<close>

lemma apply_objects_merge:
  "apply_objects cfg xs m n = Inr (acts, m', n') \<Longrightarrow>
     map_get m' i = fold (merge_state (cc_Limits cfg)) (filter (\<lambda>x. Identity x = i) xs) (map_get m i)"
proof (induction cfg xs m n arbitrary: acts rule: apply_objects.induct)
  case (2 cfg x xs m n)
  obtain y res err where a: "ApplyStateObject (map_get m (Identity x)) x (cc_Limits cfg) = (y, res, err)"
    by (metis prod_cases3)
  then have e: "err = None" using "2.prems" by (cases err) (auto simp: Let_def split: if_splits)
  note r = Apply_None [OF a [unfolded e]]
  have ms: "merge_state (cc_Limits cfg) x (map_get m (Identity x)) = Some y" using a e by (simp add: merge_state_def)
  show ?case
  proof (cases "res = StateApplyDuplicate")
    case True
    then have rec: "apply_objects cfg xs m n = Inr (acts, m', n')" using "2.prems" a e by (simp add: Let_def)
    have "map_get m (Identity x) = Some y" using r True by auto
    then show ?thesis using "2.IH"(1) [OF refl refl a [symmetric] refl e True rec] ms by auto
  next
    case False
    let ?n = "(case map_get m (Identity x) of None \<Rightarrow> n | Some cur \<Rightarrow> n - stateObjectBytes cur) + stateObjectBytes y"
    from "2.prems" a e False obtain acts' where
        lim: "\<not> (map_get m (Identity x) = None \<and> cc_MaxStateObjects cfg < len m + 1)" "\<not> cc_MaxStateBytes cfg < ?n"
        and rec: "apply_objects cfg xs (map_put (Identity x) y m) ?n = Inr (acts', m', n')"
      by (auto simp: Let_def ebind_Inr split: if_splits)
    show ?thesis using "2.IH"(2) [OF refl refl a [symmetric] refl e False lim(1) refl lim(2) rec] ms by auto
  qed
qed simp

lemma apply_objects_valid:
  "apply_objects cfg xs m n = Inr (acts, m', n') \<Longrightarrow> x \<in> set xs \<Longrightarrow> state_ok (cc_Limits cfg) x"
proof (induction cfg xs m n arbitrary: acts rule: apply_objects.induct)
  case (2 cfg z xs m n)
  obtain y res err where a: "ApplyStateObject (map_get m (Identity z)) z (cc_Limits cfg) = (y, res, err)"
    by (metis prod_cases3)
  then have e: "err = None" using "2.prems"(1) by (cases err) (auto simp: Let_def split: if_splits)
  then have ok: "state_ok (cc_Limits cfg) z" using Apply_None a by blast
  have "\<exists>as m1 n1. apply_objects cfg xs m1 n1 = Inr (as, m', n')
      \<and> (\<forall>as. apply_objects cfg xs m1 n1 = Inr (as, m', n') \<longrightarrow> x \<in> set xs \<longrightarrow> state_ok (cc_Limits cfg) x)"
    using "2.prems"(1) "2.IH" a e by (simp add: Let_def ebind_Inr split: if_splits) blast+
  then show ?case using ok "2.prems"(2) by auto
qed simp

text \<open>
  C17: A batch of State objects applied to a reachable client's cache is all or nothing: either the
  client is unchanged, or for every identity the cached object is the result of merging the batch's
  objects of that identity, in order, into the cached one, and no cached version goes down.
\<close>

theorem state_cache_refines_merge:
  assumes "client_run config acts0 c" "client_SessionID c \<noteq> []" "applyStateObjectsLocked xs c = (r, c')"
  shows "case r of Inl e \<Rightarrow> c' = c | Inr acts \<Rightarrow>
    client_StateObject c' ns i = fold (merge_state (cc_Limits (cl_config c))) (filter (\<lambda>x. Identity x = (ns, i)) xs) (client_StateObject c ns i)
    \<and> (\<forall>x. client_StateObject c ns i = Some x \<longrightarrow> (\<exists>y. client_StateObject c' ns i = Some y \<and> so_Version x \<le> so_Version y))"
proof (cases r)
  case (Inr acts)
  have inv: "client_inv c" using run_inv [OF assms(1)] by blast
  let ?l = "cc_Limits (cl_config c)" and ?ys = "filter (\<lambda>x. Identity x = (ns, i)) xs"
  obtain n where ap: "apply_objects (cl_config c) xs (cl_stateObjects c) (cl_stateBytes c) = Inr (acts, cl_stateObjects c', n)"
    using assms(3) Inr by (auto simp: applyStateObjectsLocked_def split: sum.splits)
  have cl: "client_StateObject d ns i = map_get (cl_stateObjects d) (ns, i)" for d
    by (cases "map_get (cl_stateObjects d) (ns, i)") (simp_all add: client_StateObject_def)
  have eq: "client_StateObject c' ns i = fold (merge_state ?l) ?ys (client_StateObject c ns i)"
    unfolding cl by (rule apply_objects_merge [OF ap])
  have "\<exists>y. client_StateObject c' ns i = Some y \<and> so_Version x \<le> so_Version y" if x: "client_StateObject c ns i = Some x" for x
  proof -
    have "state_ok ?l x" "Identity x = (ns, i)"
      using x inv unfolding cl by (auto simp: client_inv_def data_inv_def cache_ok_def objects_ok_def map_all_def)
    moreover have "\<forall>y\<in>set ?ys. state_ok ?l y" using apply_objects_valid [OF ap] by auto
    ultimately have "\<forall>y\<in>set (x # ?ys). state_ok ?l y \<and> Identity y = (ns, i)" by auto
    from merge_fold [OF this] show ?thesis unfolding eq x by auto
  qed
  then show ?thesis using Inr eq by simp
qed (use assms(3) in \<open>auto simp: applyStateObjectsLocked_def split: sum.splits\<close>)

definition demo_object :: StateObject where
  "demo_object = \<lparr>so_Namespace = ''room'', so_ObjectID = ''1'', so_Version = 4, so_Data = ''7''\<rparr>"

definition demo_cached :: ClientProtocol where
  "demo_cached = demo_ready\<lparr>cl_stateObjects := [((''room'', ''1''), demo_object)], cl_stateBytes := 14\<rparr>"

lemma demo_apply: "applyStateObjectsLocked [demo_object] demo_ready = (Inr [StateChangedAction demo_object StateApplyApplied], demo_cached)"
  by code_simp

theorem state_cache_refines_merge_witness:
  "applyStateObjectsLocked [demo_object] demo_ready = (Inr [StateChangedAction demo_object StateApplyApplied], demo_cached)
    \<and> client_StateObject demo_cached ''room'' ''1'' = merge_state (cc_Limits (cl_config demo_ready)) demo_object None"
proof -
  have "client_SessionID demo_ready \<noteq> []" by (simp add: client_SessionID_def demo_ready_def)
  from state_cache_refines_merge [OF demo_run_ready this demo_apply, of "''room''" "''1''"] demo_apply
  show ?thesis by (simp add: client_StateObject_def demo_object_def demo_ready_def demo_connected_def new_client_def Identity_def)
qed

section \<open>Pending messages\<close>

lemma deliver_replay_outbox [simp]: "cl_outbox (snd (deliver_replay es c)) = cl_outbox c"
  by (induction es c rule: deliver_replay.induct) (auto simp: rememberEventLocked_def Let_def split: prod.splits)

lemma outbox_transitions [simp]:
  "cl_outbox (disconnectLocked c) = cl_outbox c" "cl_outbox (become_ready c) = cl_outbox c"
  "cl_outbox (beginRecoveryLocked ns gap c) = cl_outbox c" "cl_outbox (resetConnectionTransientLocked c) = cl_outbox c"
  "cl_outbox (rememberEventLocked s i c) = cl_outbox c" "cl_outbox (snd (stopReplayLocked r c)) = cl_outbox c"
  "cl_outbox (snd (stopStateResumeLocked r c)) = cl_outbox c"
  "cl_outbox (snd (applyStateObjectsLocked xs c)) = cl_outbox c"
  by (simp_all add: client_defs rememberEventLocked_def Let_def applyStateObjectsLocked_def split: sum.split)

lemma failure_outbox [simp]: "cl_outbox (snd (handleIncomingFailureLocked err c)) = cl_outbox c"
  by (simp add: handleIncomingFailureLocked_def Let_def case_prod_beta)

lemma welcome_new_outbox: "cl_outbox (snd (welcome_new f p c)) = cl_outbox c"
  by (simp add: welcome_new_def Let_def split: sum.split option.split)

lemma welcome_resumed_outbox: "cl_outbox (snd (welcome_resumed f p c)) = cl_outbox c"
  unfolding welcome_resumed_def Let_def case_prod_beta if_distrib [of snd] if_distrib [of cl_outbox] snd_conv
    outbox_transitions ClientProtocol.simps if_cancel by simp

lemma welcome_outbox: "cl_outbox (snd (handleWelcomeLocked f c)) = cl_outbox c"
  by (simp add: handleWelcomeLocked_def welcome_new_outbox welcome_resumed_outbox split: sum.split ConnectionState.split)

lemma replay_event_outbox: "cl_outbox (snd (replay_event f c)) = cl_outbox c"
  unfolding replay_event_def Let_def case_prod_beta if_distrib [of snd] if_distrib [of cl_outbox] snd_conv
    outbox_transitions deliver_replay_outbox ClientProtocol.simps if_cancel by simp

lemma live_event_outbox: "cl_outbox (snd (live_event f now c)) = cl_outbox c"
  by (simp add: live_event_def Let_def split: option.split)

lemma event_outbox: "cl_outbox (snd (handleEventLocked f now c)) = cl_outbox c"
  by (simp add: handleEventLocked_def replay_event_outbox live_event_outbox split: option.split)

lemma snapshot_outbox: "cl_outbox (snd (handleStateSnapshotLocked f c)) = cl_outbox c"
  unfolding handleStateSnapshotLocked_def handleResumeStateSnapshotLocked_def case_prod_beta
  by (simp split: sum.split option.split del: deliver_replay.simps)

lemma pong_update_outbox:
  "cl_outbox (snd (handlePongLocked g f c)) = cl_outbox c" "cl_outbox (snd (handleStateUpdateLocked f c)) = cl_outbox c"
  by (simp_all add: handlePongLocked_def handleStateUpdateLocked_def split: sum.split)

lemma ack_outbox:
  "handleAckLocked f c = (Inr acts, c') \<Longrightarrow> AckedAction i \<notin> set acts \<Longrightarrow> map_get (cl_outbox c') i = map_get (cl_outbox c) i"
  by (auto simp: handleAckLocked_def split: sum.splits if_splits)

text \<open>An ERROR keeps the outbox unless it ends the session.\<close>

lemma error_outbox:
  "handleErrorLocked f c = (Inr acts, c') \<Longrightarrow>
     (\<exists>p. ProtocolErrorAction p \<in> set acts \<and> er_Code p = ErrorInvalidSession) \<or> cl_outbox c' = cl_outbox c"
proof -
  assume h: "handleErrorLocked f c = (Inr acts, c')"
  show ?thesis
  proof (cases "decodePayload (env_Payload f) dec_ErrorPayload zero_ErrorPayload (cc_StrictValidation (cl_config c))")
    case (Inl e)
    then show ?thesis using h by (auto simp: handleErrorLocked_def)
  next
    case (Inr p)
    have "cl_outbox (snd (handleErrorLocked f c)) = cl_outbox c" if "er_Code p \<noteq> ErrorInvalidSession"
      using Inr that by (simp add: handleErrorLocked_def Let_def BehaviorForErrorCode_abandon)
    moreover have "ProtocolErrorAction p \<in> set acts" using h Inr by (auto simp: handleErrorLocked_def Let_def)
    ultimately show ?thesis using h by auto
  qed
qed

lemma dispatch_outbox:
  assumes "dispatch_incoming g f now c = (Inr acts, c')" "AckedAction i \<notin> set acts"
    and "\<forall>p. ProtocolErrorAction p \<in> set acts \<longrightarrow> er_Code p \<noteq> ErrorInvalidSession"
  shows "map_get (cl_outbox c') i = map_get (cl_outbox c) i"
proof -
  have keep: "handleWelcomeLocked f c = (Inr acts, c') \<Longrightarrow> cl_outbox c' = cl_outbox c"
      "handleEventLocked f now c = (Inr acts, c') \<Longrightarrow> cl_outbox c' = cl_outbox c"
      "handleStateSnapshotLocked f c = (Inr acts, c') \<Longrightarrow> cl_outbox c' = cl_outbox c"
      "handlePongLocked g f c = (Inr acts, c') \<Longrightarrow> cl_outbox c' = cl_outbox c"
      "handleStateUpdateLocked f c = (Inr acts, c') \<Longrightarrow> cl_outbox c' = cl_outbox c"
    using welcome_outbox [of f c] event_outbox [of f now c] snapshot_outbox [of f c]
      pong_update_outbox(1) [of g f c] pong_update_outbox(2) [of f c] by simp_all
  have "handleAckLocked f c = (Inr acts, c') \<or> handleErrorLocked f c = (Inr acts, c') \<or> cl_outbox c' = cl_outbox c"
    using assms(1) keep unfolding dispatch_incoming_def by (simp split: if_splits)
  then consider "handleAckLocked f c = (Inr acts, c')" | "handleErrorLocked f c = (Inr acts, c')"
    | "cl_outbox c' = cl_outbox c" by blast
  then show ?thesis
  proof cases
    case 1
    then show ?thesis using ack_outbox assms(2) by blast
  next
    case 2
    then have "cl_outbox c' = cl_outbox c" using error_outbox assms(3) by blast
    then show ?thesis by simp
  qed simp
qed

lemma HandleIncoming_outbox:
  assumes "HandleIncoming now g f c = (r, c')" "AckedAction i \<notin> set (outcome_actions r)" "client_inv c"
    and "\<forall>p. ProtocolErrorAction p \<in> set (outcome_actions r) \<longrightarrow> er_Code p \<noteq> ErrorInvalidSession"
  shows "map_get (cl_outbox c') i = map_get (cl_outbox c) i"
proof -
  have fail: "cl_outbox c' = cl_outbox c" if "handleIncomingFailureLocked e c = (r, c')" for e
    using that failure_outbox [of e c] by simp
  show ?thesis
  proof (cases "g = cl_generation c \<and> frame_ok (cl_config c) f \<and> wrong_session f c = None")
    case True
    then have eq: "HandleIncoming now g f c = (case dispatch_incoming g f now c of
        (Inl err, c1) \<Rightarrow> handleIncomingFailureLocked err c1 | (Inr actions, c1) \<Rightarrow> (Ret actions, c1))"
      by (simp add: HandleIncoming_def frame_ok_def)
    obtain d c1 where d: "dispatch_incoming g f now c = (d, c1)" by (cases "dispatch_incoming g f now c")
    show ?thesis
    proof (cases d)
      case (Inl e)
      then have "c1 = c" using dispatch_ok [of c f g now] d assms(3) True by simp
      then show ?thesis using assms(1) eq d Inl fail by simp
    next
      case (Inr acts)
      then show ?thesis using assms(1,2,4) eq d dispatch_outbox [of g f now c acts c1 i] by auto
    qed
  next
    case False
    then have "cl_outbox c' = cl_outbox c"
      using assms(1) fail by (auto simp: HandleIncoming_def frame_ok_def split: option.splits if_splits)
    then show ?thesis by simp
  qed
qed

lemma calls_outbox:
  "cl_outbox (snd (BeginConnect c)) = cl_outbox c" "cl_outbox (snd (TransportConnected g c)) = cl_outbox c"
  "cl_outbox (snd (StartSession g name c)) = cl_outbox c" "cl_outbox (snd (startResumeLocked g ns now c)) = cl_outbox c"
  "cl_outbox (snd (Disconnect g c)) = cl_outbox c" "cl_outbox (snd (QueryState now i n ids c)) = cl_outbox c"
  "cl_outbox (snd (RetryPending c)) = cl_outbox c" "cl_outbox (snd (SendPing now g i c)) = cl_outbox c"
  "cl_outbox (snd (CheckHeartbeat now g c)) = cl_outbox c"
  by (simp_all add: BeginConnect_def TransportConnected_def StartSession_def startResumeLocked_def Disconnect_def
      QueryState_def RetryPending_def SendPing_def CheckHeartbeat_def Let_def split: option.split)

lemma ResumeWithState_outbox: "cl_outbox (snd (ResumeWithState now g ns c)) = cl_outbox c"
  by (simp add: ResumeWithState_def Let_def calls_outbox split: option.split)

lemma EnqueueSend_outbox:
  "map_get (cl_outbox c) i = Some f \<Longrightarrow> map_get (cl_outbox (snd (EnqueueSend now j content c))) i = Some f"
  by (auto simp: EnqueueSend_def Let_def split: option.split)

lemma perform_outbox:
  assumes "client_inv c" "perform now call c = (r, c')" "map_get (cl_outbox c) i = Some f"
    and "AckedAction i \<notin> set (outcome_actions r)"
    and "\<forall>p. ProtocolErrorAction p \<in> set (outcome_actions r) \<longrightarrow> er_Code p \<noteq> ErrorInvalidSession"
  shows "map_get (cl_outbox c') i = Some f"
proof -
  have c': "c' = snd (perform now call c)" using assms(2) by simp
  show ?thesis
  proof (cases call)
    case (CallHandleIncoming g frame)
    then show ?thesis using HandleIncoming_outbox [of now g frame c r c' i] assms by simp
  qed (use assms(3) EnqueueSend_outbox in \<open>simp_all add: c' calls_outbox ResumeWithState_outbox Resume_def case_prod_beta\<close>)
qed

text \<open>
  C18: A SEND waiting for its ACK stays in a reachable client's outbox through every call, connection
  loss and reconnection included, until its ACK is reported or the session is abandoned, and while the
  client is READY RetryPending sends exactly that frame again.
\<close>

theorem pending_send_kept:
  assumes "client_run config acts c" "map_get (cl_outbox c) i = Some f" "perform now call c = (r, c')"
    and "AckedAction i \<notin> set (outcome_actions r)"
    and "\<forall>p. ProtocolErrorAction p \<in> set (outcome_actions r) \<longrightarrow> er_Code p \<noteq> ErrorInvalidSession"
  shows "map_get (cl_outbox c') i = Some f
    \<and> (client_State c' = StateReady \<longrightarrow> SendFrameAction f \<in> set (outcome_actions (fst (RetryPending c'))))"
proof -
  have kept: "map_get (cl_outbox c') i = Some f"
    using perform_outbox [OF _ assms(3,2,4,5)] run_inv [OF assms(1)] by blast
  then have "i \<in> fst ` set (cl_outbox c')" by (metis map_get_None option.distinct(1))
  then have "SendFrameAction f \<in> set (outcome_actions (fst (RetryPending c')))" if "client_State c' = StateReady"
    using that kept by (force simp: RetryPending_def client_State_def sortStrings_sort)
  with kept show ?thesis by blast
qed

definition demo_send :: Envelope where
  \<open>demo_send = \<lparr>env_V = 2, env_Type = FrameSend, env_ID = ''m-1'', env_SessionID = ''s-1'', env_Seq = 0, env_Timestamp = 0,
     env_Payload = ''{"content":[1,2]}''\<rparr>\<close>

definition demo_pending :: ClientProtocol where
  "demo_pending = demo_ready\<lparr>cl_outbox := [(''m-1'', demo_send)]\<rparr>"

lemma demo_enqueue: "perform 0 (CallEnqueueSend ''m-1'' ''[1, 2]'') demo_ready = (Ret [SendFrameAction demo_send], demo_pending)"
  by code_simp

lemma demo_run_pending: "\<exists>acts. client_run DefaultClientConfig acts demo_pending"
  using client_run_perform [OF demo_run_ready demo_enqueue] by blast

theorem pending_send_kept_witness:
  "map_get (cl_outbox (snd (BeginConnect demo_pending))) ''m-1'' = Some demo_send"
proof -
  obtain acts where run: "client_run DefaultClientConfig acts demo_pending" using demo_run_pending by blast
  have "map_get (cl_outbox demo_pending) ''m-1'' = Some demo_send" by (simp add: demo_pending_def)
  moreover have "perform 0 CallBeginConnect demo_pending = (Ret [], snd (BeginConnect demo_pending))" by simp
  ultimately show ?thesis using pending_send_kept [OF run, of "''m-1''" demo_send 0 CallBeginConnect] by simp
qed

section \<open>Old events\<close>

text \<open>
  C22: An event at or below LastSeq is never delivered again: a READY client ignores it when its
  identity is the one delivered under that sequence number, reports a conflict when it is another
  one, and reports an expired identity exactly when the number is outside the retained window.
\<close>

theorem old_event_verified:
  assumes "client_run config acts c" "client_State c = StateReady" "env_Seq frame \<le> client_LastSeq c" "env_Seq frame \<noteq> 0"
  shows "handleEventLocked frame now c =
    (if unat (client_LastSeq c) < unat (env_Seq frame) + unat (cc_EventIdentityWindow (cl_config c)) then
       (if env_ID (foldl observe [] acts ! (unat (env_Seq frame) - 1)) = env_ID frame then (Inr [], c)
        else (Inl ErrProtocolConflict, c))
     else (Inl ErrIdentityExpired, c))"
proof -
  let ?h = "foldl observe [] acts" and ?s = "env_Seq frame"
  have inv: "ids_ok c" and h: "history_ok ?h c"
    using run_inv [OF assms(1)] by (auto simp: client_inv_def data_inv_def)
  have map: "map (unat \<circ> env_Seq) ?h = [1 ..< Suc (unat (cl_lastSeq c))]" using h unfolding history_ok_def by blast
  have le: "0 < unat ?s" "unat ?s \<le> unat (cl_lastSeq c)"
    using assms(3,4) by (simp_all add: client_LastSeq_def word_le_nat_alt unat_gt_0)
  have "length ?h = unat (cl_lastSeq c)" using arg_cong [OF map, of length] by simp
  then have n: "unat ?s - 1 < length ?h" using le by simp
  have "unat (env_Seq (?h ! (unat ?s - 1))) = map (unat \<circ> env_Seq) ?h ! (unat ?s - 1)" using n by simp
  also have "\<dots> = unat ?s" unfolding map using le by (simp del: upt_Suc)
  finally have seq: "env_Seq (?h ! (unat ?s - 1)) = ?s" by (simp add: word_unat_eq_iff)
  have id: "k = env_ID (?h ! (unat ?s - 1))" if "map_get (cl_eventIDs c) ?s = Some k" for k
    using h that nth_mem [OF n] seq unfolding history_ok_def by metis
  have dom: "map_get (cl_eventIDs c) ?s \<noteq> None \<longleftrightarrow> unat (cl_lastSeq c) < unat ?s + unat (cc_EventIdentityWindow (cl_config c))"
    using inv le by (simp add: ids_ok_def)
  show ?thesis
  proof (cases "map_get (cl_eventIDs c) ?s")
    case None
    then show ?thesis using dom assms(2,3) by (simp add: handleEventLocked_def client_State_def client_LastSeq_def)
  next
    case (Some k)
    then show ?thesis using dom id [OF Some] assms(2,3)
      by (simp add: handleEventLocked_def client_State_def client_LastSeq_def)
  qed
qed

theorem old_event_verified_witness:
  "handleEventLocked demo_event 0 demo_delivered = (Inr [], demo_delivered)"
proof -
  have "client_State demo_delivered = StateReady" "env_Seq demo_event \<le> client_LastSeq demo_delivered" "env_Seq demo_event \<noteq> 0"
    by (simp_all add: client_State_def client_LastSeq_def demo_delivered_def demo_ready_def demo_event_def)
  from old_event_verified [OF demo_run this, of 0] show ?thesis
    by (simp add: observe_def client_LastSeq_def demo_delivered_def demo_ready_def demo_connected_def new_client_def
        DefaultClientConfig_def DefaultEventIdentityWindow_def demo_event_def)
qed

end
