(* ===== verification/Client_Live.thy ===== *)
theory Client_Live
  imports Client_Recovery
begin

text \<open>
  Histories of a client's calls (\<open>client.go\<close>): which calls a connection generation admits after any
  history, and what happens to a PING nobody answers, whatever else is called meanwhile.
\<close>

section \<open>Sequences of calls\<close>

definition run_calls :: "(time \<times> client_call) list \<Rightarrow> ClientProtocol \<Rightarrow> ClientProtocol" where
  "run_calls calls c = fold (\<lambda>(now, call) c. snd (perform now call c)) calls c"

lemma run_calls_simps [simp]:
  "run_calls [] c = c" "run_calls ((now, call) # calls) c = run_calls calls (snd (perform now call c))"
  "run_calls (calls @ more_calls) c = run_calls more_calls (run_calls calls c)"
  by (simp_all add: run_calls_def)

section \<open>Generation and configuration\<close>

text \<open>The two fields no call but \<open>BeginConnect\<close> may touch.\<close>

definition wiring :: "ClientProtocol \<Rightarrow> ConnectionGeneration \<times> ClientConfig" where
  "wiring c = (cl_generation c, cl_config c)"

lemma deliver_replay_wiring [simp]: "wiring (snd (deliver_replay es c)) = wiring c"
  by (induction es c rule: deliver_replay.induct) (auto simp: rememberEventLocked_def wiring_def Let_def split: prod.splits)

lemma wiring_transitions [simp]:
  "wiring (disconnectLocked c) = wiring c" "wiring (become_ready c) = wiring c" "wiring (abandonSessionLocked c) = wiring c"
  "wiring (beginRecoveryLocked ns gap c) = wiring c" "wiring (rememberEventLocked s i c) = wiring c"
  "wiring (snd (stopReplayLocked r c)) = wiring c" "wiring (snd (stopStateResumeLocked r c)) = wiring c"
  "wiring (snd (applyStateObjectsLocked xs c)) = wiring c"
  by (simp_all add: client_defs wiring_def rememberEventLocked_def Let_def applyStateObjectsLocked_def split: sum.split)

lemma wiring_updates [simp]:
  "wiring (c\<lparr>cl_state := s\<rparr>) = wiring c" "wiring (c\<lparr>cl_sessionID := i\<rparr>) = wiring c" "wiring (c\<lparr>cl_lastSeq := n\<rparr>) = wiring c"
  "wiring (c\<lparr>cl_capabilities := cs\<rparr>) = wiring c" "wiring (c\<lparr>cl_outbox := ob\<rparr>) = wiring c"
  "wiring (c\<lparr>cl_stateQueries := qs\<rparr>) = wiring c" "wiring (c\<lparr>cl_pendingPing := p\<rparr>) = wiring c"
  "wiring (c\<lparr>cl_suspectAt := t\<rparr>) = wiring c" "wiring (c\<lparr>cl_replayTo := to\<rparr>) = wiring c"
  "wiring (c\<lparr>cl_replayBuffer := es\<rparr>) = wiring c" "wiring (c\<lparr>cl_replayBytes := b\<rparr>) = wiring c"
  "wiring (c\<lparr>cl_resumeEventsComplete := y\<rparr>) = wiring c" "wiring (c\<lparr>cl_gapResume := y\<rparr>) = wiring c"
  by (simp_all add: wiring_def)

lemma failure_wiring [simp]: "wiring (snd (handleIncomingFailureLocked err c)) = wiring c"
  by (simp add: handleIncomingFailureLocked_def Let_def case_prod_beta)

lemma welcome_wiring: "wiring (snd (handleWelcomeLocked f c)) = wiring c"
  by (simp add: handleWelcomeLocked_def welcome_new_def welcome_resumed_def Let_def case_prod_beta
      split: sum.split option.split ConnectionState.split)

lemma event_wiring: "wiring (snd (handleEventLocked f now c)) = wiring c"
  by (simp add: handleEventLocked_def replay_event_def live_event_def Let_def case_prod_beta split: option.split)

lemma snapshot_wiring: "wiring (snd (handleStateSnapshotLocked f c)) = wiring c"
  unfolding handleStateSnapshotLocked_def handleResumeStateSnapshotLocked_def case_prod_beta
  by (simp split: sum.split option.split del: deliver_replay.simps)

lemma other_wiring:
  "wiring (snd (handlePongLocked g f c)) = wiring c" "wiring (snd (handleStateUpdateLocked f c)) = wiring c"
  "wiring (snd (handleAckLocked f c)) = wiring c" "wiring (snd (handleErrorLocked f c)) = wiring c"
  by (simp_all add: handlePongLocked_def handleStateUpdateLocked_def handleAckLocked_def handleErrorLocked_def Let_def split: sum.split)

lemma dispatch_wiring: "wiring (snd (dispatch_incoming g f now c)) = wiring c"
  by (simp add: dispatch_incoming_def welcome_wiring event_wiring snapshot_wiring other_wiring)

lemma HandleIncoming_wiring: "wiring (snd (HandleIncoming now g f c)) = wiring c"
  using dispatch_wiring [of g f now c] by (auto simp: HandleIncoming_def split: option.split prod.split sum.split)

lemma calls_wiring:
  "wiring (snd (TransportConnected g c)) = wiring c" "wiring (snd (StartSession g name c)) = wiring c"
  "wiring (snd (startResumeLocked g ns now c)) = wiring c" "wiring (snd (Disconnect g c)) = wiring c"
  "wiring (snd (QueryState now i n ids c)) = wiring c" "wiring (snd (RetryPending c)) = wiring c"
  "wiring (snd (SendPing now g i c)) = wiring c" "wiring (snd (CheckHeartbeat now g c)) = wiring c"
  "wiring (snd (EnqueueSend now i content c)) = wiring c"
  by (simp_all add: TransportConnected_def StartSession_def startResumeLocked_def Disconnect_def QueryState_def RetryPending_def
      SendPing_def CheckHeartbeat_def EnqueueSend_def Let_def split: option.split)

lemma ResumeWithState_wiring: "wiring (snd (ResumeWithState now g ns c)) = wiring c"
  by (simp add: ResumeWithState_def Let_def calls_wiring split: option.split)

lemma perform_wiring: "call \<noteq> CallBeginConnect \<Longrightarrow> wiring (snd (perform now call c)) = wiring c"
  by (cases call) (simp_all add: calls_wiring ResumeWithState_wiring HandleIncoming_wiring Resume_def case_prod_beta)

lemma run_calls_wiring: "CallBeginConnect \<notin> snd ` set calls \<Longrightarrow> wiring (run_calls calls c) = wiring c"
proof (induction calls arbitrary: c)
  case (Cons e calls)
  then show ?case using perform_wiring [of "snd e" "fst e" c] by (cases e) auto
qed simp

section \<open>Fencing\<close>

definition call_generation :: "client_call \<Rightarrow> ConnectionGeneration option" where
  "call_generation call = (case call of
     CallTransportConnected g \<Rightarrow> Some g | CallStartSession g _ \<Rightarrow> Some g | CallResume g \<Rightarrow> Some g
   | CallResumeWithState g _ \<Rightarrow> Some g | CallDisconnect g \<Rightarrow> Some g | CallSendPing g _ \<Rightarrow> Some g
   | CallCheckHeartbeat g \<Rightarrow> Some g | CallHandleIncoming g _ \<Rightarrow> Some g | _ \<Rightarrow> None)"

text \<open>
  C21: Once BeginConnect has opened a generation, whatever calls follow and whatever state they bring the
  client to, as long as there is no further BeginConnect: a call or a frame that carries another
  generation is refused as stale and changes nothing.
\<close>

theorem stale_generation_fenced:
  assumes "BeginConnect c0 = (g, c1)" "CallBeginConnect \<notin> snd ` set calls" "c = run_calls calls c1"
    and "call_generation call = Some g'" "g' \<noteq> g"
  shows "perform now call c = (Err ErrStaleConnection, c)"
proof -
  have "cl_generation c1 = g" using assms(1) by (auto simp: BeginConnect_def Let_def)
  then have "cl_generation c = g" using run_calls_wiring [OF assms(2), of c1] assms(3) by (simp add: wiring_def)
  then show ?thesis using assms(4,5)
    by (cases call) (simp_all add: call_generation_def TransportConnected_def StartSession_def Resume_def startResumeLocked_def
        ResumeWithState_def Disconnect_def SendPing_def CheckHeartbeat_def HandleIncoming_def no_actions_def)
qed

theorem stale_generation_fenced_witness:
  "perform 5 (CallHandleIncoming 7 demo_event) demo_ready = (Err ErrStaleConnection, demo_ready)"
proof -
  let ?c1 = "(new_client DefaultClientConfig)\<lparr>cl_generation := 1, cl_state := StateConnecting\<rparr>"
  let ?calls = "[(0, CallTransportConnected 1), (0, CallStartSession 1 ''demo''), (0, CallHandleIncoming 1 demo_welcome)]"
  have "BeginConnect (new_client DefaultClientConfig) = (1, ?c1)"
    using demo_step1 by (simp add: BeginConnect_def Let_def new_client_def)
  moreover have "demo_ready = run_calls ?calls ?c1" using demo_step2 demo_step3 demo_step4 by simp
  ultimately show ?thesis
    using stale_generation_fenced [of _ 1 ?c1 ?calls demo_ready "CallHandleIncoming 7 demo_event" 7 5] by (simp add: call_generation_def)
qed

section \<open>Heartbeat\<close>

text \<open>
  A client on a usable connection.  What a call may do to the heartbeat there without leaving it:
  nothing, start the suspicion, or take the PONG that answers the pending PING.
\<close>

definition online :: "ClientProtocol \<Rightarrow> bool" where
  "online c \<longleftrightarrow> client_State c \<in> {StateReady, StateSuspect}"

definition heartbeat :: "ClientProtocol \<Rightarrow> ConnectionState \<times> PendingPing option \<times> time" where
  "heartbeat c = (cl_state c, cl_pendingPing c, cl_suspectAt c)"

definition answers :: "bool \<Rightarrow> ConnectionGeneration \<Rightarrow> string \<Rightarrow> client_call \<Rightarrow> bool" where
  "answers strict g i call = (case call of
     CallHandleIncoming g' frame \<Rightarrow> g' = g \<and> env_Type frame = FramePong
       \<and> (case decodePayload (env_Payload frame) dec_PongPayload zero_PongPayload strict of
            Inl _ \<Rightarrow> False | Inr payload \<Rightarrow> po_PingID payload = i)
   | _ \<Rightarrow> False)"

lemma heartbeat_updates [simp]:
  "heartbeat (c\<lparr>cl_outbox := ob\<rparr>) = heartbeat c" "heartbeat (c\<lparr>cl_stateQueries := qs\<rparr>) = heartbeat c"
  "heartbeat (c\<lparr>cl_lastSeq := n\<rparr>) = heartbeat c" "heartbeat (rememberEventLocked s j c) = heartbeat c"
  "heartbeat (snd (applyStateObjectsLocked xs c)) = heartbeat c"
  by (simp_all add: heartbeat_def rememberEventLocked_def Let_def applyStateObjectsLocked_def split: sum.split)

lemma offline_transitions [simp]:
  "\<not> online (disconnectLocked c)" "\<not> online (abandonSessionLocked c)" "\<not> online (beginRecoveryLocked ns gap c)"
  by (simp_all add: online_def client_State_def client_defs)

lemma online_state: "online c \<longleftrightarrow> cl_state c = StateReady \<or> cl_state c = StateSuspect"
  by (auto simp: online_def client_State_def)

lemma failure_online [simp]: "online c \<Longrightarrow> handleIncomingFailureLocked err c = (Err err, c)"
  by (auto simp: handleIncomingFailureLocked_def online_state)

lemma failure_stays_online [simp]: "online (snd (handleIncomingFailureLocked err c)) \<longleftrightarrow> online c"
  by (auto simp: handleIncomingFailureLocked_def online_state Let_def client_defs)

text \<open>The handlers, from a client that is online and stays so.\<close>

lemma handlers_heartbeat:
  assumes "online c"
  shows "heartbeat (snd (handleWelcomeLocked f c)) = heartbeat c" "heartbeat (snd (handleAckLocked f c)) = heartbeat c"
    "heartbeat (snd (handleStateSnapshotLocked f c)) = heartbeat c" "heartbeat (snd (handleStateUpdateLocked f c)) = heartbeat c"
    "online (snd (handleEventLocked f now c)) \<Longrightarrow> heartbeat (snd (handleEventLocked f now c)) = heartbeat c"
    "online (snd (handleErrorLocked f c)) \<Longrightarrow> heartbeat (snd (handleErrorLocked f c)) = heartbeat c"
proof -
  show "heartbeat (snd (handleWelcomeLocked f c)) = heartbeat c" "heartbeat (snd (handleAckLocked f c)) = heartbeat c"
    using assms by (auto simp: handleWelcomeLocked_def handleAckLocked_def online_state split: sum.split ConnectionState.split)
  show "heartbeat (snd (handleStateSnapshotLocked f c)) = heartbeat c" "heartbeat (snd (handleStateUpdateLocked f c)) = heartbeat c"
    using assms unfolding handleStateSnapshotLocked_def handleStateUpdateLocked_def case_prod_beta online_state
    by (auto split: sum.split option.split)
  show "online (snd (handleEventLocked f now c)) \<Longrightarrow> heartbeat (snd (handleEventLocked f now c)) = heartbeat c"
    using assms by (auto simp: handleEventLocked_def live_event_def Let_def online_state [of c] split: option.splits if_splits)
  show "online (snd (handleErrorLocked f c)) \<Longrightarrow> heartbeat (snd (handleErrorLocked f c)) = heartbeat c"
    using assms by (auto simp: handleErrorLocked_def Let_def online_state [of c] split: sum.splits if_splits)
qed

lemma HandleIncoming_heartbeat:
  assumes "online c" "cl_pendingPing c = Some p" "online (snd (HandleIncoming now g f c))"
    and "\<not> answers (cc_StrictValidation (cl_config c)) (png_Generation p) (png_ID p) (CallHandleIncoming g f)"
  shows "heartbeat (snd (HandleIncoming now g f c)) = heartbeat c"
proof -
  have pong: "heartbeat (snd (handlePongLocked g f c)) = heartbeat c" if "env_Type f = FramePong"
    using that assms(2,4) by (auto simp: handlePongLocked_def answers_def split: sum.splits)
  have "heartbeat (snd (dispatch_incoming g f now c)) = heartbeat c" if "online (snd (dispatch_incoming g f now c))"
    using that pong handlers_heartbeat [OF assms(1)] by (simp add: dispatch_incoming_def split: if_splits)
  then show ?thesis using assms(1,3)
    by (cases "dispatch_incoming g f now c") (auto simp: HandleIncoming_def split: option.splits sum.splits if_splits)
qed

lemma calls_heartbeat:
  assumes "online c"
  shows "\<not> online (snd (BeginConnect c))" "heartbeat (snd (TransportConnected g c)) = heartbeat c"
    "heartbeat (snd (StartSession g name c)) = heartbeat c" "heartbeat (snd (startResumeLocked g ns now c)) = heartbeat c"
    "online (snd (Disconnect g c)) \<Longrightarrow> heartbeat (snd (Disconnect g c)) = heartbeat c"
    "heartbeat (snd (QueryState now i n ids c)) = heartbeat c" "heartbeat (snd (RetryPending c)) = heartbeat c"
    "heartbeat (snd (EnqueueSend now i content c)) = heartbeat c"
    "cl_pendingPing c = Some p \<Longrightarrow> heartbeat (snd (SendPing now g i c)) = heartbeat c"
  using assms by (auto simp: BeginConnect_def TransportConnected_def StartSession_def startResumeLocked_def Disconnect_def
      QueryState_def RetryPending_def EnqueueSend_def SendPing_def Let_def online_state client_defs split: option.splits if_splits)

lemma ResumeWithState_heartbeat: "online c \<Longrightarrow> heartbeat (snd (ResumeWithState now g ns c)) = heartbeat c"
  by (simp add: ResumeWithState_def Let_def calls_heartbeat split: option.split)

lemma CheckHeartbeat_heartbeat:
  assumes "online c" "online (snd (CheckHeartbeat now g c))"
  shows "heartbeat (snd (CheckHeartbeat now g c)) = heartbeat c
    \<or> cl_state c = StateReady \<and> heartbeat (snd (CheckHeartbeat now g c)) = (StateSuspect, cl_pendingPing c, now)"
  using assms by (auto simp: CheckHeartbeat_def heartbeat_def split: option.splits if_splits)

lemma perform_heartbeat:
  assumes "online c" "cl_pendingPing c = Some p" "online (snd (perform now call c))"
    and "\<not> answers (cc_StrictValidation (cl_config c)) (png_Generation p) (png_ID p) call"
  shows "heartbeat (snd (perform now call c)) = heartbeat c
    \<or> cl_state c = StateReady \<and> heartbeat (snd (perform now call c)) = (StateSuspect, Some p, now)"
proof (cases call)
  case (CallHandleIncoming g f)
  then show ?thesis using HandleIncoming_heartbeat [OF assms(1,2)] assms(3,4) by simp
next
  case (CallCheckHeartbeat g)
  then show ?thesis using CheckHeartbeat_heartbeat [OF assms(1)] assms(2,3) by simp
qed (use assms calls_heartbeat [OF assms(1)] ResumeWithState_heartbeat [OF assms(1)] in \<open>simp_all add: Resume_def case_prod_beta\<close>)

text \<open>The PING \<open>p\<close> is pending on its connection, and a suspicion is not younger than \<open>t\<close>.\<close>

definition waits :: "ClientConfig \<Rightarrow> PendingPing \<Rightarrow> time \<Rightarrow> ClientProtocol \<Rightarrow> bool" where
  "waits config p t c \<longleftrightarrow> online c \<and> wiring c = (png_Generation p, config) \<and> cl_pendingPing c = Some p
     \<and> (cl_state c = StateSuspect \<longrightarrow> cl_suspectAt c \<le> t)"

fun stays_online :: "(time \<times> client_call) list \<Rightarrow> ClientProtocol \<Rightarrow> bool" where
  "stays_online [] c = online c"
| "stays_online ((now, call) # calls) c = (online c \<and> stays_online calls (snd (perform now call c)))"

lemma stays_online_append [simp]: "stays_online (calls @ more_calls) c \<longleftrightarrow> stays_online calls c \<and> stays_online more_calls (run_calls calls c)"
  by (induction calls c rule: stays_online.induct) (auto elim: stays_online.elims)

lemma stays_online_start: "stays_online calls c \<Longrightarrow> online c"
  by (cases "(calls, c)" rule: stays_online.cases) auto

lemma waits_step:
  assumes "waits config p t c" "online (snd (perform now call c))"
    and "\<not> answers (cc_StrictValidation config) (png_Generation p) (png_ID p) call" "cl_state c = StateReady \<Longrightarrow> now \<le> t"
  shows "waits config p t (snd (perform now call c))" "cl_state c = StateSuspect \<Longrightarrow> heartbeat (snd (perform now call c)) = heartbeat c"
proof -
  have c: "online c" "cl_pendingPing c = Some p" "cl_config c = config" using assms(1) by (auto simp: waits_def wiring_def)
  have "call \<noteq> CallBeginConnect" using assms(2) calls_heartbeat(1) [OF c(1)] by auto
  then have w: "wiring (snd (perform now call c)) = wiring c" by (rule perform_wiring)
  note h = perform_heartbeat [OF c(1,2) assms(2)]
  show "waits config p t (snd (perform now call c))"
    using h assms w c by (auto simp: waits_def heartbeat_def)
  show "cl_state c = StateSuspect \<Longrightarrow> heartbeat (snd (perform now call c)) = heartbeat c" using h assms(3) c(3) by auto
qed

lemma waits_run:
  assumes "waits config p t c" "stays_online calls c"
    and "\<forall>(now, call)\<in>set calls. now \<le> t \<and> \<not> answers (cc_StrictValidation config) (png_Generation p) (png_ID p) call"
  shows "waits config p t (run_calls calls c)"
  using assms
proof (induction calls arbitrary: c)
  case (Cons e calls)
  obtain now call where e: "e = (now, call)" by (cases e)
  then have on: "online (snd (perform now call c))" using Cons.prems(2) stays_online_start by auto
  have "waits config p t (snd (perform now call c))" using waits_step(1) [OF Cons.prems(1) on] Cons.prems(3) e by simp
  then show ?case using Cons.IH Cons.prems e by simp
qed simp

lemma suspect_run:
  assumes "waits config p t c" "cl_state c = StateSuspect" "stays_online calls c"
    and "\<forall>(now, call)\<in>set calls. \<not> answers (cc_StrictValidation config) (png_Generation p) (png_ID p) call"
  shows "waits config p t (run_calls calls c) \<and> cl_state (run_calls calls c) = StateSuspect"
  using assms
proof (induction calls arbitrary: c)
  case (Cons e calls)
  obtain now call where e: "e = (now, call)" by (cases e)
  then have on: "online (snd (perform now call c))" using Cons.prems(3) stays_online_start by auto
  have "waits config p t (snd (perform now call c))" "heartbeat (snd (perform now call c)) = heartbeat c"
    using waits_step [OF Cons.prems(1) on] Cons.prems(2,4) e by simp_all
  then show ?case using Cons.IH Cons.prems e by (simp add: heartbeat_def)
qed simp

lemma CheckHeartbeat_suspects:
  assumes "waits config p t c" "online (snd (CheckHeartbeat t (png_Generation p) c))" "time_Sub t (png_SentAt p) \<ge> cc_HeartbeatTimeout config"
  shows "waits config p t (snd (CheckHeartbeat t (png_Generation p) c)) \<and> cl_state (snd (CheckHeartbeat t (png_Generation p) c)) = StateSuspect"
  using assms by (auto simp: CheckHeartbeat_def waits_def wiring_def online_state client_defs split: if_splits)

lemma time_Sub_antimono: "u \<le> u' \<Longrightarrow> time_Sub t u' \<le> time_Sub t u"
  by (auto simp: time_Sub_def)

lemma CheckHeartbeat_closes:
  assumes "waits config p t c" "cl_state c = StateSuspect" "time_Sub t' t \<ge> cc_DisconnectGrace config"
  shows "CheckHeartbeat t' (png_Generation p) c = (Ret [CloseConnectionAction ''heartbeat timeout''], disconnectLocked c)"
  using assms time_Sub_antimono [of "cl_suspectAt c" t t'] by (auto simp: CheckHeartbeat_def waits_def wiring_def)

text \<open>
  C20: A peer that stops answering is detected whatever else the client does meanwhile.  After a PING,
  take any calls with a heartbeat check among them at the timeout or later, none of the calls before that
  check being later than it.  If none of the calls brings the PONG that answers the PING on its connection,
  and none takes the client out of READY and SUSPECT (a disconnect, a new connection, a recovery after a
  gap or a closing ERROR does), then the client is SUSPECT, and a check a grace period after the
  first one disconnects it and asks to close the connection, keeping the session, its sequence and its
  pending SENDs.
\<close>

theorem heartbeat_detects_silence:
  assumes ping: "SendPing t0 g i c = (Ret acts, c1)"
    and calls: "calls = before @ (t1, CallCheckHeartbeat g) # after" "\<forall>(now, call)\<in>set before. now \<le> t1"
    and silent: "\<forall>(now, call)\<in>set calls. \<not> answers (cc_StrictValidation (cl_config c)) g i call"
    and stays: "stays_online calls c1" and c2: "c2 = run_calls calls c1"
    and times: "time_Sub t1 t0 \<ge> cc_HeartbeatTimeout (cl_config c)" "time_Sub t2 t1 \<ge> cc_DisconnectGrace (cl_config c)"
  shows "client_State c2 = StateSuspect
    \<and> (\<exists>c3. CheckHeartbeat t2 g c2 = (Ret [CloseConnectionAction ''heartbeat timeout''], c3)
        \<and> client_State c3 = StateDisconnected \<and> client_SessionID c3 = client_SessionID c2
        \<and> client_LastSeq c3 = client_LastSeq c2 \<and> cl_outbox c3 = cl_outbox c2)"
proof -
  let ?p = "\<lparr>png_ID = i, png_SentAt = t0, png_Generation = g\<rparr>" and ?w = "waits (cl_config c) \<lparr>png_ID = i, png_SentAt = t0, png_Generation = g\<rparr> t1"
  let ?b = "run_calls before c1"
  have "?w c1" using ping by (auto simp: SendPing_def Let_def waits_def wiring_def online_state split: if_splits option.splits)
  then have b: "?w ?b" using waits_run [of "cl_config c" ?p t1 c1 before] stays silent calls by fastforce
  have "online (snd (CheckHeartbeat t1 g ?b))" "stays_online after (snd (CheckHeartbeat t1 g ?b))"
    using stays calls(1) stays_online_start by auto
  with b have "?w (snd (CheckHeartbeat t1 g ?b))" "cl_state (snd (CheckHeartbeat t1 g ?b)) = StateSuspect"
    using CheckHeartbeat_suspects [OF b] times(1) by simp_all
  with \<open>stays_online after _\<close> have "?w c2" "cl_state c2 = StateSuspect"
    using suspect_run [of "cl_config c" ?p t1 "snd (CheckHeartbeat t1 g ?b)" after] silent calls(1) c2 by simp_all
  then have "CheckHeartbeat t2 g c2 = (Ret [CloseConnectionAction ''heartbeat timeout''], disconnectLocked c2)"
    using CheckHeartbeat_closes [of "cl_config c" ?p t1 c2 t2] times(2) by simp
  with \<open>cl_state c2 = StateSuspect\<close> show ?thesis
    by (simp add: client_State_def client_SessionID_def client_LastSeq_def client_defs)
qed

definition demo_pinged :: ClientProtocol where
  "demo_pinged = demo_ready\<lparr>cl_pendingPing := Some \<lparr>png_ID = ''p-1'', png_SentAt = 0, png_Generation = 1\<rparr>\<rparr>"

definition demo_ping_frame :: Envelope where
  \<open>demo_ping_frame = \<lparr>env_V = 2, env_Type = FramePing, env_ID = [], env_SessionID = ''s-1'', env_Seq = 0, env_Timestamp = 0,
     env_Payload = ''{"ping_id":"p-1","client_time":0}''\<rparr>\<close>

lemma demo_pinging: "SendPing 0 1 ''p-1'' demo_ready = (Ret [SendFrameAction demo_ping_frame], demo_pinged)"
  by code_simp

text \<open>Between the PING and the closing check: an event arrives, the first check, a SEND is refused.\<close>

definition demo_silence :: "(time \<times> client_call) list" where
  "demo_silence = [(1000000000, CallHandleIncoming 1 demo_event)] @ (20000000000, CallCheckHeartbeat 1)
     # [(21000000000, CallEnqueueSend ''m-1'' ''[1, 2]''), (22000000000, CallCheckHeartbeat 1)]"

lemma demo_stays_online: "stays_online demo_silence demo_pinged"
  by code_simp

theorem heartbeat_detects_silence_witness:
  "client_State (run_calls demo_silence demo_pinged) = StateSuspect
    \<and> (\<exists>c3. CheckHeartbeat 30000000000 1 (run_calls demo_silence demo_pinged) = (Ret [CloseConnectionAction ''heartbeat timeout''], c3)
        \<and> client_State c3 = StateDisconnected)"
proof -
  have "time_Sub 20000000000 0 \<ge> cc_HeartbeatTimeout (cl_config demo_ready)"
      "time_Sub 30000000000 20000000000 \<ge> cc_DisconnectGrace (cl_config demo_ready)"
    by (simp_all add: time_Sub_def demo_ready_def demo_connected_def new_client_def DefaultClientConfig_def)
  moreover have "\<forall>(now, call)\<in>set demo_silence. \<not> answers (cc_StrictValidation (cl_config demo_ready)) 1 ''p-1'' call"
    by (simp add: demo_silence_def answers_def demo_event_def FrameEvent_def FramePong_def)
  ultimately show ?thesis
    using heartbeat_detects_silence [OF demo_pinging demo_silence_def _ _ demo_stays_online refl] by auto
qed

end
