(* ===== verification/Ident.thy ===== *)
theory Ident
  imports Proto_Error
begin

text \<open>
  \<open>id.go\<close>: ULIDs.  The clock value and the outcome of reading ten random bytes (\<open>io.ReadFull\<close>, which
  fills the whole buffer when it succeeds) are arguments; the theorems show the identifiers have the
  documented shape, determine their inputs and sort by creation time.
\<close>

unbundle bit_operations_syntax

section \<open>Definitions\<close>

definition crockfordBase32 :: string where
  "crockfordBase32 = ''0123456789ABCDEFGHJKMNPQRSTVWXYZ''"

text \<open>The loop over \<open>raw[5]\<close> down to \<open>raw[0]\<close>: the last byte first, then the rest of the shifted value.\<close>

primrec time_bytes :: "nat \<Rightarrow> uint64 \<Rightarrow> 8 word list" where
  "time_bytes 0 millis = []"
| "time_bytes (Suc k) millis = time_bytes k (drop_bit 8 millis) @ [ucast millis]"

definition big_SetBytes :: "8 word list \<Rightarrow> int" where
  "big_SetBytes raw = foldl (\<lambda>n b. n * 256 + uint b) 0 raw"

text \<open>The loop over \<open>out[25]\<close> down to \<open>out[0]\<close>, dividing by 32.\<close>

primrec base32_digits :: "nat \<Rightarrow> int \<Rightarrow> string" where
  "base32_digits 0 n = []"
| "base32_digits (Suc k) n = base32_digits k (n div 32) @ [crockfordBase32 ! nat (n mod 32)]"

definition NewULID :: "time \<Rightarrow> (go_error + 8 word list) \<Rightarrow> go_error + string" where
  "NewULID now random =
     (let millis = UnixMilli now in
      if millis > 2 ^ 48 - 1 then Inl (NewError ''kmtproto: ULID timestamp out of range'')
      else case random of
        Inl err \<Rightarrow> Inl (WrapError ''kmtproto: generate ULID randomness'' err)
      | Inr bytes \<Rightarrow> Inr (base32_digits 26 (big_SetBytes (time_bytes 6 millis @ bytes))))"

definition DefaultSessionIDGenerator :: "time \<Rightarrow> (go_error + 8 word list) \<Rightarrow> go_error + string" where
  "DefaultSessionIDGenerator now random = ebind (NewULID now random) (\<lambda>i. Inr (''s_'' @ i))"

definition DefaultFrameIDGenerator :: "time \<Rightarrow> (go_error + 8 word list) \<Rightarrow> go_error + string" where
  "DefaultFrameIDGenerator now random = ebind (NewULID now random) (\<lambda>i. Inr (''f_'' @ i))"

section \<open>Numbers and their last digit\<close>

lemma digit_eq:
  "0 \<le> x \<Longrightarrow> x < k \<Longrightarrow> 0 \<le> y \<Longrightarrow> y < k \<Longrightarrow> a * k + x = b * k + y \<longleftrightarrow> a = b \<and> x = y" for a b k x y :: int
proof
  assume xy: "0 \<le> x" "x < k" "0 \<le> y" "y < k" and eq: "a * k + x = b * k + y"
  have "x = y" using arg_cong [OF eq, of "\<lambda>n. n mod k"] xy by (simp add: mod_pos_pos_trivial)
  moreover have "a = b" using arg_cong [OF eq, of "\<lambda>n. n div k"] xy by (simp add: div_pos_pos_trivial)
  ultimately show "a = b \<and> x = y" by blast
qed simp

lemma digit_less:
  "0 \<le> x \<Longrightarrow> x < k \<Longrightarrow> 0 \<le> y \<Longrightarrow> y < k \<Longrightarrow> a * k + x < b * k + y \<longleftrightarrow> a < b \<or> a = b \<and> x < y" for a b k x y :: int
proof -
  have lt: "a * k + x < b * k + y" if "a < b" "x < k" "0 \<le> y" "0 < k" for a b x y
  proof -
    have "(a + 1) * k \<le> b * k" using that(1,4) by (intro mult_right_mono) simp_all
    then show ?thesis using that(2,3) by (simp add: algebra_simps)
  qed
  assume "0 \<le> x" "x < k" "0 \<le> y" "y < k"
  then show ?thesis using lt [of a b x y] lt [of b a y x] by (cases a b rule: linorder_cases) auto
qed

section \<open>The number behind an identifier\<close>

lemma length_time_bytes [simp]: "length (time_bytes k m) = k"
  by (induction k arbitrary: m) auto

lemma foldl_bytes:
  "foldl (\<lambda>n b. n * 256 + uint b) n bs = n * 256 ^ length bs + big_SetBytes bs" for bs :: "8 word list"
proof (induction bs rule: rev_induct)
  case (snoc b bs)
  then show ?case by (simp add: big_SetBytes_def algebra_simps)
qed (simp add: big_SetBytes_def)

lemma big_SetBytes_append: "big_SetBytes (as @ bs) = big_SetBytes as * 256 ^ length bs + big_SetBytes bs"
proof -
  have "big_SetBytes (as @ bs) = foldl (\<lambda>n b. n * 256 + uint b) (big_SetBytes as) bs" by (simp add: big_SetBytes_def)
  then show ?thesis by (simp add: foldl_bytes)
qed

lemma big_SetBytes_simps [simp]: "big_SetBytes [] = 0" "big_SetBytes [b] = uint b"
  by (simp_all add: big_SetBytes_def)

lemma uint8_bounds: "0 \<le> uint b" "uint b < 256" for b :: "8 word"
proof -
  have "uint b < 2 ^ LENGTH(8)" by (rule unsigned_less)
  then show "uint b < 256" by simp
qed simp

lemma big_SetBytes_bounds: "0 \<le> big_SetBytes bs" "big_SetBytes bs < 256 ^ length bs"
proof (induction bs rule: rev_induct)
  case (snoc b bs)
  { case 1 then show ?case using snoc uint8_bounds [of b] by (simp add: big_SetBytes_append) }
  { case 2
    have "(big_SetBytes bs + 1) * 256 \<le> 256 ^ length bs * 256" using snoc(2) by (intro mult_right_mono) simp_all
    then show ?case using uint8_bounds [of b] by (simp add: big_SetBytes_append algebra_simps) }
qed simp_all

lemma big_SetBytes_inj:
  "length as = length bs \<Longrightarrow> big_SetBytes as = big_SetBytes bs \<Longrightarrow> as = bs"
proof (induction as arbitrary: bs rule: rev_induct)
  case (snoc a as)
  then obtain b bs' where bs: "bs = bs' @ [b]" by (cases bs rule: rev_cases) auto
  have "big_SetBytes as * 256 + uint a = big_SetBytes bs' * 256 + uint b"
    using snoc.prems(2) by (simp add: bs big_SetBytes_append)
  then have "big_SetBytes as = big_SetBytes bs' \<and> uint a = uint b"
    using digit_eq [of "uint a" 256 "uint b"] uint8_bounds by blast
  then show ?case using snoc by (simp add: bs word_uint_eq_iff)
qed simp

lemma big_SetBytes_time: "big_SetBytes (time_bytes k m) = uint m mod 256 ^ k"
proof (induction k arbitrary: m)
  case (Suc k)
  have s: "uint (drop_bit 8 m) = uint m div 256"
    by (simp add: drop_bit_eq_div uint_div_distrib)
  have c: "uint (ucast m :: 8 word) = uint m mod 256"
    by (simp add: unsigned_ucast_eq take_bit_eq_mod)
  have "uint m mod (256 * 256 ^ k) = 256 * (uint m div 256 mod 256 ^ k) + uint m mod 256"
    by (rule zmod_zmult2_eq) simp
  then show ?case using Suc [of "drop_bit 8 m"] by (simp add: big_SetBytes_append s c)
qed simp

section \<open>Base 32 text\<close>

lemma crockford_length [simp]: "length crockfordBase32 = 32"
  by (simp add: crockfordBase32_def)

lemma crockford_sorted: "sorted_wrt (<) crockfordBase32"
  unfolding crockfordBase32_def by code_simp

lemma crockford_less: "i < 32 \<Longrightarrow> j < 32 \<Longrightarrow> crockfordBase32 ! i < crockfordBase32 ! j \<longleftrightarrow> i < j"
proof (cases i j rule: linorder_cases)
  case greater
  moreover assume "i < 32" "j < 32"
  ultimately have "crockfordBase32 ! j < crockfordBase32 ! i" using crockford_sorted by (simp add: sorted_wrt_iff_nth_less)
  then show ?thesis using greater by auto
qed (use crockford_sorted in \<open>auto simp: sorted_wrt_iff_nth_less\<close>)

lemma length_base32 [simp]: "length (base32_digits k n) = k"
  by (induction k arbitrary: n) auto

lemma snoc_less:
  "length xs = length ys \<Longrightarrow> xs @ [a] < ys @ [b] \<longleftrightarrow> xs < ys \<or> xs = ys \<and> a < b" for a b :: "'a::linorder"
  by (induction xs ys rule: list_induct2) auto

lemma base32_less:
  "0 \<le> n \<Longrightarrow> n < 32 ^ k \<Longrightarrow> 0 \<le> m \<Longrightarrow> m < 32 ^ k \<Longrightarrow> base32_digits k n < base32_digits k m \<longleftrightarrow> n < m"
proof (induction k arbitrary: n m)
  case (Suc k)
  have b: "0 \<le> n div 32" "n div 32 < 32 ^ k" "0 \<le> m div 32" "m div 32 < 32 ^ k"
    using Suc.prems by (simp_all add: div_less_iff_less_mult)
  have eq: "base32_digits k (n div 32) = base32_digits k (m div 32) \<longleftrightarrow> n div 32 = m div 32"
    using Suc.IH [OF b] Suc.IH [OF b(3,4,1,2)] by (metis linorder_neq_iff less_irrefl)
  have c: "crockfordBase32 ! nat (n mod 32) < crockfordBase32 ! nat (m mod 32) \<longleftrightarrow> n mod 32 < m mod 32"
  proof -
    have "nat (n mod 32) < nat (m mod 32) \<longleftrightarrow> n mod 32 < m mod 32" by (rule nat_less_eq_zless) simp
    then show ?thesis using crockford_less [of "nat (n mod 32)" "nat (m mod 32)"] by (simp add: nat_less_iff)
  qed
  have "n < m \<longleftrightarrow> n div 32 < m div 32 \<or> n div 32 = m div 32 \<and> n mod 32 < m mod 32"
    using digit_less [of "n mod 32" 32 "m mod 32" "n div 32" "m div 32"] by simp
  then show ?case using Suc.IH [OF b] eq c by (simp add: snoc_less)
qed simp

lemma base32_inj:
  "0 \<le> n \<Longrightarrow> n < 32 ^ k \<Longrightarrow> 0 \<le> m \<Longrightarrow> m < 32 ^ k \<Longrightarrow> base32_digits k n = base32_digits k m \<Longrightarrow> n = m"
  using base32_less [of n k m] base32_less [of m k n] by (metis less_irrefl linorder_neq_iff)

lemma base32_alphabet: "set (base32_digits k n) \<subseteq> set crockfordBase32"
proof (induction k arbitrary: n)
  case (Suc k)
  have "crockfordBase32 ! nat (n mod 32) \<in> set crockfordBase32" by (rule nth_mem) simp
  then show ?case using Suc by simp
qed simp

lemma NewULID_Inr:
  assumes "NewULID now (Inr r) = Inr u" "length r = 10"
  shows "u = base32_digits 26 (uint (UnixMilli now) * 256 ^ 10 + big_SetBytes r)"
    "0 \<le> uint (UnixMilli now) * 256 ^ 10 + big_SetBytes r"
    "uint (UnixMilli now) * 256 ^ 10 + big_SetBytes r < 32 ^ 26"
proof -
  have "UnixMilli now \<le> 2 ^ 48 - 1" and u: "u = base32_digits 26 (big_SetBytes (time_bytes 6 (UnixMilli now) @ r))"
    using assms(1) by (auto simp: NewULID_def Let_def not_less split: if_splits)
  then have lt: "uint (UnixMilli now) < 2 ^ 48" by (simp add: word_le_def)
  then have "big_SetBytes (time_bytes 6 (UnixMilli now)) = uint (UnixMilli now)"
    by (simp add: big_SetBytes_time mod_pos_pos_trivial)
  then show "u = base32_digits 26 (uint (UnixMilli now) * 256 ^ 10 + big_SetBytes r)"
    using u assms(2) by (simp add: big_SetBytes_append)
  show "0 \<le> uint (UnixMilli now) * 256 ^ 10 + big_SetBytes r" using big_SetBytes_bounds(1) [of r] by simp
  show "uint (UnixMilli now) * 256 ^ 10 + big_SetBytes r < 32 ^ 26"
    using lt big_SetBytes_bounds(2) [of r] assms(2) by simp
qed

section \<open>Properties\<close>

text \<open>
  C27: A ULID is 26 characters of the Crockford alphabet; two of them are equal only when they were
  made in the same millisecond from the same random bytes, and one made in a later millisecond is
  greater as a string, so identifiers sort by creation time.
\<close>

theorem NewULID_sortable:
  assumes "NewULID t1 (Inr r1) = Inr u1" "NewULID t2 (Inr r2) = Inr u2" "length r1 = 10" "length r2 = 10"
  shows "length u1 = 26 \<and> set u1 \<subseteq> set crockfordBase32 \<and> (u1 = u2 \<longleftrightarrow> UnixMilli t1 = UnixMilli t2 \<and> r1 = r2)
    \<and> (UnixMilli t1 < UnixMilli t2 \<longrightarrow> u1 < u2)"
proof -
  note A = NewULID_Inr [OF assms(1,3)] and B = NewULID_Inr [OF assms(2,4)]
  have r: "0 \<le> big_SetBytes r1" "big_SetBytes r1 < 256 ^ 10" "0 \<le> big_SetBytes r2" "big_SetBytes r2 < 256 ^ 10"
    using big_SetBytes_bounds [of r1] big_SetBytes_bounds [of r2] assms(3,4) by simp_all
  have "u1 = u2 \<longleftrightarrow> uint (UnixMilli t1) * 256 ^ 10 + big_SetBytes r1 = uint (UnixMilli t2) * 256 ^ 10 + big_SetBytes r2"
    unfolding A(1) B(1) using base32_inj [OF A(2,3) B(2,3)] by metis
  also have "\<dots> \<longleftrightarrow> uint (UnixMilli t1) = uint (UnixMilli t2) \<and> big_SetBytes r1 = big_SetBytes r2"
    by (rule digit_eq [OF r])
  also have "\<dots> \<longleftrightarrow> UnixMilli t1 = UnixMilli t2 \<and> r1 = r2"
    using big_SetBytes_inj [of r1 r2] assms(3,4) by (auto simp: word_uint_eq_iff)
  finally have eq: "u1 = u2 \<longleftrightarrow> UnixMilli t1 = UnixMilli t2 \<and> r1 = r2" .
  have "u1 < u2" if "UnixMilli t1 < UnixMilli t2"
  proof -
    have "uint (UnixMilli t1) < uint (UnixMilli t2)" using that by (simp add: word_less_def)
    then have "uint (UnixMilli t1) * 256 ^ 10 + big_SetBytes r1 < uint (UnixMilli t2) * 256 ^ 10 + big_SetBytes r2"
      unfolding digit_less [OF r] by blast
    then show ?thesis unfolding A(1) B(1) using base32_less [OF A(2,3) B(2,3)] by blast
  qed
  then show ?thesis using eq A(1) base32_alphabet by simp
qed

lemma ulid_demo:
  "NewULID 0 (Inr (replicate 10 255)) = Inr (''0000000000'' @ replicate 16 (CHR ''Z''))"
  "NewULID 1000000 (Inr (replicate 10 0)) = Inr (''0000000001'' @ replicate 16 (CHR ''0''))"
  by code_simp+

theorem NewULID_sortable_witness:
  "NewULID 0 (Inr (replicate 10 255)) = Inr (''0000000000'' @ replicate 16 (CHR ''Z''))
    \<and> NewULID 1000000 (Inr (replicate 10 0)) = Inr (''0000000001'' @ replicate 16 (CHR ''0''))
    \<and> ''0000000000'' @ replicate 16 (CHR ''Z'') < ''0000000001'' @ replicate 16 (CHR ''0'')"
proof -
  have "UnixMilli 0 < UnixMilli 1000000" by (simp add: UnixMilli_def)
  then show ?thesis using NewULID_sortable [OF ulid_demo] ulid_demo by simp
qed

end
