(* ===== verification/Store.thy ===== *)
theory Store
  imports Codec_Roundtrip Go_Map
begin

text \<open>
  \<open>store.go\<close> and \<open>clock.go\<close>: the data of the store interfaces and the in-memory reference stores.
  Every method runs under the store's mutex, so it is a function on the store; a method that samples
  the clock takes the sampled value.
\<close>

section \<open>Clocks\<close>

record FakeClock =
  fc_now :: time

definition NewFakeClock :: "time \<Rightarrow> FakeClock" where
  "NewFakeClock now = \<lparr>fc_now = now\<rparr>"

definition FakeClock_Now :: "FakeClock \<Rightarrow> time" where
  "FakeClock_Now c = fc_now c"

definition time_Add :: "time \<Rightarrow> duration \<Rightarrow> time" where
  "time_Add t d = t + d"

definition FakeClock_Advance :: "duration \<Rightarrow> FakeClock \<Rightarrow> FakeClock" where
  "FakeClock_Advance d c = c\<lparr>fc_now := time_Add (fc_now c) d\<rparr>"

section \<open>Interface data\<close>

record ReplayLimits =
  rl_MaxEvents :: uint64
  rl_MaxBytes :: int

record SessionState =
  st_SessionID :: string
  st_ExpiresAt :: time
  st_Capabilities :: SessionCapabilities

definition SessionState_CapabilityEnabled :: "SessionState \<Rightarrow> string \<Rightarrow> bool" where
  "SessionState_CapabilityEnabled s name = Capabilities_Enabled (st_Capabilities s) name"

definition SessionState_CapabilityVersion :: "SessionState \<Rightarrow> string \<Rightarrow> uint16 option" where
  "SessionState_CapabilityVersion s name = Capabilities_Version (st_Capabilities s) name"

section \<open>Deduplication\<close>

record memoryDedupEntry =
  me_record :: DedupRecord
  me_expiresAt :: time

record MemoryDedupStore =
  md_ttl :: duration
  md_records :: "(string, memoryDedupEntry) gomap"

definition NewMemoryDedupStore :: "duration \<Rightarrow> MemoryDedupStore" where
  "NewMemoryDedupStore ttl = \<lparr>md_ttl = ttl, md_records = []\<rparr>"

definition DedupRetentionTTL :: "MemoryDedupStore option \<Rightarrow> duration" where
  "DedupRetentionTTL s = (case s of None \<Rightarrow> 0 | Some s' \<Rightarrow> md_ttl s')"

definition dedupKey :: "string \<Rightarrow> string \<Rightarrow> string" where
  "dedupKey sessionID msgID = sessionID @ [CHR 0x00] @ msgID"

definition Claim ::
  "time \<Rightarrow> string \<Rightarrow> string \<Rightarrow> SendFingerprint \<Rightarrow> MemoryDedupStore \<Rightarrow> (bool \<times> DedupRecord option) \<times> MemoryDedupStore" where
  "Claim now sessionID msgID fingerprint s =
     (let key = dedupKey sessionID msgID;
          fresh = \<lparr>me_record = \<lparr>dr_State = DedupProcessing, dr_Fingerprint = fingerprint, dr_Ack = None\<rparr>,
                   me_expiresAt = time_Add now (md_ttl s)\<rparr>
      in case map_get (md_records s) key of
           Some entry \<Rightarrow>
             if dr_State (me_record entry) = DedupProcessing \<or> now < me_expiresAt entry then
               ((False, Some ((me_record entry)\<lparr>dr_Ack := map_option copyEnvelope (dr_Ack (me_record entry))\<rparr>)), s)
             else ((True, None), s\<lparr>md_records := map_put key fresh (map_del key (md_records s))\<rparr>)
         | None \<Rightarrow> ((True, None), s\<lparr>md_records := map_put key fresh (md_records s)\<rparr>))"

definition Complete ::
  "time \<Rightarrow> string \<Rightarrow> string \<Rightarrow> Envelope option \<Rightarrow> MemoryDedupStore \<Rightarrow> go_error option \<times> MemoryDedupStore" where
  "Complete now sessionID msgID ack s =
     (case ack of
        None \<Rightarrow> (Some (NewError ''kmtproto: nil ACK''), s)
      | Some a \<Rightarrow>
          (let key = dedupKey sessionID msgID in
           case map_get (md_records s) key of
             None \<Rightarrow> (Some (NewError ''kmtproto: message is not claimed''), s)
           | Some entry \<Rightarrow>
               if dr_State (me_record entry) \<noteq> DedupProcessing then
                 (Some (NewError ''kmtproto: message is not claimed''), s)
               else (None, s\<lparr>md_records := map_put key
                 \<lparr>me_record = \<lparr>dr_State = DedupCompleted, dr_Fingerprint = dr_Fingerprint (me_record entry),
                               dr_Ack = Some (copyEnvelope a)\<rparr>,
                  me_expiresAt = time_Add now (md_ttl s)\<rparr> (md_records s)\<rparr>)))"

definition Abort :: "string \<Rightarrow> string \<Rightarrow> MemoryDedupStore \<Rightarrow> MemoryDedupStore" where
  "Abort sessionID msgID s =
     (let key = dedupKey sessionID msgID in
      case map_get (md_records s) key of
        Some entry \<Rightarrow>
          if dr_State (me_record entry) = DedupProcessing then s\<lparr>md_records := map_del key (md_records s)\<rparr> else s
      | None \<Rightarrow> s)"

section \<open>Sessions\<close>

record MemorySessionRepository =
  mr_sessions :: "(string, SessionState) gomap"

definition NewMemorySessionRepository :: MemorySessionRepository where
  "NewMemorySessionRepository = \<lparr>mr_sessions = []\<rparr>"

definition session_Create :: "SessionState \<Rightarrow> MemorySessionRepository \<Rightarrow> go_error option \<times> MemorySessionRepository" where
  "session_Create state s =
     (if st_SessionID state = [] \<or> st_ExpiresAt state = zero_time then
        (Some (NewError ''kmtproto: invalid session state''), s)
      else if map_get (mr_sessions s) (st_SessionID state) \<noteq> None then (Some (Sentinel ErrSessionExists), s)
      else (None, s\<lparr>mr_sessions := map_put (st_SessionID state) state (mr_sessions s)\<rparr>))"

definition session_Lookup :: "string \<Rightarrow> time \<Rightarrow> MemorySessionRepository \<Rightarrow> SessionState option" where
  "session_Lookup sessionID now s = (case map_get (mr_sessions s) sessionID of
     None \<Rightarrow> None
   | Some state \<Rightarrow> if \<not> now < st_ExpiresAt state then None else Some state)"

section \<open>Replay\<close>

record MemoryReplayStore =
  mp_events :: "(string, Envelope list) gomap"
  mp_floor :: "(string, uint64) gomap"
  mp_current :: "(string, uint64) gomap"
  mp_ids :: "(string, string list) gomap"

definition NewMemoryReplayStore :: MemoryReplayStore where
  "NewMemoryReplayStore = \<lparr>mp_events = [], mp_floor = [], mp_current = [], mp_ids = []\<rparr>"

text \<open>Reading a key that is absent gives the zero value.\<close>

definition get_or :: "'v \<Rightarrow> ('k, 'v) gomap \<Rightarrow> 'k \<Rightarrow> 'v" where
  "get_or z m k = (case map_get m k of None \<Rightarrow> z | Some v \<Rightarrow> v)"

definition CurrentSeq :: "string \<Rightarrow> MemoryReplayStore \<Rightarrow> uint64" where
  "CurrentSeq sessionID s = get_or 0 (mp_current s) sessionID"

fun replay_loop :: "uint64 \<Rightarrow> uint64 \<Rightarrow> int \<Rightarrow> Envelope list \<Rightarrow> int \<Rightarrow> go_error + Envelope list" where
  "replay_loop afterSeq throughSeq maxBytes [] totalBytes = Inr []"
| "replay_loop afterSeq throughSeq maxBytes (event # events) totalBytes =
     (if afterSeq < env_Seq event \<and> env_Seq event \<le> throughSeq then
        (case json_Marshal (Envelope_json event) of
           None \<Rightarrow> Inl (WrapError ''kmtproto: encode replay event'' (JsonError JSyntaxError))
         | Some encoded \<Rightarrow>
             if len encoded > maxBytes - totalBytes then Inl (Sentinel ErrReplayLimitExceeded)
             else ebind (replay_loop afterSeq throughSeq maxBytes events (totalBytes + len encoded))
                    (\<lambda>out. Inr (copyEnvelope event # out)))
      else replay_loop afterSeq throughSeq maxBytes events totalBytes)"

definition Replay :: "string \<Rightarrow> uint64 \<Rightarrow> uint64 \<Rightarrow> ReplayLimits \<Rightarrow> MemoryReplayStore \<Rightarrow> go_error + Envelope list" where
  "Replay sessionID afterSeq throughSeq limits s =
     (let floor = get_or 0 (mp_floor s) sessionID in
      if rl_MaxEvents limits = 0 \<or> rl_MaxBytes limits \<le> 0 \<or> throughSeq < afterSeq then Inl (Sentinel ErrReplayLimitExceeded)
      else if throughSeq - afterSeq > rl_MaxEvents limits then Inl (Sentinel ErrReplayLimitExceeded)
      else if floor > 0 \<and> afterSeq < floor - 1 then Inl (Sentinel ErrReplayUnavailable)
      else ebind (replay_loop afterSeq throughSeq (rl_MaxBytes limits) (get_or [] (mp_events s) sessionID) 0) (\<lambda>out.
        if throughSeq > afterSeq \<and> of_nat (length out) \<noteq> throughSeq - afterSeq then Inl (Sentinel ErrReplayUnavailable)
        else Inr out))"

definition Append ::
  "string \<Rightarrow> string \<Rightarrow> string \<Rightarrow> bytes \<Rightarrow> int64 \<Rightarrow> MemoryReplayStore \<Rightarrow> (go_error + Envelope) \<times> MemoryReplayStore" where
  "Append sessionID eventID eventType content timestamp s =
     (if sessionID = [] \<or> eventID = [] \<or> \<not> ValidString sessionID \<or> \<not> ValidString eventID \<or> \<not> ValidString eventType
         \<or> \<not> json_Valid content then (Inl (NewError ''kmtproto: invalid event append''), s)
      else
        (let ids = get_or [] (mp_ids s) sessionID; s1 = s\<lparr>mp_ids := map_put sessionID ids (mp_ids s)\<rparr> in
         if eventID \<in> set ids then (Inl (NewError ''kmtproto: duplicate event id''), s1)
         else if get_or 0 (mp_current s) sessionID = - 1 then (Inl (Sentinel ErrSequenceExhausted), s1)
         else
           (let seq = get_or 0 (mp_current s) sessionID + 1 in
            case json_Marshal (EventPayload_json \<lparr>ep_EventType = eventType, ep_Content = [] @ content\<rparr>) of
              None \<Rightarrow> (Inl (WrapError ''kmtproto: encode event payload'' (JsonError JSyntaxError)), s1)
            | Some payload \<Rightarrow>
                (let event = \<lparr>env_V = WireVersionV2, env_Type = FrameEvent, env_ID = eventID, env_SessionID = sessionID,
                              env_Seq = seq, env_Timestamp = timestamp, env_Payload = payload\<rparr>
                 in (Inr (copyEnvelope event),
                     s1\<lparr>mp_events := map_put sessionID (get_or [] (mp_events s) sessionID @ [event]) (mp_events s),
                        mp_current := map_put sessionID seq (mp_current s),
                        mp_ids := map_put sessionID (eventID # ids) (mp_ids s1)\<rparr>)))))"

definition PruneBefore :: "string \<Rightarrow> uint64 \<Rightarrow> MemoryReplayStore \<Rightarrow> MemoryReplayStore" where
  "PruneBefore sessionID firstAvailableSeq s =
     (let current = get_or 0 (mp_current s) sessionID;
          first = (if current \<noteq> - 1 \<and> firstAvailableSeq > current + 1 then current + 1 else firstAvailableSeq);
          events = get_or [] (mp_events s) sessionID;
          s1 = s\<lparr>mp_events := map_put sessionID ([] @ dropWhile (\<lambda>e. env_Seq e < first) events) (mp_events s)\<rparr>
      in if first > get_or 0 (mp_floor s) sessionID
         then s1\<lparr>mp_floor := map_put sessionID first (mp_floor s)\<rparr> else s1)"

end
