(* ===== verification/Replay_Log.thy ===== *)
theory Replay_Log
  imports Store Client_Inv
begin

text \<open>
  The in-memory replay store refines an append-only event log per session with a retention floor.
\<close>

section \<open>Histories\<close>

datatype replay_call =
    CallAppend string string string bytes int64
  | CallPrune string uint64

text \<open>The ghost part of a history: every event a session has been given, in order.\<close>

type_synonym event_history = "string \<Rightarrow> Envelope list"

fun replay_perform :: "replay_call \<Rightarrow> MemoryReplayStore \<times> event_history \<Rightarrow> MemoryReplayStore \<times> event_history" where
  "replay_perform (CallAppend sid eid ty content ts) (s, h) =
     (case Append sid eid ty content ts s of
        (Inl e, s') \<Rightarrow> (s', h) | (Inr event, s') \<Rightarrow> (s', h(sid := h sid @ [event])))"
| "replay_perform (CallPrune sid n) (s, h) = (PruneBefore sid n s, h)"

definition replay_history :: "replay_call list \<Rightarrow> MemoryReplayStore \<times> event_history" where
  "replay_history calls = fold replay_perform calls (NewMemoryReplayStore, \<lambda>_. [])"

section \<open>The representation\<close>

definition floor_of :: "string \<Rightarrow> MemoryReplayStore \<Rightarrow> nat" where
  "floor_of sid s = unat (get_or 0 (mp_floor s) sid)"

definition event_at :: "string \<Rightarrow> nat \<Rightarrow> Envelope \<Rightarrow> bool" where
  "event_at sid i e \<longleftrightarrow> env_Type e = FrameEvent \<and> env_SessionID e = sid \<and> unat (env_Seq e) = Suc i \<and> env_ID e \<noteq> []"

definition history_rep :: "event_history \<Rightarrow> MemoryReplayStore \<Rightarrow> string \<Rightarrow> bool" where
  "history_rep h s sid \<longleftrightarrow>
     unat (CurrentSeq sid s) = length (h sid)
     \<and> floor_of sid s \<le> Suc (length (h sid))
     \<and> get_or [] (mp_events s) sid = drop (floor_of sid s - 1) (h sid)
     \<and> (\<forall>i < length (h sid). event_at sid i (h sid ! i))
     \<and> set (get_or [] (mp_ids s) sid) = env_ID ` set (h sid)
     \<and> distinct (map env_ID (h sid))"

lemma get_or_put [simp]: "get_or z (map_put k v m) k' = (if k' = k then v else get_or z m k')"
  by (simp add: get_or_def)

lemma get_or_Nil [simp]: "get_or z [] k = z"
  by (simp add: get_or_def)

lemma unat_succ64: "w \<noteq> - 1 \<Longrightarrow> unat (w + 1) = Suc (unat w)" for w :: uint64
  by (rule unat_Suc_less [of _ "- 1"]) (simp add: word_order.not_eq_extremum)

lemma unat_max64: "unat (w :: uint64) \<le> unat (- 1 :: uint64)"
  using word_order.extremum [of w] by (simp add: word_nat)

lemma of_nat_eq64: "n < 2 ^ 64 \<Longrightarrow> of_nat n = w \<longleftrightarrow> n = unat w" for w :: uint64
  by (auto simp: unsigned_of_nat take_bit_eq_mod)

section \<open>Append\<close>

lemma Append_cases:
  obtains (failed) e s' where "Append sid eid ty content ts s = (Inl e, s')"
      and "\<And>k. get_or [] (mp_ids s') k = get_or [] (mp_ids s) k"
      and "mp_events s' = mp_events s" "mp_floor s' = mp_floor s" "mp_current s' = mp_current s"
  | (appended) event s' where "Append sid eid ty content ts s = (Inr event, s')"
      and "eid \<noteq> []" "eid \<notin> set (get_or [] (mp_ids s) sid)" "CurrentSeq sid s \<noteq> - 1"
      and "env_ID event = eid" "env_SessionID event = sid" "env_Type event = FrameEvent" "env_Seq event = CurrentSeq sid s + 1"
      and "\<And>k. get_or [] (mp_events s') k = (if k = sid then get_or [] (mp_events s) sid @ [event] else get_or [] (mp_events s) k)"
      and "\<And>k. CurrentSeq k s' = (if k = sid then CurrentSeq sid s + 1 else CurrentSeq k s)"
      and "\<And>k. get_or [] (mp_ids s') k = (if k = sid then eid # get_or [] (mp_ids s) sid else get_or [] (mp_ids s) k)"
      and "mp_floor s' = mp_floor s"
proof (cases "fst (Append sid eid ty content ts s)")
  case (Inl e)
  then show ?thesis
    by (intro failed [of e "snd (Append sid eid ty content ts s)"])
      (auto simp: Append_def Let_def split: if_splits option.splits)
next
  case (Inr event)
  then show ?thesis
    by (intro appended [of event "snd (Append sid eid ty content ts s)"])
      (auto simp: Append_def Let_def CurrentSeq_def split: if_splits option.splits)
qed

lemma rep_Append:
  assumes rep: "\<And>k. history_rep h s k" and step: "replay_perform (CallAppend sid eid ty content ts) (s, h) = (s', h')"
  shows "history_rep h' s' k"
proof (cases rule: Append_cases [of sid eid ty content ts s])
  case (failed e t)
  then show ?thesis using rep [of k] step by (simp add: history_rep_def floor_of_def CurrentSeq_def)
next
  case (appended event t)
  have h': "h' = h(sid := h sid @ [event])" and s': "s' = t" using step appended(1) by auto
  show ?thesis
  proof (cases "k = sid")
    case False
    then show ?thesis using rep [of k] appended h' s' by (simp add: history_rep_def floor_of_def)
  next
    case True
    have len: "unat (CurrentSeq sid s) = length (h sid)" using rep [of sid] by (simp add: history_rep_def)
    have "event_at sid (length (h sid)) event"
      using appended len by (simp add: event_at_def unat_succ64)
    moreover have "floor_of sid s - 1 \<le> length (h sid)" using rep [of sid] by (auto simp: history_rep_def)
    ultimately show ?thesis
      using rep [of sid] appended h' s' True len
      by (auto simp: history_rep_def floor_of_def unat_succ64 nth_append less_Suc_eq image_iff)
  qed
qed

section \<open>Pruning\<close>

lemma dropWhile_index: "(\<And>i. i < length xs \<Longrightarrow> P (xs ! i) \<longleftrightarrow> i < n) \<Longrightarrow> dropWhile P xs = drop n xs"
proof (induction xs arbitrary: n)
  case (Cons x xs)
  have *: "P (xs ! i) \<longleftrightarrow> Suc i < n" if "i < length xs" for i using Cons.prems [of "Suc i"] that by simp
  show ?case using Cons.prems [of 0] Cons.IH [of "n - 1"] * by (cases n) auto
qed simp

definition pruned_first :: "uint64 \<Rightarrow> uint64 \<Rightarrow> uint64" where
  "pruned_first current n = (if current \<noteq> - 1 \<and> n > current + 1 then current + 1 else n)"

lemma pruned_first_le: "unat (pruned_first current n) \<le> Suc (unat current)"
proof (cases "current = - 1")
  case True
  then show ?thesis using unat_max64 [of n] by (simp add: pruned_first_def)
next
  case False
  then show ?thesis using unat_succ64 [OF False] by (simp add: pruned_first_def word_nat not_less)
qed

lemma PruneBefore_sel:
  "mp_current (PruneBefore sid n s) = mp_current s" "mp_ids (PruneBefore sid n s) = mp_ids s"
  "get_or [] (mp_events (PruneBefore sid n s)) k =
       (if k = sid then dropWhile (\<lambda>e. env_Seq e < pruned_first (CurrentSeq sid s) n) (get_or [] (mp_events s) sid) else get_or [] (mp_events s) k)"
  "floor_of k (PruneBefore sid n s) = (if k = sid then max (unat (pruned_first (CurrentSeq sid s) n)) (floor_of sid s) else floor_of k s)"
  unfolding pruned_first_def
  by (auto simp: PruneBefore_def Let_def floor_of_def CurrentSeq_def word_nat)

lemma rep_Prune:
  assumes rep: "\<And>k. history_rep h s k"
  shows "history_rep h (PruneBefore sid n s) k"
proof (cases "k = sid")
  case False
  then show ?thesis using rep [of k] by (simp add: history_rep_def PruneBefore_sel CurrentSeq_def)
next
  case True
  let ?first = "pruned_first (CurrentSeq sid s) n" and ?f = "floor_of sid s"
  have r: "history_rep h s sid" by (rule rep)
  have "dropWhile (\<lambda>e. env_Seq e < ?first) (drop (?f - 1) (h sid)) = drop (unat ?first - 1 - (?f - 1)) (drop (?f - 1) (h sid))"
    using r by (intro dropWhile_index) (auto simp: history_rep_def event_at_def word_nat)
  also have "\<dots> = drop (max (unat ?first) ?f - 1) (h sid)"
    by (simp add: max_def)
  finally show ?thesis
    using r True pruned_first_le [of "CurrentSeq sid s" n]
    by (simp add: history_rep_def PruneBefore_sel CurrentSeq_def)
qed

lemma rep_history: "replay_history calls = (s, h) \<Longrightarrow> history_rep h s sid"
proof (induction calls arbitrary: s h sid rule: rev_induct)
  case Nil
  then show ?case
    by (auto simp: replay_history_def NewMemoryReplayStore_def history_rep_def floor_of_def CurrentSeq_def)
next
  case (snoc call calls)
  obtain t g where prev: "replay_history calls = (t, g)" by fastforce
  then have step: "replay_perform call (t, g) = (s, h)" using snoc.prems by (simp add: replay_history_def)
  show ?case
  proof (cases call)
    case (CallAppend a b c d e)
    then show ?thesis using rep_Append [of g t a b c d e s h] snoc.IH [OF prev] step by blast
  next
    case (CallPrune a b)
    then show ?thesis using rep_Prune [of g t] snoc.IH [OF prev] step by auto
  qed
qed

section \<open>Replay\<close>

definition encodable :: "Envelope \<Rightarrow> bool" where
  "encodable e \<longleftrightarrow> json_Marshal (Envelope_json e) \<noteq> None"

definition frame_bytes :: "Envelope \<Rightarrow> int" where
  "frame_bytes e = (case json_Marshal (Envelope_json e) of None \<Rightarrow> 0 | Some b \<Rightarrow> len b)"

definition in_range :: "uint64 \<Rightarrow> uint64 \<Rightarrow> Envelope \<Rightarrow> bool" where
  "in_range a b e \<longleftrightarrow> a < env_Seq e \<and> env_Seq e \<le> b"

lemma frame_bytes_nonneg [simp]: "0 \<le> frame_bytes e"
  by (simp add: frame_bytes_def split: option.splits)

lemma sum_frame_bytes_nonneg [simp]: "0 \<le> sum_list (map frame_bytes es)"
  by (induction es) auto

lemma replay_loop_Inr:
  "t \<le> maxBytes \<Longrightarrow> replay_loop a b maxBytes es t = Inr out \<longleftrightarrow>
     out = filter (in_range a b) es \<and> list_all encodable out \<and> t + sum_list (map frame_bytes out) \<le> maxBytes"
proof (induction es arbitrary: t out)
  case (Cons e es)
  show ?case
  proof (cases "in_range a b e")
    case False
    then show ?thesis using Cons by (simp add: in_range_def) blast
  next
    case True
    then have range: "a < env_Seq e" "env_Seq e \<le> b" by (auto simp: in_range_def)
    show ?thesis
    proof (cases "json_Marshal (Envelope_json e)")
      case None
      then show ?thesis using True range by (auto simp: encodable_def)
    next
      case (Some enc)
      have fb: "frame_bytes e = len enc" and en: "encodable e" using Some by (auto simp: frame_bytes_def encodable_def)
      show ?thesis
      proof (cases "len enc > maxBytes - t")
        case big: True
        then have "\<not> t + sum_list (map frame_bytes (filter (in_range a b) (e # es))) \<le> maxBytes"
          using fb True sum_frame_bytes_nonneg [of "filter (in_range a b) es"] by (simp del: sum_frame_bytes_nonneg)
        then show ?thesis using True Some big range by auto
      next
        case fits: False
        then have "t + len enc \<le> maxBytes" by simp
        note IH = Cons.IH [OF this]
        have "replay_loop a b maxBytes (e # es) t = Inr out \<longleftrightarrow>
            (\<exists>x. replay_loop a b maxBytes es (t + len enc) = Inr x \<and> out = e # x)"
          using Some fits range by (auto simp: ebind_Inr)
        then show ?thesis using True fb en by (auto simp: IH add.assoc simp del: replay_loop.simps)
      qed
    qed
  qed
qed auto

lemma filter_range_drop:
  assumes "\<And>i. i < length xs \<Longrightarrow> unat (env_Seq (xs ! i)) = Suc i" and "n \<le> unat a"
  shows "filter (in_range a b) (drop n xs) = take (unat b - unat a) (drop (unat a) xs)"
  using assms
proof (induction xs rule: rev_induct)
  case (snoc x xs)
  have x: "unat (env_Seq x) = Suc (length xs)" using snoc.prems(1) [of "length xs"] by simp
  have "unat (env_Seq (xs ! i)) = Suc i" if "i < length xs" for i
    using snoc.prems(1) [of i] that by (simp add: nth_append)
  then have IH: "filter (in_range a b) (drop n xs) = take (unat b - unat a) (drop (unat a) xs)"
    using snoc by blast
  show ?case
  proof (cases "n \<le> length xs")
    case True
    have "in_range a b x \<longleftrightarrow> unat a \<le> length xs \<and> length xs < unat b" using x by (auto simp: in_range_def word_nat)
    then show ?thesis using True IH by (auto simp: not_le not_less)
  next
    case False
    then show ?thesis using snoc.prems(2) by simp
  qed
qed simp

text \<open>When the store serves a range: the request is within its limits and covered by what it retains.\<close>

definition serves :: "event_history \<Rightarrow> MemoryReplayStore \<Rightarrow> string \<Rightarrow> uint64 \<Rightarrow> uint64 \<Rightarrow> ReplayLimits \<Rightarrow> bool" where
  "serves h s sid a b limits \<longleftrightarrow>
     (let events = take (unat b - unat a) (drop (unat a) (h sid)) in
      0 < rl_MaxEvents limits \<and> 0 < rl_MaxBytes limits \<and> a \<le> b \<and> b - a \<le> rl_MaxEvents limits
      \<and> floor_of sid s \<le> Suc (unat a) \<and> (a < b \<longrightarrow> unat b \<le> length (h sid))
      \<and> list_all encodable events \<and> sum_list (map frame_bytes events) \<le> rl_MaxBytes limits)"

lemma guarded_Inr:
  "(if c1 then Inl e1 else if c2 then Inl e2 else if c3 then Inl e3
    else ebind r (\<lambda>x. if P x then Inl e4 else Inr x)) = Inr out \<longleftrightarrow> \<not> c1 \<and> \<not> c2 \<and> \<not> c3 \<and> r = Inr out \<and> \<not> P out"
  by (auto simp: ebind_Inr split: if_splits)

lemma Replay_rep:
  assumes rep: "history_rep h s sid"
  shows "Replay sid a b limits s = Inr out \<longleftrightarrow>
    serves h s sid a b limits \<and> out = take (unat b - unat a) (drop (unat a) (h sid))"
proof -
  let ?floor = "get_or 0 (mp_floor s) sid" and ?ev = "take (unat b - unat a) (drop (unat a) (h sid))"
  have floor: "?floor > 0 \<and> a < ?floor - 1 \<longleftrightarrow> \<not> floor_of sid s \<le> Suc (unat a)"
  proof (cases "?floor = 0")
    case False
    then have "1 \<le> ?floor" by (simp add: word_le_nat_alt unat_gt_0 Suc_leI)
    then have "unat (?floor - 1) = floor_of sid s - 1" by (simp add: floor_of_def word_nat)
    then show ?thesis using False by (auto simp: floor_of_def word_nat unat_gt_0)
  qed (simp add: floor_of_def)
  have loop: "replay_loop a b (rl_MaxBytes limits) (get_or [] (mp_events s) sid) 0 = Inr out' \<longleftrightarrow>
      out' = ?ev \<and> list_all encodable ?ev \<and> sum_list (map frame_bytes ?ev) \<le> rl_MaxBytes limits"
    if "0 < rl_MaxBytes limits" "floor_of sid s \<le> Suc (unat a)" for out'
  proof -
    have "filter (in_range a b) (get_or [] (mp_events s) sid) = ?ev"
      using rep that(2) by (auto simp: history_rep_def event_at_def intro!: filter_range_drop)
    then show ?thesis using that(1) by (auto simp: replay_loop_Inr)
  qed
  have len: "of_nat (length ?ev) = b - a \<longleftrightarrow> unat b \<le> length (h sid)" if "a < b"
  proof -
    have le: "length ?ev \<le> unat (b - a)" using that by (simp add: word_nat)
    then have "length ?ev < 2 ^ 64" using unat64_less [of "b - a"] by linarith
    then have "of_nat (length ?ev) = b - a \<longleftrightarrow> length ?ev = unat (b - a)"
      by (rule of_nat_eq64)
    then show ?thesis using that by (auto simp: word_nat min_def)
  qed
  let ?limits = "rl_MaxEvents limits \<noteq> 0 \<and> 0 < rl_MaxBytes limits \<and> a \<le> b \<and> b - a \<le> rl_MaxEvents limits"
  let ?loop = "replay_loop a b (rl_MaxBytes limits) (get_or [] (mp_events s) sid) 0"
  have "Replay sid a b limits s = Inr out \<longleftrightarrow>
      ?limits \<and> floor_of sid s \<le> Suc (unat a) \<and> ?loop = Inr out \<and> (a < b \<longrightarrow> of_nat (length out) = b - a)"
    unfolding Replay_def Let_def floor guarded_Inr by (simp only: de_Morgan_disj not_less not_le not_not) blast
  also have "\<dots> \<longleftrightarrow> ?limits \<and> floor_of sid s \<le> Suc (unat a) \<and> (out = ?ev \<and> list_all encodable ?ev
      \<and> sum_list (map frame_bytes ?ev) \<le> rl_MaxBytes limits) \<and> (a < b \<longrightarrow> of_nat (length ?ev) = b - a)"
  proof (cases "0 < rl_MaxBytes limits \<and> floor_of sid s \<le> Suc (unat a)")
    case True
    then have "?loop = Inr out \<longleftrightarrow> out = ?ev \<and> list_all encodable ?ev \<and> sum_list (map frame_bytes ?ev) \<le> rl_MaxBytes limits"
      using loop by blast
    then show ?thesis by (cases "out = ?ev") simp_all
  qed auto
  also have "\<dots> \<longleftrightarrow> serves h s sid a b limits \<and> out = ?ev"
    unfolding serves_def Let_def word_greater_zero_iff using len by (cases "a < b") auto
  finally show ?thesis .
qed

section \<open>The contract of a replayable event log\<close>

text \<open>
  What the server relies on: a replay is the contiguous range it asked for, appending gives the
  event the next position, and what was once replayable with an event stays so after later appends.
\<close>

locale event_log =
  fixes inv :: "'s \<Rightarrow> bool"
    and current :: "string \<Rightarrow> 's \<Rightarrow> uint64"
    and replay :: "string \<Rightarrow> uint64 \<Rightarrow> uint64 \<Rightarrow> ReplayLimits \<Rightarrow> 's \<Rightarrow> go_error + Envelope list"
    and append :: "string \<Rightarrow> string \<Rightarrow> string \<Rightarrow> bytes \<Rightarrow> int64 \<Rightarrow> 's \<Rightarrow> (go_error + Envelope) \<times> 's"
  assumes append_inv: "inv s \<Longrightarrow> append sid eid ty content ts s = (r, s') \<Longrightarrow> inv s'"
    and append_event: "inv s \<Longrightarrow> append sid eid ty content ts s = (Inr e, s') \<Longrightarrow>
      env_Type e = FrameEvent \<and> env_SessionID e = sid \<and> env_ID e = eid
      \<and> unat (env_Seq e) = Suc (unat (current sid s)) \<and> current sid s' = env_Seq e"
    and append_keeps: "inv s \<Longrightarrow> append sid eid ty content ts s = (r, s') \<Longrightarrow>
      replay k a b limits s = Inr out \<Longrightarrow> replay k a b limits s' = Inr out"
    and append_replay: "inv s \<Longrightarrow> append sid eid ty content ts s = (Inr e, s') \<Longrightarrow> encodable e \<Longrightarrow>
      0 < rl_MaxEvents limits \<Longrightarrow> frame_bytes e \<le> rl_MaxBytes limits \<Longrightarrow>
      replay sid (current sid s) (env_Seq e) limits s' = Inr [e]"
    and replay_range: "inv s \<Longrightarrow> replay sid a b limits s = Inr out \<Longrightarrow>
      a \<le> b \<and> length out = unat b - unat a \<and> (\<forall>i < length out. event_at sid (unat a + i) (out ! i))"
begin

text \<open>An appended event is replayed, unchanged, after any number of later appends.\<close>

lemma appended_stays:
  "inv s \<Longrightarrow> replay sid a b limits s = Inr out \<Longrightarrow>
   replay sid a b limits (fold (\<lambda>(k, eid, ty, content, ts) s. snd (append k eid ty content ts s)) later s) = Inr out"
proof (induction later arbitrary: s)
  case (Cons c later)
  obtain k eid ty content ts where c: "c = (k, eid, ty, content, ts)" by (cases c)
  obtain r s' where step: "append k eid ty content ts s = (r, s')" by fastforce
  show ?case
    using Cons.IH [of s'] Cons.prems append_inv [OF Cons.prems(1) step] append_keeps [OF Cons.prems(1) step] c step by simp
qed simp

lemma published_is_replayed:
  assumes "inv s" "append sid eid ty content ts s = (Inr e, s')" "encodable e"
    "0 < rl_MaxEvents limits" "frame_bytes e \<le> rl_MaxBytes limits"
  shows "replay sid (current sid s) (env_Seq e) limits
    (fold (\<lambda>(k, eid, ty, content, ts) s. snd (append k eid ty content ts s)) later s') = Inr [e]"
  by (rule appended_stays [OF append_inv [OF assms(1,2)] append_replay [OF assms]])

end

definition replay_store_ok :: "MemoryReplayStore \<Rightarrow> bool" where
  "replay_store_ok s \<longleftrightarrow> (\<exists>h. \<forall>sid. history_rep h s sid)"

lemma Append_step:
  assumes rep: "\<And>k. history_rep h s k" and app: "Append sid eid ty content ts s = (Inr e, s')"
  shows "history_rep (h(sid := h sid @ [e])) s' k"
  using rep_Append [OF rep, of sid eid ty content ts s' "h(sid := h sid @ [e])" k] app by simp

lemma Append_fail:
  assumes rep: "\<And>k. history_rep h s k" and app: "Append sid eid ty content ts s = (Inl e, s')"
  shows "history_rep h s' k"
  using rep_Append [OF rep, of sid eid ty content ts s' h k] app by simp

lemma serves_extend:
  assumes "serves h s k a b limits" "floor_of k s' = floor_of k s"
  shows "serves (h(sid := h sid @ [e])) s' k a b limits"
    and "take (unat b - unat a) (drop (unat a) ((h(sid := h sid @ [e])) k)) = take (unat b - unat a) (drop (unat a) (h k))"
proof -
  have le: "a < b \<longrightarrow> unat b \<le> length (h k)" "a \<le> b" using assms by (auto simp: serves_def Let_def)
  then show eq: "take (unat b - unat a) (drop (unat a) ((h(sid := h sid @ [e])) k)) = take (unat b - unat a) (drop (unat a) (h k))"
    by (cases "a = b") (auto simp: word_nat order_le_less)
  show "serves (h(sid := h sid @ [e])) s' k a b limits"
    using assms unfolding serves_def Let_def eq by auto
qed

lemma Append_floor: "Append sid eid ty content ts s = (r, s') \<Longrightarrow> floor_of k s' = floor_of k s"
  by (cases rule: Append_cases [of sid eid ty content ts s]) (auto simp: floor_of_def)

lemma Append_serves_new:
  assumes rep: "\<And>k. history_rep h s k" and app: "Append sid eid ty content ts s = (Inr e, s')"
    and "encodable e" "0 < rl_MaxEvents limits" "frame_bytes e \<le> rl_MaxBytes limits"
  shows "serves (h(sid := h sid @ [e])) s' sid (CurrentSeq sid s) (env_Seq e) limits"
    and "take (unat (env_Seq e) - unat (CurrentSeq sid s)) (drop (unat (CurrentSeq sid s)) ((h(sid := h sid @ [e])) sid)) = [e]"
proof -
  have len: "unat (CurrentSeq sid s) = length (h sid)" "floor_of sid s \<le> Suc (length (h sid))"
    using rep [of sid] by (auto simp: history_rep_def)
  have seq: "env_Seq e = CurrentSeq sid s + 1" "unat (env_Seq e) = Suc (length (h sid))"
    using app len by (cases rule: Append_cases [of sid eid ty content ts s]; simp add: unat_succ64)+
  show eq: "take (unat (env_Seq e) - unat (CurrentSeq sid s)) (drop (unat (CurrentSeq sid s)) ((h(sid := h sid @ [e])) sid)) = [e]"
    using len seq by simp
  have bytes: "0 < frame_bytes e"
    using assms(3)
    by (auto simp: encodable_def frame_bytes_def json_Marshal_def Envelope_json_def jobj_def len_def split: if_splits)
  show "serves (h(sid := h sid @ [e])) s' sid (CurrentSeq sid s) (env_Seq e) limits"
    unfolding serves_def Let_def eq using assms(3-5) len seq bytes Append_floor [OF app, of sid]
    by (auto simp: word_nat word_le_nat_alt)
qed

interpretation mem_log: event_log replay_store_ok CurrentSeq Replay Append
proof
  fix s sid eid ty content ts r s'
  assume ok: "replay_store_ok s" and app: "Append sid eid ty content ts s = (r, s')"
  from ok obtain h where rep: "\<And>k. history_rep h s k" unfolding replay_store_ok_def by blast
  show "replay_store_ok s'"
    using Append_step [OF rep, of sid eid ty content ts] Append_fail [OF rep, of sid eid ty content ts] app
    unfolding replay_store_ok_def by (cases r) blast+
next
  fix s sid eid ty content ts e s'
  assume ok: "replay_store_ok s" and app: "Append sid eid ty content ts s = (Inr e, s')"
  then show "env_Type e = FrameEvent \<and> env_SessionID e = sid \<and> env_ID e = eid
      \<and> unat (env_Seq e) = Suc (unat (CurrentSeq sid s)) \<and> CurrentSeq sid s' = env_Seq e"
    by (cases rule: Append_cases [of sid eid ty content ts s]) (auto simp: unat_succ64)
next
  fix s sid eid ty content ts r s' k a b limits out
  assume ok: "replay_store_ok s" and app: "Append sid eid ty content ts s = (r, s')" and out: "Replay k a b limits s = Inr out"
  from ok obtain h where rep: "\<And>k. history_rep h s k" unfolding replay_store_ok_def by blast
  have old: "serves h s k a b limits" "out = take (unat b - unat a) (drop (unat a) (h k))" using Replay_rep [OF rep] out by auto
  show "Replay k a b limits s' = Inr out"
  proof (cases r)
    case (Inl e)
    then have "serves h s' k a b limits" using old Append_floor [OF app, of k] by (simp add: serves_def)
    then show ?thesis using Replay_rep [OF Append_fail [OF rep]] old app Inl by auto
  next
    case (Inr e)
    then show ?thesis
      using Replay_rep [OF Append_step [OF rep]] serves_extend [OF old(1) Append_floor [OF app]] old app by auto
  qed
next
  fix s sid eid ty content ts e s' and limits :: ReplayLimits
  assume ok: "replay_store_ok s" and app: "Append sid eid ty content ts s = (Inr e, s')"
    and "encodable e" "0 < rl_MaxEvents limits" "frame_bytes e \<le> rl_MaxBytes limits"
  moreover from ok obtain h where rep: "\<And>k. history_rep h s k" unfolding replay_store_ok_def by blast
  ultimately show "Replay sid (CurrentSeq sid s) (env_Seq e) limits s' = Inr [e]"
    using Replay_rep [OF Append_step [OF rep app]] Append_serves_new [OF rep app] by auto
next
  fix s sid a b limits out
  assume ok: "replay_store_ok s" and out: "Replay sid a b limits s = Inr out"
  from ok obtain h where rep: "\<And>k. history_rep h s k" unfolding replay_store_ok_def by blast
  have sv: "serves h s sid a b limits" "out = take (unat b - unat a) (drop (unat a) (h sid))" using Replay_rep [OF rep] out by auto
  have le: "a \<le> b" "a = b \<or> unat b \<le> length (h sid)" using sv(1) by (auto simp: serves_def Let_def order_le_less)
  have at: "event_at sid i (h sid ! i)" if "i < length (h sid)" for i using rep [of sid] that by (simp add: history_rep_def)
  have "length out = unat b - unat a" using le sv(2) by (elim disjE) auto
  moreover have "event_at sid (unat a + i) (out ! i)" if "i < length out" for i
    using that sv(2) at [of "unat a + i"] by (auto simp: nth_drop)
  ultimately show "a \<le> b \<and> length out = unat b - unat a \<and> (\<forall>i < length out. event_at sid (unat a + i) (out ! i))"
    using le(1) by blast
qed

section \<open>Properties\<close>

text \<open>
  C6: The replay store is an event log.  After every sequence of appends and prunings, the current
  sequence of a session is the number of events it was given, these have the sequences 1, 2, ...
  without a gap, and a replay request succeeds exactly when it is within the limits and covered by
  the retained range; it then gives exactly the events after the first and up to the second
  sequence, as they were appended.
\<close>

theorem replay_exact:
  "unat (CurrentSeq sid (fst (replay_history calls))) = length (snd (replay_history calls) sid)
   \<and> map (unat \<circ> env_Seq) (snd (replay_history calls) sid) = [1 ..< Suc (length (snd (replay_history calls) sid))]
   \<and> (Replay sid a b limits (fst (replay_history calls)) = Inr out \<longleftrightarrow>
        serves (snd (replay_history calls)) (fst (replay_history calls)) sid a b limits
        \<and> out = take (unat b - unat a) (drop (unat a) (snd (replay_history calls) sid)))"
proof -
  obtain s h where sh: "replay_history calls = (s, h)" by fastforce
  have rep: "history_rep h s sid" by (rule rep_history [OF sh])
  have "map (unat \<circ> env_Seq) (h sid) = [1 ..< Suc (length (h sid))]"
    using rep by (intro nth_equalityI) (auto simp: history_rep_def event_at_def simp del: upt_Suc)
  then show ?thesis using rep Replay_rep [OF rep] sh by (simp add: history_rep_def)
qed

text \<open>
  C28: A published event stays replayable: once an event has been appended, a replay from the
  position before it up to it gives exactly that event, after any number of later appends to any
  session, when it encodes and fits the replay limits.
\<close>

theorem appended_event_replayable:
  assumes "Append sid eid ty content ts (fst (replay_history calls)) = (Inr e, s')" and "encodable e"
    and "0 < rl_MaxEvents limits" and "frame_bytes e \<le> rl_MaxBytes limits"
  shows "Replay sid (CurrentSeq sid (fst (replay_history calls))) (env_Seq e) limits
    (fold (\<lambda>(k, eid, ty, content, ts) s. snd (Append k eid ty content ts s)) later s') = Inr [e]"
proof -
  have "replay_store_ok (fst (replay_history calls))"
    unfolding replay_store_ok_def using rep_history [of calls] prod.collapse by metis
  then show ?thesis by (rule mem_log.published_is_replayed) (use assms in auto)
qed

definition demo_log :: "replay_call list" where
  "demo_log = [CallAppend ''s1'' ''e1'' ''note'' ''1'' 5, CallAppend ''s2'' ''e1'' ''note'' ''7'' 6]"

lemma demo_log_append:
  "\<exists>e s'. Append ''s1'' ''e2'' ''note'' ''2'' 7 (fst (replay_history demo_log)) = (Inr e, s') \<and> encodable e
     \<and> frame_bytes e \<le> 1000 \<and> CurrentSeq ''s1'' (fst (replay_history demo_log)) = 1 \<and> env_Seq e = 2"
proof -
  have "(case Append ''s1'' ''e2'' ''note'' ''2'' 7 (fst (replay_history demo_log)) of
      (Inr e, s') \<Rightarrow> encodable e \<and> frame_bytes e \<le> 1000 \<and> CurrentSeq ''s1'' (fst (replay_history demo_log)) = 1 \<and> env_Seq e = 2
    | _ \<Rightarrow> False)"
    by code_simp
  then show ?thesis by (auto split: prod.splits sum.splits)
qed

theorem appended_event_replayable_witness:
  "\<exists>e s'. env_Seq e = 2 \<and> Replay ''s1'' 1 2 \<lparr>rl_MaxEvents = 10, rl_MaxBytes = 1000\<rparr>
     (snd (Append ''s1'' ''e3'' ''note'' ''3'' 8 s')) = Inr [e]"
proof -
  obtain e s' where app: "Append ''s1'' ''e2'' ''note'' ''2'' 7 (fst (replay_history demo_log)) = (Inr e, s')"
    and e: "encodable e" "frame_bytes e \<le> 1000" "CurrentSeq ''s1'' (fst (replay_history demo_log)) = 1" "env_Seq e = 2"
    using demo_log_append by blast
  from appended_event_replayable [OF app e(1), of "\<lparr>rl_MaxEvents = 10, rl_MaxBytes = 1000\<rparr>" "[(''s1'', ''e3'', ''note'', ''3'', 8)]"] e
  have "Replay ''s1'' 1 2 \<lparr>rl_MaxEvents = 10, rl_MaxBytes = 1000\<rparr> (snd (Append ''s1'' ''e3'' ''note'' ''3'' 8 s')) = Inr [e]"
    by simp
  then show ?thesis using e by blast
qed

end
