(* ===== verification/Store_Contract.thy ===== *)
theory Store_Contract
  imports Replay_Log
begin

text \<open>
  What the deduplication store and the session repository promise over whole histories of calls.
\<close>

section \<open>Sessions\<close>

definition session_history :: "SessionState list \<Rightarrow> MemorySessionRepository" where
  "session_history states = fold (\<lambda>st s. snd (session_Create st s)) states NewMemorySessionRepository"

definition creatable :: "SessionState \<Rightarrow> bool" where
  "creatable st \<longleftrightarrow> st_SessionID st \<noteq> [] \<and> st_ExpiresAt st \<noteq> zero_time"

lemma session_Create_get:
  "map_get (mr_sessions (snd (session_Create st s))) sid =
     (if creatable st \<and> st_SessionID st = sid \<and> map_get (mr_sessions s) sid = None then Some st else map_get (mr_sessions s) sid)"
  by (auto simp: session_Create_def creatable_def)

lemma session_history_get:
  "map_get (mr_sessions (session_history states)) sid = find (\<lambda>st. creatable st \<and> st_SessionID st = sid) states"
proof -
  have "map_get (mr_sessions (fold (\<lambda>st s. snd (session_Create st s)) states s)) sid =
      (case map_get (mr_sessions s) sid of Some st \<Rightarrow> Some st | None \<Rightarrow> find (\<lambda>st. creatable st \<and> st_SessionID st = sid) states)" for s
  proof (induction states arbitrary: s)
    case (Cons st states)
    show ?case by (simp add: Cons.IH session_Create_get split: option.splits)
  qed (simp split: option.splits)
  then show ?thesis by (simp add: session_history_def NewMemorySessionRepository_def)
qed

text \<open>
  C29: A session identity is given out once and never changes: whatever was created before and after,
  a lookup finds the first well-formed state created under the identity, until that state expires.
\<close>

theorem session_lookup_exact:
  "session_Lookup sid now (session_history states) =
     (case find (\<lambda>st. creatable st \<and> st_SessionID st = sid) states of
        Some st \<Rightarrow> if now < st_ExpiresAt st then Some st else None
      | None \<Rightarrow> None)"
  by (simp add: session_Lookup_def session_history_get split: option.splits)

section \<open>Claims\<close>

datatype dedup_call =
    DClaim string string SendFingerprint
  | DComplete string string "Envelope option"
  | DAbort string string

text \<open>A call at a time; the flag is that a claim was won, or that a completion was accepted.\<close>

fun dedup_perform :: "time \<Rightarrow> dedup_call \<Rightarrow> MemoryDedupStore \<Rightarrow> bool \<times> MemoryDedupStore" where
  "dedup_perform now (DClaim sid mid fp) s = (let (r, s') = Claim now sid mid fp s in (fst r, s'))"
| "dedup_perform now (DComplete sid mid ack) s = (let (r, s') = Complete now sid mid ack s in (r = None, s'))"
| "dedup_perform now (DAbort sid mid) s = (True, Abort sid mid s)"

fun dedup_trace :: "(time \<times> dedup_call) list \<Rightarrow> MemoryDedupStore \<Rightarrow> (time \<times> dedup_call \<times> bool) list" where
  "dedup_trace [] s = []"
| "dedup_trace ((now, c) # cs) s = (let (b, s') = dedup_perform now c s in (now, c, b) # dedup_trace cs s')"

fun dedup_after :: "(time \<times> dedup_call) list \<Rightarrow> MemoryDedupStore \<Rightarrow> MemoryDedupStore" where
  "dedup_after [] s = s"
| "dedup_after ((now, c) # cs) s = dedup_after cs (snd (dedup_perform now c s))"

definition call_key :: "dedup_call \<Rightarrow> string" where
  "call_key c = (case c of DClaim sid mid _ \<Rightarrow> dedupKey sid mid | DComplete sid mid _ \<Rightarrow> dedupKey sid mid | DAbort sid mid \<Rightarrow> dedupKey sid mid)"

lemma dedup_trace_append: "dedup_trace (xs @ ys) s = dedup_trace xs s @ dedup_trace ys (dedup_after xs s)"
  by (induction xs s rule: dedup_after.induct) (auto simp: Let_def case_prod_beta)

lemma dedup_after_append: "dedup_after (xs @ ys) s = dedup_after ys (dedup_after xs s)"
  by (induction xs s rule: dedup_after.induct) auto

lemma length_dedup_trace [simp]: "length (dedup_trace cs s) = length cs"
  by (induction cs s rule: dedup_after.induct) (auto simp: Let_def case_prod_beta)

lemma dedup_other:
  "call_key c \<noteq> key \<Longrightarrow> map_get (md_records (snd (dedup_perform now c s))) key = map_get (md_records s) key"
  by (cases c) (auto simp: call_key_def Claim_def Complete_def Abort_def Let_def split: option.splits)

lemma dedup_ttl [simp]: "md_ttl (snd (dedup_perform now c s)) = md_ttl s"
  by (cases c) (auto simp: Claim_def Complete_def Abort_def Let_def split: option.splits)

lemma dedup_after_ttl [simp]: "md_ttl (dedup_after cs s) = md_ttl s"
  by (induction cs s rule: dedup_after.induct) auto

text \<open>The claim of a key since it was won: aborted, processing, or completed with its retention.\<close>

definition claim_held :: "duration \<Rightarrow> string \<Rightarrow> (time \<times> dedup_call \<times> bool) list \<Rightarrow> MemoryDedupStore \<Rightarrow> bool" where
  "claim_held ttl key tr s \<longleftrightarrow>
     (\<exists>t c b. (t, c, b) \<in> set tr \<and> call_key c = key \<and> (\<exists>sid mid. c = DAbort sid mid))
     \<or> (\<exists>entry. map_get (md_records s) key = Some entry
          \<and> (dr_State (me_record entry) = DedupProcessing
             \<or> (\<exists>t sid mid ack. (t, DComplete sid mid ack, True) \<in> set tr \<and> dedupKey sid mid = key
                  \<and> me_expiresAt entry = t + ttl)))"

lemma claim_heldI_abort:
  "(t, DAbort sid mid, b) \<in> set tr \<Longrightarrow> dedupKey sid mid = key \<Longrightarrow> claim_held ttl key tr s"
  unfolding claim_held_def by (rule disjI1, rule exI [of _ t], rule exI [of _ "DAbort sid mid"]) (auto simp: call_key_def)

lemma claim_heldI_processing:
  "map_get (md_records s) key = Some entry \<Longrightarrow> dr_State (me_record entry) = DedupProcessing \<Longrightarrow> claim_held ttl key tr s"
  unfolding claim_held_def by blast

lemma claim_heldI_completed:
  "map_get (md_records s) key = Some entry \<Longrightarrow> (t, DComplete sid mid ack, True) \<in> set tr \<Longrightarrow> dedupKey sid mid = key \<Longrightarrow>
     me_expiresAt entry = t + ttl \<Longrightarrow> claim_held ttl key tr s"
  unfolding claim_held_def by blast

lemma claim_heldE:
  assumes "claim_held ttl key tr s"
  obtains (aborted) t sid mid b where "(t, DAbort sid mid, b) \<in> set tr" "dedupKey sid mid = key"
    | (processing) entry where "map_get (md_records s) key = Some entry" "dr_State (me_record entry) = DedupProcessing"
    | (completed) entry t sid mid ack where "map_get (md_records s) key = Some entry"
        "(t, DComplete sid mid ack, True) \<in> set tr" "dedupKey sid mid = key" "me_expiresAt entry = t + ttl"
proof -
  have abort: "thesis" if "(t, c, b) \<in> set tr" "call_key c = key" "c = DAbort sid mid" for t c b sid mid
    using aborted [of t sid mid b] that by (simp add: call_key_def)
  show thesis using assms unfolding claim_held_def 
    by (elim disjE exE conjE) (rule abort processing completed, assumption+)+
qed

lemma claim_held_mono:
  assumes "claim_held ttl key tr s" "set tr \<subseteq> set tr'" "map_get (md_records s') key = map_get (md_records s) key"
  shows "claim_held ttl key tr' s'"
  using assms unfolding claim_held_def by (elim disjE exE conjE) (metis subsetD)+

lemma claim_held_step:
  assumes held: "claim_held (md_ttl s) key tr s" and step: "dedup_perform now c s = (b, s')"
  shows "claim_held (md_ttl s) key (tr @ [(now, c, b)]) s'"
proof (cases "call_key c = key")
  case False
  then have "map_get (md_records s') key = map_get (md_records s) key" using dedup_other [of c key now s] step by simp
  then show ?thesis by (intro claim_held_mono [OF held]) auto
next
  case True
  show ?thesis
  proof (cases "\<exists>t c b. (t, c, b) \<in> set tr \<and> call_key c = key \<and> (\<exists>sid mid. c = DAbort sid mid)")
    case True
    then show ?thesis unfolding claim_held_def by (metis Un_iff set_append)
  next
    case no_abort: False
    then obtain entry where e: "map_get (md_records s) key = Some entry"
      and st: "dr_State (me_record entry) = DedupProcessing
        \<or> (\<exists>t sid mid ack. (t, DComplete sid mid ack, True) \<in> set tr \<and> dedupKey sid mid = key \<and> me_expiresAt entry = t + md_ttl s)"
      using held unfolding claim_held_def by blast
    show ?thesis
    proof (cases c)
      case (DClaim sid mid fp)
      then have key: "key = dedupKey sid mid" using True by (simp add: call_key_def)
      show ?thesis
      proof (cases "dr_State (me_record entry) = DedupProcessing \<or> now < me_expiresAt entry")
        case True
        then have "s' = s" using step DClaim e key by (auto simp: Claim_def)
        then show ?thesis by (intro claim_held_mono [OF held]) auto
      next
        case False
        then show ?thesis using step DClaim e key by (intro claim_heldI_processing) (auto simp: Claim_def Let_def)
      qed
    next
      case (DComplete sid mid ack)
      then have key: "key = dedupKey sid mid" using True by (simp add: call_key_def)
      show ?thesis
      proof (cases "ack = None \<or> dr_State (me_record entry) \<noteq> DedupProcessing")
        case True
        then have "s' = s" using step DComplete e key by (auto simp: Complete_def split: option.splits)
        then show ?thesis by (intro claim_held_mono [OF held]) auto
      next
        case False
        then obtain a where "ack = Some a" "dr_State (me_record entry) = DedupProcessing" by auto
        then have "b" "map_get (md_records s') key = Some \<lparr>me_record = \<lparr>dr_State = DedupCompleted,
            dr_Fingerprint = dr_Fingerprint (me_record entry), dr_Ack = Some a\<rparr>, me_expiresAt = now + md_ttl s\<rparr>"
          using step DComplete e key by (auto simp: Complete_def time_Add_def)
        then show ?thesis using DComplete key by (intro claim_heldI_completed [of s' key _ now sid mid ack]) auto
      qed
    next
      case (DAbort sid mid)
      then show ?thesis using True by (intro claim_heldI_abort [of now sid mid b]) (auto simp: call_key_def)
    qed
  qed
qed

lemma claim_held_run:
  "claim_held (md_ttl s) key [] s \<Longrightarrow> claim_held (md_ttl s) key (dedup_trace cs s) (dedup_after cs s)"
proof (induction cs rule: rev_induct)
  case (snoc x cs)
  obtain now c where x: "x = (now, c)" by (cases x)
  obtain b s' where step: "dedup_perform now c (dedup_after cs s) = (b, s')" by fastforce
  from claim_held_step [of "dedup_after cs s" key, OF _ step] snoc x step show ?case
    by (simp add: dedup_trace_append dedup_after_append)
qed simp

lemma won_claim:
  assumes "dedup_perform now (DClaim sid mid fp) s = (True, s')"
  shows "claim_held ttl (dedupKey sid mid) [] s'"
    and "map_get (md_records s) (dedupKey sid mid) = Some entry \<Longrightarrow>
      dr_State (me_record entry) \<noteq> DedupProcessing \<and> me_expiresAt entry \<le> now"
  using assms by (auto simp: claim_held_def Claim_def Let_def split: option.splits if_splits)

lemma NewMemoryDedupStore_ttl [simp]: "md_ttl (NewMemoryDedupStore ttl) = ttl"
  by (simp add: NewMemoryDedupStore_def)

lemma dedup_after_Suc:
  "i < length cs \<Longrightarrow> dedup_after (take (Suc i) cs) s = snd (dedup_perform (fst (cs ! i)) (snd (cs ! i)) (dedup_after (take i cs) s))"
  by (cases "cs ! i") (simp add: take_Suc_conv_app_nth dedup_after_append)

lemma dedup_trace_nth:
  assumes "i < length cs"
  shows "dedup_trace cs s ! i = (fst (cs ! i), snd (cs ! i), fst (dedup_perform (fst (cs ! i)) (snd (cs ! i)) (dedup_after (take i cs) s)))"
proof -
  have "dedup_trace cs s = dedup_trace (take i cs @ cs ! i # drop (Suc i) cs) s" using assms by (simp flip: id_take_nth_drop)
  also have "\<dots> ! i = (fst (cs ! i), snd (cs ! i), fst (dedup_perform (fst (cs ! i)) (snd (cs ! i)) (dedup_after (take i cs) s)))"
    using assms by (cases "cs ! i") (auto simp: dedup_trace_append nth_append Let_def case_prod_beta)
  finally show ?thesis .
qed

definition nul_free :: "string \<Rightarrow> bool" where
  "nul_free s \<longleftrightarrow> CHR 0x00 \<notin> set s"

lemma dedupKey_inj: "nul_free a \<Longrightarrow> nul_free b \<Longrightarrow> dedupKey a m = dedupKey b n \<longleftrightarrow> a = b \<and> m = n"
proof (induction a arbitrary: b)
  case Nil
  then show ?case by (cases b) (auto simp: dedupKey_def nul_free_def)
next
  case (Cons x a)
  then show ?case by (cases b) (auto simp: dedupKey_def nul_free_def)
qed

text \<open>
  C30: Between two won claims of the same SEND identity there is a release of the first: an abort of
  that identity, or a completion of it whose retention ended by the time of the second claim.  This
  holds over every history of calls on the store, at any times, for identities without NUL bytes.
\<close>

theorem claims_separated:
  assumes i: "i < j" "j < length calls"
    and first: "dedup_trace calls (NewMemoryDedupStore ttl) ! i = (t1, DClaim sid mid fp1, True)"
    and second: "dedup_trace calls (NewMemoryDedupStore ttl) ! j = (t2, DClaim sid mid fp2, True)"
    and nul: "nul_free sid" "list_all (\<lambda>(t, c). case c of DClaim s _ _ \<Rightarrow> nul_free s | DComplete s _ _ \<Rightarrow> nul_free s | DAbort s _ \<Rightarrow> nul_free s) calls"
  shows "\<exists>k t. i < k \<and> k < j \<and>
    ((\<exists>b. dedup_trace calls (NewMemoryDedupStore ttl) ! k = (t, DAbort sid mid, b))
     \<or> (\<exists>ack. dedup_trace calls (NewMemoryDedupStore ttl) ! k = (t, DComplete sid mid ack, True) \<and> t + ttl \<le> t2))"
proof -
  let ?tr = "\<lambda>cs. dedup_trace cs (NewMemoryDedupStore ttl)" and ?at = "\<lambda>n. dedup_after (take n calls) (NewMemoryDedupStore ttl)"
  define mid_calls where "mid_calls = take (j - Suc i) (drop (Suc i) calls)"
  have upto: "take j calls = take (Suc i) calls @ mid_calls"
    using i by (simp add: mid_calls_def take_add [symmetric])
  then have split: "calls = take (Suc i) calls @ mid_calls @ drop j calls"
    by (metis append.assoc append_take_drop_id)
  have "dedup_perform t1 (DClaim sid mid fp1) (?at i) = (True, ?at (Suc i))"
    using first dedup_trace_nth [of i calls] i dedup_after_Suc [of i calls] by (auto simp: prod_eq_iff)
  from won_claim(1) [OF this] have "claim_held ttl (dedupKey sid mid) [] (?at (Suc i))" .
  from claim_held_run [of "?at (Suc i)", simplified, unfolded NewMemoryDedupStore_ttl, OF this, of mid_calls]
  have held: "claim_held ttl (dedupKey sid mid) (dedup_trace mid_calls (?at (Suc i))) (?at j)"
    by (simp add: upto dedup_after_append)
  have "dedup_perform t2 (DClaim sid mid fp2) (?at j) = (True, ?at (Suc j))"
    using second dedup_trace_nth [of j calls] i dedup_after_Suc [of j calls] by (auto simp: prod_eq_iff)
  from won_claim(2) [OF this] have expired: "\<And>entry. map_get (md_records (?at j)) (dedupKey sid mid) = Some entry \<Longrightarrow>
      dr_State (me_record entry) \<noteq> DedupProcessing \<and> me_expiresAt entry \<le> t2" .
  have pos: "\<exists>k. i < k \<and> k < j \<and> ?tr calls ! k = x" if x: "x \<in> set (dedup_trace mid_calls (?at (Suc i)))" for x
  proof -
    obtain m where m: "m < length mid_calls" "dedup_trace mid_calls (?at (Suc i)) ! m = x"
      using x by (auto simp: in_set_conv_nth)
    have "length (take (Suc i) calls) = Suc i" "length mid_calls = j - Suc i" using i by (auto simp: mid_calls_def)
    then have "?tr calls ! (Suc i + m) = x" "Suc i + m < j"
      using m by (subst split, auto simp: dedup_trace_append nth_append)
    then show ?thesis by (intro exI [of _ "Suc i + m"]) auto
  qed
  have ids: "s' = sid \<and> m' = mid" if "?tr calls ! k = (t, c, b)" "k < j" "call_key c = dedupKey sid mid"
    "c = DAbort s' m' \<or> (\<exists>ack. c = DComplete s' m' ack)" for k t c b s' m'
  proof -
    have "(t, c) \<in> set calls" using that(1,2) i dedup_trace_nth [of k calls] by (metis (no_types, lifting) fst_conv less_trans nth_mem prod.collapse snd_conv)
    then have "nul_free s'" using nul(2) that(4) by (auto simp: list_all_iff)
    then show ?thesis using that(3,4) nul(1) by (auto simp: call_key_def dedupKey_inj)
  qed
  from held show ?thesis
  proof (cases rule: claim_heldE)
    case (aborted t s' m' b)
    then obtain k where k: "i < k" "k < j" "?tr calls ! k = (t, DAbort s' m', b)" using pos by blast
    then have "s' = sid \<and> m' = mid" using ids [OF k(3,2)] aborted(2) by (simp add: call_key_def)
    then show ?thesis using k by blast
  next
    case (processing entry)
    then show ?thesis using expired by blast
  next
    case (completed entry t s' m' ack)
    then obtain k where k: "i < k" "k < j" "?tr calls ! k = (t, DComplete s' m' ack, True)" using pos by blast
    then have "s' = sid \<and> m' = mid" using ids [OF k(3,2)] completed(3) by (simp add: call_key_def)
    moreover have "t + ttl \<le> t2" using expired completed(1,4) by fastforce
    ultimately show ?thesis using k by blast
  qed
qed

definition demo_dedup :: "(time \<times> dedup_call) list" where
  "demo_dedup = [(0, DClaim ''s'' ''m'' ''f''), (1, DComplete ''s'' ''m'' (Some demo_ack)), (20, DClaim ''s'' ''m'' ''g'')]"

lemma demo_dedup_trace:
  "dedup_trace demo_dedup (NewMemoryDedupStore 10) = map2 (\<lambda>(t, c) b. (t, c, b)) demo_dedup [True, True, True]"
  by (simp add: demo_dedup_def NewMemoryDedupStore_def Claim_def Complete_def Let_def time_Add_def)

theorem claims_separated_witness:
  "\<exists>k t. 0 < k \<and> k < (2::nat) \<and>
    ((\<exists>b. dedup_trace demo_dedup (NewMemoryDedupStore 10) ! k = (t, DAbort ''s'' ''m'', b))
     \<or> (\<exists>ack. dedup_trace demo_dedup (NewMemoryDedupStore 10) ! k = (t, DComplete ''s'' ''m'' ack, True) \<and> t + 10 \<le> (20::int)))"
  by (rule claims_separated [where ?fp1.0 = "''f''" and ?fp2.0 = "''g''" and ?t1.0 = 0])
    (simp_all add: demo_dedup_trace, simp_all add: demo_dedup_def nul_free_def)

lemma completed_entry_kept:
  assumes "map_get (md_records s) key = Some entry" "dr_State (me_record entry) = DedupCompleted"
    and "list_all (\<lambda>(t, c). t < me_expiresAt entry) cs"
  shows "map_get (md_records (dedup_after cs s)) key = Some entry"
  using assms
proof (induction cs arbitrary: s)
  case (Cons x cs)
  obtain t c where x: "x = (t, c)" by (cases x)
  have "map_get (md_records (snd (dedup_perform t c s))) key = Some entry"
  proof (cases "call_key c = key")
    case True
    then show ?thesis using Cons.prems x
      by (cases c) (auto simp: call_key_def Claim_def Complete_def Abort_def Let_def split: option.splits)
  qed (use dedup_other Cons.prems in auto)
  then show ?case using Cons x by auto
qed simp

text \<open>
  C31: A completed SEND keeps its ACK: after the claim of an identity is completed with an ACK, every
  claim of it within the retention, whatever calls came in between, is refused and returns that ACK
  with the fingerprint of the original claim.
\<close>

theorem completed_ack_kept:
  assumes claim: "Claim t0 sid mid fp0 s0 = ((True, r), s1)" and complete: "Complete t1 sid mid (Some ack) s1 = (None, s2)"
    and later: "list_all (\<lambda>(t, c). t < t1 + md_ttl s0) cs" and t: "t < t1 + md_ttl s0"
  shows "Claim t sid mid fp (dedup_after cs s2) =
    ((False, Some \<lparr>dr_State = DedupCompleted, dr_Fingerprint = fp0, dr_Ack = Some ack\<rparr>), dedup_after cs s2)"
proof -
  let ?entry = "\<lparr>me_record = \<lparr>dr_State = DedupCompleted, dr_Fingerprint = fp0, dr_Ack = Some ack\<rparr>, me_expiresAt = t1 + md_ttl s0\<rparr>"
  have "map_get (md_records s2) (dedupKey sid mid) = Some ?entry"
    using claim complete by (auto simp: Claim_def Complete_def Let_def time_Add_def split: option.splits if_splits)
  then have "map_get (md_records (dedup_after cs s2)) (dedupKey sid mid) = Some ?entry"
    by (rule completed_entry_kept) (use later in auto)
  then show ?thesis using t by (simp add: Claim_def Let_def)
qed

theorem completed_ack_kept_witness:
  "\<exists>s1 s2. Claim 0 ''s'' ''m'' ''f'' (NewMemoryDedupStore 10) = ((True, None), s1)
     \<and> Complete 1 ''s'' ''m'' (Some demo_ack) s1 = (None, s2)
     \<and> Claim 9 ''s'' ''m'' ''g'' (dedup_after [(5, DAbort ''s'' ''m'')] s2) =
        ((False, Some \<lparr>dr_State = DedupCompleted, dr_Fingerprint = ''f'', dr_Ack = Some demo_ack\<rparr>), dedup_after [(5, DAbort ''s'' ''m'')] s2)"
proof -
  obtain s1 where s1: "Claim 0 ''s'' ''m'' ''f'' (NewMemoryDedupStore 10) = ((True, None), s1)"
    by (simp add: Claim_def NewMemoryDedupStore_def)
  then obtain s2 where s2: "Complete 1 ''s'' ''m'' (Some demo_ack) s1 = (None, s2)"
    by (auto simp: Claim_def NewMemoryDedupStore_def Complete_def)
  show ?thesis using s1 s2 completed_ack_kept [OF s1 s2, of "[(5, DAbort ''s'' ''m'')]" 9 "''g''"] by (intro exI conjI) simp_all
qed

end
