(* ===== verification/Outbound.thy ===== *)
theory Outbound
  imports Codec_Roundtrip
begin

text \<open>
  \<open>outbound.go\<close>: the outbound FIFO with its one-place wake-up channel, and the single writer that
  drains it.  Each critical section is a function; the goroutines that run them are the steps of
  \<open>queue_step\<close>: any number of producers and closers, and the consumers of a given set.  The steps of
  \<open>writer_step\<close> are those of one \<open>Run\<close> with its codec and sender beside producers and closers.
\<close>

section \<open>The queue\<close>

record OutboundQueue =
  q_wake :: bool  \<comment> \<open>a token is in the channel\<close>
  q_frames :: "Envelope list"
  q_closed :: bool

definition NewOutboundQueue :: OutboundQueue where
  "NewOutboundQueue = \<lparr>q_wake = False, q_frames = [], q_closed = False\<rparr>"

text \<open>The send on \<open>wake\<close> with a \<open>default\<close> branch: a full channel keeps its one token.\<close>

definition wake_up :: "OutboundQueue \<Rightarrow> OutboundQueue" where
  "wake_up q = q\<lparr>q_wake := True\<rparr>"

definition enqueue_locked :: "Envelope list \<Rightarrow> OutboundQueue \<Rightarrow> go_error option \<times> OutboundQueue" where
  "enqueue_locked frames q =
     (if q_closed q then (Some (Sentinel ErrOutboundClosed), q)
      else (None, q\<lparr>q_frames := q_frames q @ map copyEnvelope frames\<rparr>))"

definition EnqueueBatch :: "Envelope list \<Rightarrow> OutboundQueue \<Rightarrow> go_error option \<times> OutboundQueue" where
  "EnqueueBatch frames q = (case enqueue_locked frames q of
     (Some e, q') \<Rightarrow> (Some e, q')
   | (None, q') \<Rightarrow> (None, wake_up q'))"

definition Enqueue :: "Envelope \<Rightarrow> OutboundQueue \<Rightarrow> go_error option \<times> OutboundQueue" where
  "Enqueue frame q = EnqueueBatch [frame] q"

definition close_locked :: "OutboundQueue \<Rightarrow> OutboundQueue" where
  "close_locked q = q\<lparr>q_closed := True\<rparr>"

definition queue_Close :: "OutboundQueue \<Rightarrow> OutboundQueue" where
  "queue_Close q = wake_up (close_locked q)"

text \<open>The critical section of \<open>Next\<close>: a frame, the end, or the wait on \<open>wake\<close> and the context.\<close>

datatype next_result = NextFrame Envelope | NextErr go_error | NextWait

definition next_locked :: "OutboundQueue \<Rightarrow> next_result \<times> OutboundQueue" where
  "next_locked q = (case q_frames q of
     frame # frames \<Rightarrow> (NextFrame frame, q\<lparr>q_frames := frames\<rparr>)
   | [] \<Rightarrow> if q_closed q then (NextErr (Sentinel ErrOutboundClosed), q) else (NextWait, q))"

section \<open>Goroutines over one queue\<close>

datatype consumer = CIdle | CLocking | CWaiting

record queue_sys =
  qs_queue :: OutboundQueue
  qs_signals :: nat  \<comment> \<open>producers between their critical section and the send on \<open>wake\<close>\<close>
  qs_consumer :: "nat \<Rightarrow> consumer"
  qs_enqueued :: "Envelope list"
  qs_delivered :: "Envelope list"

definition queue_init :: queue_sys where
  "queue_init = \<lparr>qs_queue = NewOutboundQueue, qs_signals = 0, qs_consumer = (\<lambda>_. CIdle), qs_enqueued = [], qs_delivered = []\<rparr>"

definition set_consumer :: "nat \<Rightarrow> consumer \<Rightarrow> queue_sys \<Rightarrow> queue_sys" where
  "set_consumer i p s = s\<lparr>qs_consumer := (qs_consumer s)(i := p)\<rparr>"

text \<open>The steps the goroutines inside the queue take by themselves.\<close>

inductive queue_internal :: "queue_sys \<Rightarrow> queue_sys \<Rightarrow> bool" where
  signal: "qs_signals s = Suc n \<Longrightarrow> queue_internal s (s\<lparr>qs_queue := wake_up (qs_queue s), qs_signals := n\<rparr>)"
| take: "qs_consumer s i = CLocking \<Longrightarrow> next_locked (qs_queue s) = (NextFrame f, q') \<Longrightarrow>
    queue_internal s ((set_consumer i CIdle s)\<lparr>qs_queue := q', qs_delivered := qs_delivered s @ [f]\<rparr>)"
| stop: "qs_consumer s i = CLocking \<Longrightarrow> next_locked (qs_queue s) = (NextErr e, q') \<Longrightarrow>
    queue_internal s ((set_consumer i CIdle s)\<lparr>qs_queue := q'\<rparr>)"
| wait: "qs_consumer s i = CLocking \<Longrightarrow> next_locked (qs_queue s) = (NextWait, q') \<Longrightarrow>
    queue_internal s ((set_consumer i CWaiting s)\<lparr>qs_queue := q'\<rparr>)"
| wake: "qs_consumer s i = CWaiting \<Longrightarrow> q_wake (qs_queue s) \<Longrightarrow>
    queue_internal s ((set_consumer i CLocking s)\<lparr>qs_queue := (qs_queue s)\<lparr>q_wake := False\<rparr>\<rparr>)"

text \<open>All steps: calls by the environment, cancelled contexts, and the internal ones.\<close>

inductive queue_step :: "nat set \<Rightarrow> queue_sys \<Rightarrow> queue_sys \<Rightarrow> bool" for C where
  internal: "queue_internal s s' \<Longrightarrow> queue_step C s s'"
| enqueue: "enqueue_locked fs (qs_queue s) = (None, q') \<Longrightarrow>
    queue_step C s (s\<lparr>qs_queue := q', qs_signals := Suc (qs_signals s), qs_enqueued := qs_enqueued s @ fs\<rparr>)"
| close: "queue_step C s (s\<lparr>qs_queue := close_locked (qs_queue s), qs_signals := Suc (qs_signals s)\<rparr>)"
| call: "i \<in> C \<Longrightarrow> qs_consumer s i = CIdle \<Longrightarrow> queue_step C s (set_consumer i CLocking s)"
| cancel: "qs_consumer s i = CWaiting \<Longrightarrow> queue_step C s (set_consumer i CIdle s)"

inductive queue_reach :: "nat set \<Rightarrow> queue_sys \<Rightarrow> bool" for C where
  start: "queue_reach C queue_init"
| step: "queue_reach C s \<Longrightarrow> queue_step C s s' \<Longrightarrow> queue_reach C s'"

lemma next_locked_simps:
  "next_locked q = (NextFrame f, q') \<longleftrightarrow> (\<exists>fs. q_frames q = f # fs \<and> q' = q\<lparr>q_frames := fs\<rparr>)"
  "next_locked q = (NextErr e, q') \<longleftrightarrow> q_frames q = [] \<and> q_closed q \<and> e = Sentinel ErrOutboundClosed \<and> q' = q"
  "next_locked q = (NextWait, q') \<longleftrightarrow> q_frames q = [] \<and> \<not> q_closed q \<and> q' = q"
  by (auto simp: next_locked_def split: list.splits if_splits)

lemma map_copyEnvelope [simp]: "map copyEnvelope fs = fs"
  by (induction fs) simp_all

lemma enqueue_locked_None:
  "enqueue_locked fs q = (None, q') \<longleftrightarrow> \<not> q_closed q \<and> q' = q\<lparr>q_frames := q_frames q @ fs\<rparr>"
  by (auto simp: enqueue_locked_def)

section \<open>First in, first out\<close>

definition fifo_ok :: "queue_sys \<Rightarrow> bool" where
  "fifo_ok s \<longleftrightarrow> qs_delivered s @ q_frames (qs_queue s) = qs_enqueued s"

lemma fifo_internal: "queue_internal s s' \<Longrightarrow> fifo_ok s \<Longrightarrow> fifo_ok s'"
  by (induction rule: queue_internal.induct)
    (auto simp: fifo_ok_def set_consumer_def wake_up_def next_locked_simps)

lemma fifo_reach: "queue_reach C s \<Longrightarrow> fifo_ok s"
proof (induction rule: queue_reach.induct)
  case start
  then show ?case by (simp add: fifo_ok_def queue_init_def NewOutboundQueue_def)
next
  case (step s s')
  from step.hyps(2) step.IH show ?case
    by cases (auto simp: fifo_internal, auto simp: fifo_ok_def enqueue_locked_None close_locked_def set_consumer_def)
qed

text \<open>
  C24: However producers, closers and consumers interleave, the frames handed out by the queue
  followed by the frames still in it are exactly the frames enqueued, in order: none is lost,
  duplicated or reordered, also after Close.
\<close>

theorem queue_fifo:
  assumes "queue_reach C s"
  shows "qs_delivered s @ q_frames (qs_queue s) = qs_enqueued s"
  using fifo_reach [OF assms] by (simp add: fifo_ok_def)

section \<open>No lost wake-up\<close>

text \<open>With one consumer, a waiting consumer with something to see has a token or one on its way.\<close>

definition wake_ok :: "nat \<Rightarrow> queue_sys \<Rightarrow> bool" where
  "wake_ok i s \<longleftrightarrow> (\<forall>j. j \<noteq> i \<longrightarrow> qs_consumer s j = CIdle) \<and>
     (qs_consumer s i = CWaiting \<and> (q_frames (qs_queue s) \<noteq> [] \<or> q_closed (qs_queue s)) \<longrightarrow>
        q_wake (qs_queue s) \<or> 0 < qs_signals s)"

lemma wake_internal: "queue_internal s s' \<Longrightarrow> wake_ok i s \<Longrightarrow> wake_ok i s'"
  by (induction rule: queue_internal.induct)
    (auto simp: wake_ok_def set_consumer_def wake_up_def next_locked_simps)

lemma wake_reach: "queue_reach {i} s \<Longrightarrow> wake_ok i s"
proof (induction rule: queue_reach.induct)
  case start
  then show ?case by (simp add: wake_ok_def queue_init_def)
next
  case (step s s')
  from step.hyps(2) step.IH show ?case
    by cases (auto simp: wake_internal, auto simp: wake_ok_def enqueue_locked_None close_locked_def set_consumer_def)
qed

text \<open>
  A bound on the internal steps: a signal to come may set the token, a token may wake the consumer
  once, and an awake consumer has one critical section to run.
\<close>

definition wake_rank :: "nat \<Rightarrow> queue_sys \<Rightarrow> nat" where
  "wake_rank i s = 3 * qs_signals s + (if q_wake (qs_queue s) then 2 else 0) + (if qs_consumer s i = CLocking then 1 else 0)"

lemma wake_rank_internal:
  assumes "queue_internal s s'" "wake_ok i s"
  shows "wake_rank i s' < wake_rank i s"
  using assms
  by (induction rule: queue_internal.induct)
    (auto simp: wake_rank_def wake_ok_def set_consumer_def wake_up_def next_locked_simps split: if_splits)

text \<open>Either the oldest frame has been handed out, or the consumer is still inside \<open>Next\<close> and it is the oldest one.\<close>

definition handed :: "nat \<Rightarrow> Envelope list \<Rightarrow> Envelope \<Rightarrow> Envelope list \<Rightarrow> queue_sys \<Rightarrow> bool" where
  "handed i out f fs s \<longleftrightarrow> wake_ok i s \<and>
     (qs_consumer s i = CIdle \<and> qs_delivered s = out @ [f] \<or> qs_consumer s i \<noteq> CIdle \<and> qs_delivered s = out \<and> q_frames (qs_queue s) = f # fs)"

lemma handed_internal:
  assumes "queue_internal s s'" "handed i out f fs s"
  shows "handed i out f fs s'"
proof -
  have "wake_ok i s'" using wake_internal [OF assms(1)] assms(2) by (simp add: handed_def)
  with assms show ?thesis
    by (induction rule: queue_internal.induct)
      (auto simp: handed_def wake_ok_def set_consumer_def wake_up_def next_locked_simps split: if_splits)
qed

lemma handed_run:
  "(queue_internal ^^ n) s s' \<Longrightarrow> handed i out f fs s \<Longrightarrow> handed i out f fs s' \<and> n + wake_rank i s' \<le> wake_rank i s"
proof (induction n arbitrary: s')
  case (Suc n)
  then obtain t where t: "(queue_internal ^^ n) s t" "queue_internal t s'" by auto
  then have "handed i out f fs t" "n + wake_rank i t \<le> wake_rank i s" using Suc by auto
  then show ?case using handed_internal [OF t(2)] wake_rank_internal [OF t(2), of i] by (auto simp: handed_def)
qed simp

lemma inside_not_stuck:
  assumes "wake_ok i s" "qs_consumer s i \<noteq> CIdle" "q_frames (qs_queue s) = f # fs"
  shows "\<exists>s'. queue_internal s s'"
proof (cases "qs_consumer s i")
  case CLocking
  then show ?thesis using queue_internal.take [of s i f "(qs_queue s)\<lparr>q_frames := fs\<rparr>"] assms(3) by (auto simp: next_locked_def)
next
  case CWaiting
  then have "q_wake (qs_queue s) \<or> 0 < qs_signals s" using assms by (simp add: wake_ok_def)
  then show ?thesis using queue_internal.wake [OF CWaiting] queue_internal.signal [of s] by (auto simp: gr0_conv_Suc)
qed (use assms(2) in simp)

text \<open>
  C25: With exactly one consumer, as the single writer is, no wake-up is lost: whenever that consumer is
  inside \<open>Next\<close> and the queue holds a frame, the steps of the goroutines already inside the queue, in
  whatever order they are scheduled, are at most three for each signal outstanding and three more, and
  when none is left the consumer has returned from \<open>Next\<close> with the oldest frame.  The consumer's context
  is not cancelled meanwhile.
\<close>

theorem queue_no_lost_wakeup:
  assumes "queue_reach {i} s" "qs_consumer s i \<noteq> CIdle" "q_frames (qs_queue s) = f # fs"
    and run: "(queue_internal ^^ n) s s'"
  shows "n \<le> 3 * qs_signals s + 3
    \<and> ((\<exists>t. queue_internal s' t) \<or> qs_consumer s' i = CIdle \<and> qs_delivered s' = qs_delivered s @ [f])"
proof -
  have "handed i (qs_delivered s) f fs s" using wake_reach [OF assms(1)] assms(2,3) by (simp add: handed_def)
  then have s': "handed i (qs_delivered s) f fs s'" and "n + wake_rank i s' \<le> wake_rank i s" using handed_run [OF run] by auto
  moreover have "wake_rank i s \<le> 3 * qs_signals s + 3" by (simp add: wake_rank_def)
  moreover have "(\<exists>t. queue_internal s' t) \<or> qs_consumer s' i = CIdle \<and> qs_delivered s' = qs_delivered s @ [f]"
    using s' inside_not_stuck [of i s' f fs] by (auto simp: handed_def)
  ultimately show ?thesis by auto
qed

definition demo_waiting :: queue_sys where
  "demo_waiting = \<lparr>qs_queue = \<lparr>q_wake = False, q_frames = [demo_ack], q_closed = False\<rparr>, qs_signals = 1,
     qs_consumer = (\<lambda>_. CIdle)(0 := CWaiting), qs_enqueued = [demo_ack], qs_delivered = []\<rparr>"

text \<open>The consumer calls \<open>Next\<close>, finds nothing and waits; a producer appends and has not signalled yet.\<close>

lemma demo_waiting_reach: "queue_reach {0} demo_waiting"
proof -
  let ?s1 = "set_consumer 0 CLocking queue_init" and ?s2 = "set_consumer 0 CWaiting queue_init"
  have "queue_reach {0} ?s1"
    by (rule queue_reach.step [OF queue_reach.start queue_step.call]) (simp_all add: queue_init_def)
  moreover have "queue_internal ?s1 ?s2"
    using queue_internal.wait [of ?s1 0 NewOutboundQueue]
    by (simp add: set_consumer_def queue_init_def next_locked_def NewOutboundQueue_def)
  ultimately have "queue_reach {0} ?s2" by (rule queue_reach.step [OF _ queue_step.internal])
  moreover have "queue_step {0} ?s2 demo_waiting"
    using queue_step.enqueue [of "[demo_ack]" ?s2 "NewOutboundQueue\<lparr>q_frames := [demo_ack]\<rparr>" "{0}"]
    by (simp add: demo_waiting_def set_consumer_def queue_init_def enqueue_locked_None NewOutboundQueue_def)
  ultimately show ?thesis by (rule queue_reach.step)
qed

theorem queue_fifo_witness: "qs_delivered demo_waiting @ q_frames (qs_queue demo_waiting) = [demo_ack]"
  using queue_fifo [OF demo_waiting_reach] by (simp add: demo_waiting_def)

theorem queue_no_lost_wakeup_witness:
  "\<exists>s'. (queue_internal ^^ 3) demo_waiting s' \<and> qs_consumer s' 0 = CIdle \<and> qs_delivered s' = [demo_ack]"
proof -
  let ?q = "\<lambda>b fs. \<lparr>q_wake = b, q_frames = fs, q_closed = False\<rparr>"
  let ?S = "\<lambda>q p out. \<lparr>qs_queue = q, qs_signals = 0, qs_consumer = (\<lambda>_. CIdle)(0 := p), qs_enqueued = [demo_ack], qs_delivered = out\<rparr>"
  let ?last = "?S (?q False []) CIdle [demo_ack]"
  have 1: "queue_internal demo_waiting (?S (?q True [demo_ack]) CWaiting [])"
    using queue_internal.signal [of demo_waiting 0] by (simp add: demo_waiting_def wake_up_def)
  have 2: "queue_internal (?S (?q True [demo_ack]) CWaiting []) (?S (?q False [demo_ack]) CLocking [])"
    using queue_internal.wake [of "?S (?q True [demo_ack]) CWaiting []" 0] by (simp add: set_consumer_def)
  have 3: "queue_internal (?S (?q False [demo_ack]) CLocking []) ?last"
    using queue_internal.take [of "?S (?q False [demo_ack]) CLocking []" 0 demo_ack "?q False []"]
    by (simp add: set_consumer_def next_locked_def)
  have run: "(queue_internal ^^ 3) demo_waiting ?last" using 1 2 3 by (auto simp: numeral_3_eq_3 relcompp.simps)
  moreover have "\<nexists>t. queue_internal ?last t" by (auto elim: queue_internal.cases split: if_splits)
  ultimately show ?thesis using queue_no_lost_wakeup [OF demo_waiting_reach _ _ run, of demo_ack "[]"]
    by (auto simp: demo_waiting_def)
qed

text \<open>With two consumers the one token of \<open>Close\<close> wakes one of them; the other one keeps waiting.\<close>

lemma close_wakes_one_of_two:
  "\<exists>s. queue_reach {0, 2} s \<and> q_closed (qs_queue s) \<and> qs_consumer s 2 = CWaiting
     \<and> \<not> q_wake (qs_queue s) \<and> qs_signals s = 0 \<and> (\<forall>i. i \<noteq> 2 \<longrightarrow> qs_consumer s i = CIdle)"
proof -
  let ?q = NewOutboundQueue and ?c = "NewOutboundQueue\<lparr>q_closed := True\<rparr>"
  let ?S = "\<lambda>q n a b. \<lparr>qs_queue = q, qs_signals = n, qs_consumer = (\<lambda>_. CIdle)(0 := a, 2 := b), qs_enqueued = [], qs_delivered = []\<rparr>"
  note reach = queue_reach.step [where C = "{0, 2}"] and int = queue_step.internal [where C = "{0, 2}"]
  have u: "(\<lambda>_. CIdle)(0 := CIdle, 2 := CIdle) = (\<lambda>_. CIdle)" by (simp add: fun_eq_iff)
  have s0: "queue_reach {0, 2} (?S ?q 0 CIdle CIdle)" using queue_reach.start [of "{0, 2}"] unfolding queue_init_def u .
  have up: "(\<lambda>_ :: nat. CIdle)(2 := b, 0 := a) = (\<lambda>_. CIdle)(0 := a, 2 := b)" for a b
    by (simp add: fun_eq_iff)
  have "queue_step {0, 2} (?S ?q 0 CIdle CIdle) (?S ?q 0 CLocking CIdle)"
    using queue_step.call [of 0 "{0, 2}" "?S ?q 0 CIdle CIdle"] by (simp add: set_consumer_def up)
  from reach [OF s0 this] have s1: "queue_reach {0, 2} (?S ?q 0 CLocking CIdle)" .
  have "queue_internal (?S ?q 0 CLocking CIdle) (?S ?q 0 CWaiting CIdle)"
    using queue_internal.wait [of "?S ?q 0 CLocking CIdle" 0 ?q] by (simp add: set_consumer_def up next_locked_def NewOutboundQueue_def)
  from reach [OF s1 int [OF this]] have s2: "queue_reach {0, 2} (?S ?q 0 CWaiting CIdle)" .
  have "queue_step {0, 2} (?S ?q 0 CWaiting CIdle) (?S ?q 0 CWaiting CLocking)"
    using queue_step.call [of 2 "{0, 2}" "?S ?q 0 CWaiting CIdle"] by (simp add: set_consumer_def up)
  from reach [OF s2 this] have s3: "queue_reach {0, 2} (?S ?q 0 CWaiting CLocking)" .
  have "queue_internal (?S ?q 0 CWaiting CLocking) (?S ?q 0 CWaiting CWaiting)"
    using queue_internal.wait [of "?S ?q 0 CWaiting CLocking" 2 ?q] by (simp add: set_consumer_def up next_locked_def NewOutboundQueue_def)
  from reach [OF s3 int [OF this]] have s4: "queue_reach {0, 2} (?S ?q 0 CWaiting CWaiting)" .
  have "queue_step {0, 2} (?S ?q 0 CWaiting CWaiting) (?S ?c 1 CWaiting CWaiting)"
    using queue_step.close [of "{0, 2}" "?S ?q 0 CWaiting CWaiting"] by (simp add: close_locked_def)
  from reach [OF s4 this] have s5: "queue_reach {0, 2} (?S ?c 1 CWaiting CWaiting)" .
  have "queue_internal (?S ?c 1 CWaiting CWaiting) (?S (wake_up ?c) 0 CWaiting CWaiting)"
    using queue_internal.signal [of "?S ?c 1 CWaiting CWaiting" 0] by simp
  from reach [OF s5 int [OF this]] have s6: "queue_reach {0, 2} (?S (wake_up ?c) 0 CWaiting CWaiting)" .
  have "queue_internal (?S (wake_up ?c) 0 CWaiting CWaiting) (?S ?c 0 CLocking CWaiting)"
    using queue_internal.wake [of "?S (wake_up ?c) 0 CWaiting CWaiting" 0]
    by (simp add: set_consumer_def up wake_up_def NewOutboundQueue_def)
  from reach [OF s6 int [OF this]] have s7: "queue_reach {0, 2} (?S ?c 0 CLocking CWaiting)" .
  have "queue_internal (?S ?c 0 CLocking CWaiting) (?S ?c 0 CIdle CWaiting)"
    using queue_internal.stop [of "?S ?c 0 CLocking CWaiting" 0 _ ?c]
    by (simp add: set_consumer_def up next_locked_def NewOutboundQueue_def)
  from reach [OF s7 int [OF this]] show ?thesis
    by (intro exI [of _ "?S ?c 0 CIdle CWaiting"]) (simp add: NewOutboundQueue_def)
qed

section \<open>The single writer\<close>

text \<open>
  \<open>Run\<close> beside its producers.  The writer is in the critical section of \<open>Next\<close>, waits in its
  \<open>select\<close>, has a frame to encode, has bytes to send, or has returned.  The sender is code outside the
  package, a function on its own state; \<open>ctx\<close> is the error of the ended context.  \<open>ws_enqueued\<close>,
  \<open>ws_sent\<close> and \<open>ws_frame\<close> record what producers gave, what the sender accepted, and the frame
  \<open>Run\<close> holds in its variable.
\<close>

datatype writer_pc = WLock | WWait | WEncode Envelope | WSend bytes | WReturn go_error

record 'w writer_sys =
  ws_queue :: OutboundQueue
  ws_signals :: nat
  ws_pc :: writer_pc
  ws_sender :: 'w
  ws_enqueued :: "Envelope list"
  ws_sent :: "bytes list"
  ws_frame :: "Envelope list"

text \<open>\<open>Run\<close> up to its loop.\<close>

definition Run :: "OutboundQueue option \<Rightarrow> JSONCodec option \<Rightarrow> (bytes \<Rightarrow> 'w \<Rightarrow> go_error option \<times> 'w) option \<Rightarrow> go_error + writer_pc" where
  "Run queue codec sender =
     (if queue = None \<or> codec = None \<or> sender = None then Inl (NewError ''kmtproto: incomplete writer configuration'')
      else Inr WLock)"

text \<open>One step of the loop: a critical section of \<open>Next\<close> or its wake-up, \<open>Encode\<close>, \<open>Send\<close>.  \<open>None\<close>: it waits or has returned.\<close>

definition Run_loop ::
  "JSONCodec \<Rightarrow> (bytes \<Rightarrow> 'w \<Rightarrow> go_error option \<times> 'w) \<Rightarrow> 'w writer_sys \<Rightarrow> 'w writer_sys option" where
  "Run_loop codec send s =
     (case ws_pc s of
        WLock \<Rightarrow>
          (case next_locked (ws_queue s) of
             (NextFrame frame, q) \<Rightarrow> Some (s\<lparr>ws_queue := q, ws_pc := WEncode frame, ws_frame := [frame]\<rparr>)
           | (NextErr e, q) \<Rightarrow> Some (s\<lparr>ws_queue := q, ws_pc := WReturn e\<rparr>)
           | (NextWait, q) \<Rightarrow> Some (s\<lparr>ws_queue := q, ws_pc := WWait\<rparr>))
      | WWait \<Rightarrow>
          if q_wake (ws_queue s) then Some (s\<lparr>ws_queue := (ws_queue s)\<lparr>q_wake := False\<rparr>, ws_pc := WLock\<rparr>) else None
      | WEncode frame \<Rightarrow>
          (case Encode codec (Some frame) of
             Inl e \<Rightarrow> Some (s\<lparr>ws_pc := WReturn e\<rparr>)
           | Inr data \<Rightarrow> Some (s\<lparr>ws_pc := WSend data\<rparr>))
      | WSend data \<Rightarrow>
          (case send data (ws_sender s) of
             (Some e, w) \<Rightarrow> Some (s\<lparr>ws_sender := w, ws_pc := WReturn e\<rparr>)
           | (None, w) \<Rightarrow> Some (s\<lparr>ws_sender := w, ws_pc := WLock, ws_sent := ws_sent s @ [data], ws_frame := []\<rparr>))
      | WReturn e \<Rightarrow> None)"

inductive writer_step ::
  "JSONCodec \<Rightarrow> (bytes \<Rightarrow> 'w \<Rightarrow> go_error option \<times> 'w) \<Rightarrow> go_error \<Rightarrow> 'w writer_sys \<Rightarrow> 'w writer_sys \<Rightarrow> bool" for codec send ctx where
  loop: "Run_loop codec send s = Some s' \<Longrightarrow> writer_step codec send ctx s s'"
| ctx_done: "ws_pc s = WWait \<Longrightarrow> writer_step codec send ctx s (s\<lparr>ws_pc := WReturn ctx\<rparr>)"
| enqueue: "enqueue_locked fs (ws_queue s) = (None, q) \<Longrightarrow>
    writer_step codec send ctx s (s\<lparr>ws_queue := q, ws_signals := Suc (ws_signals s), ws_enqueued := ws_enqueued s @ fs\<rparr>)"
| close: "writer_step codec send ctx s (s\<lparr>ws_queue := close_locked (ws_queue s), ws_signals := Suc (ws_signals s)\<rparr>)"
| signal: "ws_signals s = Suc n \<Longrightarrow> writer_step codec send ctx s (s\<lparr>ws_queue := wake_up (ws_queue s), ws_signals := n\<rparr>)"

definition writer_init :: "writer_pc \<Rightarrow> 'w \<Rightarrow> 'w writer_sys" where
  "writer_init pc w = \<lparr>ws_queue = NewOutboundQueue, ws_signals = 0, ws_pc = pc, ws_sender = w, ws_enqueued = [], ws_sent = [], ws_frame = []\<rparr>"

inductive writer_reach ::
  "JSONCodec \<Rightarrow> (bytes \<Rightarrow> 'w \<Rightarrow> go_error option \<times> 'w) \<Rightarrow> go_error \<Rightarrow> 'w \<Rightarrow> 'w writer_sys \<Rightarrow> bool" for codec send ctx w where
  start: "Run (Some NewOutboundQueue) (Some codec) (Some send) = Inr pc \<Longrightarrow> writer_reach codec send ctx w (writer_init pc w)"
| step: "writer_reach codec send ctx w s \<Longrightarrow> writer_step codec send ctx s s' \<Longrightarrow> writer_reach codec send ctx w s'"

text \<open>
  What was sent, what the writer holds and what is queued make up what was enqueued; when the writer has
  returned, why.  A sender failed on a state \<open>w'\<close> it had.
\<close>

definition in_hand :: "JSONCodec \<Rightarrow> (bytes \<Rightarrow> 'w \<Rightarrow> go_error option \<times> 'w) \<Rightarrow> go_error \<Rightarrow> 'w writer_sys \<Rightarrow> bool" where
  "in_hand codec send ctx s = (case ws_pc s of
     WLock \<Rightarrow> ws_frame s = []
   | WWait \<Rightarrow> ws_frame s = []
   | WEncode f \<Rightarrow> ws_frame s = [f]
   | WSend b \<Rightarrow> (\<exists>f. ws_frame s = [f] \<and> Encode codec (Some f) = Inr b)
   | WReturn e \<Rightarrow>
       (ws_frame s = [] \<and> (e = ctx \<or> e = Sentinel ErrOutboundClosed \<and> q_closed (ws_queue s) \<and> q_frames (ws_queue s) = []))
       \<or> (\<exists>f. ws_frame s = [f] \<and> (Encode codec (Some f) = Inl e
            \<or> (\<exists>b w'. Encode codec (Some f) = Inr b \<and> send b w' = (Some e, ws_sender s)))))"

definition writer_ok :: "JSONCodec \<Rightarrow> (bytes \<Rightarrow> 'w \<Rightarrow> go_error option \<times> 'w) \<Rightarrow> go_error \<Rightarrow> 'w writer_sys \<Rightarrow> bool" where
  "writer_ok codec send ctx s \<longleftrightarrow> in_hand codec send ctx s
     \<and> (\<exists>fs. ws_enqueued s = fs @ ws_frame s @ q_frames (ws_queue s) \<and> map (Encode codec \<circ> Some) fs = map Inr (ws_sent s))"

lemma Run_loop_ok:
  assumes ok: "writer_ok codec send ctx s" and step: "Run_loop codec send s = Some s'"
  shows "writer_ok codec send ctx s'"
proof -
  obtain fs where fs: "ws_enqueued s = fs @ ws_frame s @ q_frames (ws_queue s)" "map (Encode codec \<circ> Some) fs = map Inr (ws_sent s)"
    and hand: "in_hand codec send ctx s" using ok by (auto simp: writer_ok_def)
  show ?thesis
  proof (cases "ws_pc s")
    case WLock
    then show ?thesis using step fs hand
      by (auto simp: Run_loop_def writer_ok_def in_hand_def next_locked_def split: list.splits if_splits intro!: exI [of _ fs])
  next
    case (WSend b)
    then obtain f where f: "ws_frame s = [f]" "Encode codec (Some f) = Inr b" using hand by (auto simp: in_hand_def)
    obtain r w where send: "send b (ws_sender s) = (r, w)" by fastforce
    show ?thesis
    proof (cases r)
      case None
      then show ?thesis using step WSend send f fs by (auto simp: Run_loop_def writer_ok_def in_hand_def intro!: exI [of _ "fs @ [f]"])
    next
      case (Some e)
      then show ?thesis using step WSend send f fs by (auto simp: Run_loop_def writer_ok_def in_hand_def)
    qed
  qed (use step fs hand in \<open>auto simp: Run_loop_def writer_ok_def in_hand_def split: if_splits sum.splits\<close>)
qed

lemma writer_step_ok:
  assumes ok: "writer_ok codec send ctx s" and step: "writer_step codec send ctx s s'"
  shows "writer_ok codec send ctx s'"
  using step
proof cases
  case loop
  then show ?thesis using Run_loop_ok [OF ok] by simp
next
  case ctx_done
  then show ?thesis using ok by (auto simp: writer_ok_def in_hand_def)
next
  case (enqueue fs q)
  then have "\<not> q_closed (ws_queue s)" "q = (ws_queue s)\<lparr>q_frames := q_frames (ws_queue s) @ fs\<rparr>" by (simp_all add: enqueue_locked_None)
  then show ?thesis using ok enqueue(1) by (auto simp: writer_ok_def in_hand_def split: writer_pc.splits)
next
  case close
  then show ?thesis using ok by (auto simp: writer_ok_def in_hand_def close_locked_def split: writer_pc.splits)
next
  case (signal n)
  then show ?thesis using ok by (auto simp: writer_ok_def in_hand_def wake_up_def split: writer_pc.splits)
qed

lemma writer_reach_ok: "writer_reach codec send ctx w s \<Longrightarrow> writer_ok codec send ctx s"
proof (induction rule: writer_reach.induct)
  case (start pc)
  then show ?case by (simp add: Run_def writer_ok_def in_hand_def writer_init_def NewOutboundQueue_def)
next
  case (step s s')
  then show ?case using writer_step_ok by blast
qed

lemma encoded_decode:
  "map (Encode codec \<circ> Some) fs = map Inr bs \<Longrightarrow> list_all (canonical_payload \<circ> env_Payload) fs \<Longrightarrow> map (Decode codec) bs = map Inr fs"
proof (induction fs arbitrary: bs)
  case (Cons f fs)
  then obtain b bs' where "bs = b # bs'" "Encode codec (Some f) = Inr b" "map (Encode codec \<circ> Some) fs = map Inr bs'"
    by (cases bs) (auto simp: o_def)
  then show ?case using Cons.IH [of bs'] Cons.prems(2) roundtrip by (auto simp: o_def)
qed simp

text \<open>
  C26: \<open>SingleWriter.Run\<close> beside any producers and closers, with any sender and the context ending at any
  time.  What the sender has accepted are the encodings, in order, of the first frames enqueued; the rest of
  what was enqueued is the frame \<open>Run\<close> holds, if any, followed by the queue.  Where the payloads of the sent
  frames are compact JSON, decoding the messages gives back those frames.  \<open>Run\<close> returns only the error of
  the context or of the drained and closed queue, with every frame taken also sent, or the error that
  \<open>Encode\<close> or the sender gave for the one frame it then holds.
\<close>

theorem writer_transports_queue:
  assumes reach: "writer_reach codec send ctx w s"
  shows "(\<exists>fs. ws_enqueued s = fs @ ws_frame s @ q_frames (ws_queue s)
      \<and> map (\<lambda>frame. Encode codec (Some frame)) fs = map Inr (ws_sent s)
      \<and> (list_all (\<lambda>frame. canonical_payload (env_Payload frame)) fs \<longrightarrow> map (Decode codec) (ws_sent s) = map Inr fs))
    \<and> (\<forall>e. ws_pc s = WReturn e \<longrightarrow>
        ws_frame s = [] \<and> (e = ctx \<or> e = Sentinel ErrOutboundClosed \<and> q_closed (ws_queue s) \<and> q_frames (ws_queue s) = [])
      \<or> (\<exists>frame. ws_frame s = [frame] \<and> (Encode codec (Some frame) = Inl e
          \<or> (\<exists>data w'. Encode codec (Some frame) = Inr data \<and> send data w' = (Some e, ws_sender s)))))" (is "?sent \<and> ?returned")
proof
  have ok: "writer_ok codec send ctx s" using writer_reach_ok [OF reach] .
  then obtain fs where fs: "ws_enqueued s = fs @ ws_frame s @ q_frames (ws_queue s)"
    and enc: "map (Encode codec \<circ> Some) fs = map Inr (ws_sent s)" by (auto simp: writer_ok_def)
  show ?sent using fs enc encoded_decode [OF enc] by (auto simp: o_def)
  show ?returned using ok by (auto simp: writer_ok_def in_hand_def)
qed

text \<open>A frame is enqueued while the writer waits, it is sent, the queue is closed, and \<open>Run\<close> returns.\<close>

definition recorder :: "bytes \<Rightarrow> bytes list \<Rightarrow> go_error option \<times> bytes list" where
  "recorder data sent = (None, sent @ [data])"

definition writer_state :: "OutboundQueue \<Rightarrow> nat \<Rightarrow> writer_pc \<Rightarrow> Envelope list \<Rightarrow> bytes list \<Rightarrow> Envelope list \<Rightarrow> bytes list writer_sys" where
  "writer_state q n pc enqueued sent frame =
     \<lparr>ws_queue = q, ws_signals = n, ws_pc = pc, ws_sender = sent, ws_enqueued = enqueued, ws_sent = sent, ws_frame = frame\<rparr>"

lemma writer_demo:
  fixes q0 q1 :: OutboundQueue
  defines "q0 \<equiv> NewOutboundQueue" and "q1 \<equiv> NewOutboundQueue\<lparr>q_frames := [demo_frame]\<rparr>"
  shows "writer_reach NewJSONCodec recorder ctx []
    (writer_state (q0\<lparr>q_closed := True\<rparr>) 1 (WReturn (Sentinel ErrOutboundClosed)) [demo_frame] [demo_bytes] [])"
proof -
  let ?step = "writer_step NewJSONCodec recorder ctx" and ?reach = "writer_reach NewJSONCodec recorder ctx []"
  note defs = writer_state_def q0_def q1_def NewOutboundQueue_def
  have loop: "?reach s \<Longrightarrow> Run_loop NewJSONCodec recorder s = Some s' \<Longrightarrow> ?reach s'" for s s'
    by (rule writer_reach.step [OF _ writer_step.loop])
  have s0: "?reach (writer_state q0 0 WLock [] [] [])"
    using writer_reach.start [of NewJSONCodec recorder WLock ctx "[]"] by (simp add: Run_def writer_init_def defs)
  have s1: "?reach (writer_state q0 0 WWait [] [] [])"
    by (rule loop [OF s0]) (simp add: Run_loop_def next_locked_def defs)
  have "?step (writer_state q0 0 WWait [] [] []) (writer_state q1 1 WWait [demo_frame] [] [])"
    using writer_step.enqueue [of "[demo_frame]" "writer_state q0 0 WWait [] [] []" q1]
    by (simp add: enqueue_locked_None defs)
  from writer_reach.step [OF s1 this] have s2: "?reach (writer_state q1 1 WWait [demo_frame] [] [])" .
  have "?step (writer_state q1 1 WWait [demo_frame] [] []) (writer_state (wake_up q1) 0 WWait [demo_frame] [] [])"
    using writer_step.signal [of "writer_state q1 1 WWait [demo_frame] [] []" 0] by (simp add: defs)
  from writer_reach.step [OF s2 this] have s3: "?reach (writer_state (wake_up q1) 0 WWait [demo_frame] [] [])" .
  have s4: "?reach (writer_state q1 0 WLock [demo_frame] [] [])"
    by (rule loop [OF s3]) (simp add: Run_loop_def wake_up_def defs)
  have s5: "?reach (writer_state q0 0 (WEncode demo_frame) [demo_frame] [] [demo_frame])"
    by (rule loop [OF s4]) (simp add: Run_loop_def next_locked_def defs)
  have s6: "?reach (writer_state q0 0 (WSend demo_bytes) [demo_frame] [] [demo_frame])"
    by (rule loop [OF s5]) (simp add: Run_loop_def demo_encoded defs)
  have s7: "?reach (writer_state q0 0 WLock [demo_frame] [demo_bytes] [])"
    by (rule loop [OF s6]) (simp add: Run_loop_def recorder_def defs)
  have "?step (writer_state q0 0 WLock [demo_frame] [demo_bytes] []) (writer_state (q0\<lparr>q_closed := True\<rparr>) 1 WLock [demo_frame] [demo_bytes] [])"
    using writer_step.close [of NewJSONCodec recorder ctx "writer_state q0 0 WLock [demo_frame] [demo_bytes] []"] by (simp add: close_locked_def defs)
  from writer_reach.step [OF s7 this] show ?thesis
    by (rule loop) (simp add: Run_loop_def next_locked_def defs)
qed

theorem writer_transports_queue_witness:
  "let s = writer_state (NewOutboundQueue\<lparr>q_closed := True\<rparr>) 1 (WReturn (Sentinel ErrOutboundClosed)) [demo_frame] [demo_bytes] []
   in writer_reach NewJSONCodec recorder (NewError ''canceled'') [] s \<and> map (Decode NewJSONCodec) (ws_sent s) = [Inr demo_frame]"
  using writer_transports_queue [OF writer_demo [of "NewError ''canceled''"]] writer_demo [of "NewError ''canceled''"] demo_canonical
  by (simp add: writer_state_def NewOutboundQueue_def)

end
