(* ===== verification/Sha256.thy ===== *)
theory Sha256
  imports Go_Bytes
begin

text \<open>
  \<open>sha256.Sum256\<close> of \<open>crypto/sha256\<close> (FIPS 180-4), which the server uses as the fingerprint of a
  SEND's content.  The digest is a byte string of length 32.
\<close>

unbundle bit_operations_syntax

type_synonym word32 = "32 word"

text \<open>
  The constants are the first 32 bits of the fractional parts of the cube roots of the first 64 primes,
  and of the square roots of the first eight.  A number below 312 is prime when none of the primes
  below 19 divides it properly.
\<close>

definition sha_primes :: "int list" where
  "sha_primes = filter (\<lambda>n. list_all (\<lambda>d. d = n \<or> n mod d \<noteq> 0) [2, 3, 5, 7, 11, 13, 17]) [2..311]"

text \<open>The greatest \<open>x\<close> with \<open>f x \<le> v\<close>, one binary digit at a time.\<close>

primrec int_root :: "nat \<Rightarrow> (int \<Rightarrow> int) \<Rightarrow> int \<Rightarrow> int \<Rightarrow> int \<Rightarrow> int" where
  "int_root 0 f v d x = x"
| "int_root (Suc n) f v d x = int_root n f v (d div 2) (if f (x + d) \<le> v then x + d else x)"

definition sha_K :: "word32 list" where
  "sha_K = map (\<lambda>p. word_of_int (int_root 35 (\<lambda>x. x * x * x) (p * 79228162514264337593543950336) 17179869184 0)) sha_primes"

definition sha_H :: "word32 list" where
  "sha_H = map (\<lambda>p. word_of_int (int_root 35 (\<lambda>x. x * x) (p * 18446744073709551616) 17179869184 0)) (take 8 sha_primes)"

text \<open>The two parts of a rotated word have no bit in common.\<close>

definition rotr :: "nat \<Rightarrow> word32 \<Rightarrow> word32" where
  "rotr n x = drop_bit n x + push_bit (32 - n) x"

definition sigma0 :: "word32 \<Rightarrow> word32" where
  "sigma0 x = (rotr 7 x XOR rotr 18 x XOR drop_bit 3 x)"

definition sigma1 :: "word32 \<Rightarrow> word32" where
  "sigma1 x = (rotr 17 x XOR rotr 19 x XOR drop_bit 10 x)"

text \<open>The message schedule, newest word first.\<close>

primrec sha_extend :: "nat \<Rightarrow> word32 list \<Rightarrow> word32 list" where
  "sha_extend 0 ws = ws"
| "sha_extend (Suc n) ws =
     sha_extend n ((sigma1 (ws ! 1) + ws ! 6 + sigma0 (ws ! 14) + ws ! 15) # ws)"

definition sha_round :: "word32 \<times> word32 \<Rightarrow> word32 list \<Rightarrow> word32 list" where
  "sha_round kw st = (case st of [a, b, c, d, e, f, g, h] \<Rightarrow>
     (let t1 = h + (rotr 6 e XOR rotr 11 e XOR rotr 25 e) + ((e AND f) XOR (NOT e AND g)) + fst kw + snd kw;
          t2 = (rotr 2 a XOR rotr 13 a XOR rotr 22 a) + ((a AND b) XOR (a AND c) XOR (b AND c))
      in [t1 + t2, a, b, c, d + t1, e, f, g])
   | _ \<Rightarrow> st)"

definition sha_compress :: "word32 list \<Rightarrow> word32 list \<Rightarrow> word32 list" where
  "sha_compress block st = map2 (+) st (fold sha_round (zip sha_K (rev (sha_extend 48 (rev block)))) st)"

definition be_word :: "int \<Rightarrow> int \<Rightarrow> int \<Rightarrow> int \<Rightarrow> word32" where
  "be_word a b c d = word_of_int (((a * 256 + b) * 256 + c) * 256 + d)"

fun be_words :: "int list \<Rightarrow> word32 list" where
  "be_words (a # b # c # d # xs) = be_word a b c d # be_words xs"
| "be_words xs = []"

primrec be_bytes :: "nat \<Rightarrow> int \<Rightarrow> int list" where
  "be_bytes 0 n = []"
| "be_bytes (Suc k) n = be_bytes k (n div 256) @ [n mod 256]"

definition sha_pad :: "int list \<Rightarrow> int list" where
  "sha_pad m = m @ [128] @ replicate ((119 - length m mod 64) mod 64) 0 @ be_bytes 8 (8 * int (length m))"

primrec sha_blocks :: "nat \<Rightarrow> word32 list \<Rightarrow> word32 list \<Rightarrow> word32 list" where
  "sha_blocks 0 ws st = st"
| "sha_blocks (Suc n) ws st = sha_blocks n (drop 16 ws) (sha_compress (take 16 ws) st)"

definition Sum256 :: "bytes \<Rightarrow> bytes" where
  "Sum256 m = (let ws = be_words (sha_pad (map byte m))
     in map chr (concat (map (\<lambda>w. be_bytes 4 (uint w)) (sha_blocks (length ws div 16) ws sha_H))))"

lemma length_sha_primes: "length sha_primes = 64"
  by code_simp

lemma sha_first_constants: "hd sha_primes = 2" "int_root 35 (\<lambda>x. x * x) (2 * 18446744073709551616) 17179869184 0 mod 4294967296 = 0x6a09e667"
  by code_simp+

lemma length_be_bytes [simp]: "length (be_bytes k n) = k"
  by (induction k arbitrary: n) auto

lemma length_sha_round [simp]: "length (sha_round kw st) = length st"
  by (auto simp: sha_round_def Let_def split: list.splits)

lemma length_sha_rounds: "length (fold sha_round kws st) = length st"
  by (induction kws arbitrary: st) auto

lemma length_sha_blocks: "length (sha_blocks n ws st) = length st"
  by (induction n arbitrary: ws st) (auto simp: sha_compress_def length_sha_rounds)

text \<open>A digest has 32 bytes, whatever the message.\<close>

lemma length_Sum256 [simp]: "length (Sum256 m) = 32"
proof -
  have "length (concat (map (\<lambda>w. be_bytes 4 (uint w)) ws)) = 4 * length ws" for ws :: "word32 list"
    by (induction ws) auto
  then show ?thesis by (simp add: Sum256_def Let_def length_sha_blocks sha_H_def length_sha_primes)
qed

end
