(* ===== verification/Server_Env.thy ===== *)
theory Server_Env
  imports Store Outbound Ident Sha256 Client
begin

text \<open>
  The server's collaborators and its construction: the store interfaces of \<open>store.go\<close>,
  \<open>ServerConfig\<close>, \<open>ServerDependencies\<close> and \<open>NewServerProtocol\<close> of \<open>server.go\<close>.  What the
  collaborators keep is a state \<open>'w\<close> of any type; a call of one of their methods is a function on it
  that returns, fails or panics.
\<close>

section \<open>Calls of injected code\<close>

type_synonym ('w, 'a) call = "'w \<Rightarrow> 'a outcome \<times> 'w"

definition of_sum :: "go_error + 'a \<Rightarrow> 'a outcome" where
  "of_sum r = (case r of Inl e \<Rightarrow> Err e | Inr x \<Rightarrow> Ret x)"

record 'w SessionRepository =
  sr_Create :: "SessionState \<Rightarrow> ('w, unit) call"
  sr_Lookup :: "string \<Rightarrow> time \<Rightarrow> ('w, SessionState option) call"

text \<open>\<open>ds_Retention\<close> is \<open>Some\<close> of what a store that implements \<open>DedupRetentionReporter\<close> reports.\<close>

record 'w ServerSessionStore =
  ds_Claim :: "string \<Rightarrow> string \<Rightarrow> SendFingerprint \<Rightarrow> ('w, bool \<times> DedupRecord option) call"
  ds_Complete :: "string \<Rightarrow> string \<Rightarrow> Envelope \<Rightarrow> ('w, unit) call"
  ds_Abort :: "string \<Rightarrow> string \<Rightarrow> ('w, unit) call"
  ds_Retention :: "duration option"

record 'w ReplayStore =
  re_CurrentSeq :: "string \<Rightarrow> ('w, uint64) call"
  re_Replay :: "string \<Rightarrow> uint64 \<Rightarrow> uint64 \<Rightarrow> ReplayLimits \<Rightarrow> ('w, Envelope list) call"

type_synonym 'w EventAppender = "string \<Rightarrow> string \<Rightarrow> string \<Rightarrow> bytes \<Rightarrow> int64 \<Rightarrow> ('w, Envelope) call"
type_synonym 'w ApplicationHandler = "string \<Rightarrow> bytes \<Rightarrow> ('w, unit) call"
type_synonym 'w StateStore = "string \<Rightarrow> string \<Rightarrow> ('w, StateObject option) call"
type_synonym 'w StateSnapshotProvider = "string list \<Rightarrow> StateSnapshotLimits \<Rightarrow> ('w, StateObject list) call"
type_synonym 'w FailureInjector = "string \<Rightarrow> ('w, unit) call"
type_synonym 'w clock = "'w \<Rightarrow> time \<times> 'w"

definition FailAfterClaim :: string where "FailAfterClaim = ''after_claim''"
definition FailAfterApplication :: string where "FailAfterApplication = ''after_application''"
definition FailAfterComplete :: string where "FailAfterComplete = ''after_complete''"

section \<open>Configuration\<close>

record 'w ServerConfig =
  sf_Clock :: "'w clock option"
  sf_Limits :: Limits
  sf_Capabilities :: "CapabilityRegistry option"
  sf_StateStore :: "'w StateStore option"
  sf_StateSnapshots :: "'w StateSnapshotProvider option"
  sf_SessionResumeTTL :: duration
  sf_ReplayTTL :: duration
  sf_DedupTTL :: duration
  sf_ClientRetryTTL :: duration
  sf_StrictValidation :: bool
  sf_MaxReplayEvents :: uint64
  sf_MaxReplayBytes :: int
  sf_NewSessionID :: "('w, string) call option"
  sf_NewFrameID :: "('w, string) call option"
  sf_FailureInjector :: "'w FailureInjector option"

record 'w ServerDependencies =
  de_Sessions :: "'w SessionRepository option"
  de_Dedup :: "'w ServerSessionStore option"
  de_Replay :: "'w ReplayStore option"
  de_Appender :: "'w EventAppender option"
  de_Application :: "'w ApplicationHandler option"

text \<open>The system's clock (\<open>RealClock\<close>) and source of randomness (\<open>rand.Reader\<close>).\<close>

record 'w runtime =
  rt_Now :: "'w clock"
  rt_Rand :: "'w \<Rightarrow> (go_error + 8 word list) \<times> 'w"

definition hour :: duration where "hour = 3600 * 1000000000"

definition DefaultServerConfig :: "'w runtime \<Rightarrow> 'w ServerConfig" where
  "DefaultServerConfig rt = \<lparr>sf_Clock = Some (rt_Now rt), sf_Limits = DefaultLimits, sf_Capabilities = None,
     sf_StateStore = None, sf_StateSnapshots = None, sf_SessionResumeTTL = 24 * hour, sf_ReplayTTL = 24 * hour,
     sf_DedupTTL = 24 * hour, sf_ClientRetryTTL = hour, sf_StrictValidation = True,
     sf_MaxReplayEvents = DefaultMaxReplayEvents, sf_MaxReplayBytes = DefaultMaxReplayBytes,
     sf_NewSessionID = None, sf_NewFrameID = None, sf_FailureInjector = None\<rparr>"

text \<open>An identifier generator samples the clock, then reads the random bytes.\<close>

definition generator :: "'w clock \<Rightarrow> 'w runtime \<Rightarrow> (time \<Rightarrow> (go_error + 8 word list) \<Rightarrow> go_error + string) \<Rightarrow> ('w, string) call" where
  "generator clock rt gen w = (let (now, w1) = clock w; (random, w2) = rt_Rand rt w1 in (of_sum (gen now random), w2))"

section \<open>The server\<close>

text \<open>
  A constructed server: its configuration with every default filled in, and its collaborators.  The
  tables of SEND flights and stream lanes belong to the theories of the concurrent behaviour.
\<close>

record 'w ServerProtocol =
  sv_Now :: "'w clock"
  sv_Limits :: Limits
  sv_Capabilities :: CapabilityRegistry
  sv_StateStore :: "'w StateStore option"
  sv_StateSnapshots :: "'w StateSnapshotProvider option"
  sv_SessionResumeTTL :: duration
  sv_StrictValidation :: bool
  sv_MaxReplayEvents :: uint64
  sv_MaxReplayBytes :: int
  sv_NewSessionID :: "('w, string) call"
  sv_NewFrameID :: "('w, string) call"
  sv_FailureInjector :: "'w FailureInjector option"
  sv_sessions :: "'w SessionRepository"
  sv_dedup :: "'w ServerSessionStore"
  sv_replay :: "'w ReplayStore"
  sv_appender :: "'w EventAppender"
  sv_app :: "'w ApplicationHandler"

definition require :: "string \<Rightarrow> 'a option \<Rightarrow> go_error + 'a" where
  "require name d = (case d of None \<Rightarrow> Inl (NewError (''kmtproto: ServerDependencies.'' @ name @ '' is required''))
     | Some x \<Rightarrow> Inr x)"

definition check_server_config :: "'w ServerConfig \<Rightarrow> Limits \<Rightarrow> CapabilityRegistry \<Rightarrow> int \<Rightarrow> go_error option" where
  "check_server_config config limits registry maxReplayBytes =
     (case validateLimits limits of Some e \<Rightarrow> Some e | None \<Rightarrow>
      case registry_validate (Some registry) limits of
        Some e \<Rightarrow> Some (WrapError ''kmtproto: invalid server capabilities'' e) | None \<Rightarrow>
      case validateImplementedCapabilityRegistry (Some registry) of
        Some e \<Rightarrow> Some (WrapError ''kmtproto: invalid server capabilities'' e) | None \<Rightarrow>
      if maxReplayBytes < 0 then Some (NewError ''kmtproto: MaxReplayBytes must be positive'')
      else if sf_SessionResumeTTL config \<le> 0 \<or> sf_ReplayTTL config \<le> 0 \<or> sf_DedupTTL config \<le> 0
          \<or> sf_ClientRetryTTL config \<le> 0 then Some (NewError ''kmtproto: TTL values must be positive'')
      else if sf_DedupTTL config < sf_ClientRetryTTL config \<or> sf_DedupTTL config < sf_SessionResumeTTL config then
        Some (NewError ''kmtproto: DedupTTL must cover ClientRetryTTL and SessionResumeTTL'')
      else if sf_ReplayTTL config < sf_SessionResumeTTL config then
        Some (NewError ''kmtproto: ReplayTTL must cover SessionResumeTTL'')
      else None)"

definition check_retention :: "'w ServerConfig \<Rightarrow> 'w ServerSessionStore \<Rightarrow> go_error option" where
  "check_retention config dedup = (case ds_Retention dedup of None \<Rightarrow> None
     | Some retention \<Rightarrow>
         if retention < sf_ClientRetryTTL config \<or> retention < sf_SessionResumeTTL config then
           Some (NewError ''kmtproto: dedup store retention must cover ClientRetryTTL and SessionResumeTTL'')
         else None)"

definition NewServerProtocol ::
  "'w runtime \<Rightarrow> 'w ServerConfig \<Rightarrow> 'w ServerDependencies \<Rightarrow> go_error + 'w ServerProtocol" where
  "NewServerProtocol rt config deps =
     (let clock = (case sf_Clock config of None \<Rightarrow> rt_Now rt | Some c \<Rightarrow> c);
          limits = normalizeLimits (sf_Limits config);
          registry = (case sf_Capabilities config of None \<Rightarrow> emptyCapabilityRegistry | Some r \<Rightarrow> r);
          maxEvents = (if sf_MaxReplayEvents config = 0 then DefaultMaxReplayEvents else sf_MaxReplayEvents config);
          maxBytes = (if sf_MaxReplayBytes config = 0 then DefaultMaxReplayBytes else sf_MaxReplayBytes config);
          newSession = (case sf_NewSessionID config of None \<Rightarrow> generator clock rt DefaultSessionIDGenerator | Some f \<Rightarrow> f);
          newFrame = (case sf_NewFrameID config of None \<Rightarrow> generator clock rt DefaultFrameIDGenerator | Some f \<Rightarrow> f)
      in case check_server_config config limits registry maxBytes of Some e \<Rightarrow> Inl e | None \<Rightarrow>
         ebind (require ''Sessions'' (de_Sessions deps)) (\<lambda>sessions.
         ebind (require ''Dedup'' (de_Dedup deps)) (\<lambda>dedup.
         ebind (require ''Replay'' (de_Replay deps)) (\<lambda>replay.
         ebind (require ''Appender'' (de_Appender deps)) (\<lambda>appender.
         ebind (require ''Application'' (de_Application deps)) (\<lambda>app.
         case check_retention config dedup of Some e \<Rightarrow> Inl e | None \<Rightarrow>
         Inr \<lparr>sv_Now = clock, sv_Limits = limits, sv_Capabilities = registry, sv_StateStore = sf_StateStore config,
              sv_StateSnapshots = sf_StateSnapshots config, sv_SessionResumeTTL = sf_SessionResumeTTL config,
              sv_StrictValidation = sf_StrictValidation config, sv_MaxReplayEvents = maxEvents,
              sv_MaxReplayBytes = maxBytes, sv_NewSessionID = newSession, sv_NewFrameID = newFrame,
              sv_FailureInjector = sf_FailureInjector config, sv_sessions = sessions, sv_dedup = dedup,
              sv_replay = replay, sv_appender = appender, sv_app = app\<rparr>))))))"

end
