(* ===== verification/Server.thy ===== *)
theory Server
  imports Server_Env "HOL-Library.Product_Lexorder"
begin

text \<open>
  \<open>server.go\<close>: the frame handlers of \<open>ServerProtocol\<close>.  A handler runs on the collaborators' state
  and the outbound queue of the connection; it gives the \<open>serverHandleResult\<close>, an outcome (it
  returned, it returned an error, or it panicked) and the new state.
\<close>

section \<open>State of a call\<close>

record 'w io =
  io_world :: 'w
  io_out :: OutboundQueue

record serverHandleResult =
  hr_readySessionID :: string
  hr_capabilities :: SessionCapabilities
  hr_close :: bool
  hr_abandonSession :: bool

definition no_result :: serverHandleResult where
  "no_result = \<lparr>hr_readySessionID = [], hr_capabilities = no_capabilities, hr_close = False, hr_abandonSession = False\<rparr>"

text \<open>A call of injected code, a sample of the clock, and the steps that depend on a call's success.\<close>

definition dep :: "('w, 'a) call \<Rightarrow> 'w io \<Rightarrow> 'a outcome \<times> 'w io" where
  "dep f io = (let (r, w) = f (io_world io) in (r, io\<lparr>io_world := w\<rparr>))"

definition sample :: "'w ServerProtocol \<Rightarrow> 'w io \<Rightarrow> time \<times> 'w io" where
  "sample sv io = (let (now, w) = sv_Now sv (io_world io) in (now, io\<lparr>io_world := w\<rparr>))"

definition on_ret ::
  "'a outcome \<times> 'w io \<Rightarrow> 'r \<Rightarrow> ('a \<Rightarrow> 'w io \<Rightarrow> 'r \<times> unit outcome \<times> 'w io) \<Rightarrow> 'r \<times> unit outcome \<times> 'w io" where
  "on_ret m r k = (case m of (Ret x, io) \<Rightarrow> k x io | (Err e, io) \<Rightarrow> (r, Err e, io) | (Panic s, io) \<Rightarrow> (r, Panic s, io))"

definition on_ok :: "(go_error + 'a) \<Rightarrow> 'r \<Rightarrow> 'w io \<Rightarrow> ('a \<Rightarrow> 'r \<times> unit outcome \<times> 'w io) \<Rightarrow> 'r \<times> unit outcome \<times> 'w io" where
  "on_ok m r io k = (case m of Inl e \<Rightarrow> (r, Err e, io) | Inr x \<Rightarrow> k x)"

definition give :: "'r \<Rightarrow> unit outcome \<times> 'w io \<Rightarrow> 'r \<times> unit outcome \<times> 'w io" where
  "give r m = (r, fst m, snd m)"

section \<open>Sending\<close>

definition server_validate :: "'w ServerProtocol \<Rightarrow> Envelope \<Rightarrow> go_error option" where
  "server_validate sv frame = validateOutboundFrame (Some frame) (sv_Limits sv) (sv_StrictValidation sv)"

definition enqueue_batch :: "Envelope list \<Rightarrow> 'w io \<Rightarrow> unit outcome \<times> 'w io" where
  "enqueue_batch frames io = (case EnqueueBatch frames (io_out io) of
     (None, q) \<Rightarrow> (Ret (), io\<lparr>io_out := q\<rparr>) | (Some e, q) \<Rightarrow> (Err e, io\<lparr>io_out := q\<rparr>))"

definition enqueueFrame :: "'w ServerProtocol \<Rightarrow> Envelope \<Rightarrow> 'w io \<Rightarrow> unit outcome \<times> 'w io" where
  "enqueueFrame sv frame io = (case server_validate sv frame of
     Some e \<Rightarrow> (Err e, io)
   | None \<Rightarrow> (case Enqueue frame (io_out io) of
        (None, q) \<Rightarrow> (Ret (), io\<lparr>io_out := q\<rparr>) | (Some e, q) \<Rightarrow> (Err e, io\<lparr>io_out := q\<rparr>)))"

primrec truncate_cut :: "string \<Rightarrow> nat \<Rightarrow> nat" where
  "truncate_cut value 0 = 0"
| "truncate_cut value (Suc n) = (if RuneStart (value ! Suc n) then Suc n else truncate_cut value n)"

definition truncateUTF8 :: "string \<Rightarrow> int \<Rightarrow> string" where
  "truncateUTF8 value limit =
     (if limit \<le> 0 then [] else if len value \<le> limit then value else take (truncate_cut value (nat limit)) value)"

definition errorFrameAt :: "'w ServerProtocol \<Rightarrow> string \<Rightarrow> string \<Rightarrow> string \<Rightarrow> string \<Rightarrow> bool \<Rightarrow> int64 \<Rightarrow> Envelope" where
  "errorFrameAt sv sessionID refID code message retryable timestamp =
     (let sid = (if len sessionID > MaxSessionIDLength (sv_Limits sv) \<or> \<not> ValidString sessionID then [] else sessionID);
          ref = (if len refID > MaxIDLength (sv_Limits sv) \<or> \<not> ValidString refID then [] else refID);
          msg = truncateUTF8 message (MaxErrorMessageLength (sv_Limits sv))
      in \<lparr>env_V = WireVersionV2, env_Type = FrameError, env_ID = [], env_SessionID = sid, env_Seq = 0,
          env_Timestamp = timestamp,
          env_Payload = unparse (ErrorPayload_json \<lparr>er_Code = code, er_Message = msg, er_RefID = ref, er_Retryable = retryable\<rparr>)\<rparr>)"

definition errorFrame :: "'w ServerProtocol \<Rightarrow> string \<Rightarrow> string \<Rightarrow> string \<Rightarrow> string \<Rightarrow> bool \<Rightarrow> 'w io \<Rightarrow> Envelope \<times> 'w io" where
  "errorFrame sv sessionID refID code message retryable io =
     (let (now, io1) = sample sv io in (errorFrameAt sv sessionID refID code message retryable (UnixMilli now), io1))"

definition enqueueErrorAt ::
  "'w ServerProtocol \<Rightarrow> string \<Rightarrow> string \<Rightarrow> string \<Rightarrow> string \<Rightarrow> bool \<Rightarrow> int64 \<Rightarrow> 'w io \<Rightarrow> unit outcome \<times> 'w io" where
  "enqueueErrorAt sv sessionID refID code message retryable timestamp io =
     (case enqueueFrame sv (errorFrameAt sv sessionID refID code message retryable timestamp) io of
        (Ret _, io1) \<Rightarrow>
          (case BehaviorForErrorCode code of (behavior, ok) \<Rightarrow>
             (Ret (), if ok \<and> eb_CloseConnection behavior then io1\<lparr>io_out := queue_Close (io_out io1)\<rparr> else io1))
      | (Err e, io1) \<Rightarrow> (Err e, io1)
      | (Panic s, io1) \<Rightarrow> (Panic s, io1))"

definition enqueueError ::
  "'w ServerProtocol \<Rightarrow> string \<Rightarrow> string \<Rightarrow> string \<Rightarrow> string \<Rightarrow> bool \<Rightarrow> 'w io \<Rightarrow> unit outcome \<times> 'w io" where
  "enqueueError sv sessionID refID code message retryable io =
     (let (now, io1) = sample sv io in enqueueErrorAt sv sessionID refID code message retryable (UnixMilli now) io1)"

definition close_out :: "'w io \<Rightarrow> 'w io" where
  "close_out io = io\<lparr>io_out := queue_Close (io_out io)\<rparr>"

section \<open>Stream operations\<close>

text \<open>
  What a call finds of the other calls in progress: whether the session's stream lane is executing a
  callback, and what \<open>acquireFlight\<close> and a wait for the original SEND give.
\<close>

datatype flight_view =
    FlightLeader
  | FlightConflict
  | FlightActive "Envelope option"             \<comment> \<open>a callback is active; the flight's ACK\<close>
  | FlightWaited "go_error + Envelope option"  \<comment> \<open>the context ended, or the flight is done with its ACK\<close>

record others =
  ot_lane_active :: bool
  ot_flight :: flight_view

definition alone :: others where
  "alone = \<lparr>ot_lane_active = False, ot_flight = FlightLeader\<rparr>"

definition invokeStreamRequest :: "('w io \<Rightarrow> 'r \<times> unit outcome \<times> 'w io) \<Rightarrow> 'w io \<Rightarrow> 'r \<times> unit outcome \<times> 'w io" where
  "invokeStreamRequest fn io = (case fn io of
     (r, Panic s, io1) \<Rightarrow> (r, Err (NewError (''kmtproto: stream operation panicked: '' @ s)), io1)
   | (r, out, io1) \<Rightarrow> (r, out, io1))"

definition runStream :: "others \<Rightarrow> 'r \<Rightarrow> ('w io \<Rightarrow> 'r \<times> unit outcome \<times> 'w io) \<Rightarrow> 'w io \<Rightarrow> 'r \<times> unit outcome \<times> 'w io" where
  "runStream ot r fn io =
     (if ot_lane_active ot then (r, Err (Sentinel ErrStreamCallbackActive), io) else invokeStreamRequest fn io)"

section \<open>State queries\<close>

definition stateSnapshotLimits :: "'w ServerProtocol \<Rightarrow> Envelope \<Rightarrow> go_error + StateSnapshotLimits" where
  "stateSnapshotLimits sv frame =
     (let probe = (copyEnvelope frame)\<lparr>env_Payload := ''{}''\<rparr> in
      case json_Marshal (Envelope_json probe) of
        None \<Rightarrow> Inl (JsonError JSyntaxError)
      | Some encoded \<Rightarrow>
          (let overhead = len encoded - len (env_Payload probe);
               maxBytes = min (min (MaxStateSnapshotBytes (sv_Limits sv)) (MaxPayloadSize (sv_Limits sv)))
                            (MaxFrameSize (sv_Limits sv) - overhead)
           in if maxBytes \<le> 0 then Inl (Sentinel ErrStateSnapshotLimitExceeded)
              else Inr \<lparr>sl_MaxObjects = MaxStateSnapshotObjects (sv_Limits sv), sl_MaxBytes = maxBytes\<rparr>))"

definition snapshot_frame :: "string \<Rightarrow> string \<Rightarrow> int64 \<Rightarrow> Envelope" where
  "snapshot_frame frameID sessionID timestamp = \<lparr>env_V = WireVersionV2, env_Type = FrameStateSnapshot, env_ID = frameID,
     env_SessionID = sessionID, env_Seq = 0, env_Timestamp = timestamp, env_Payload = []\<rparr>"

text \<open>The loop over the queried objects; \<open>Ret None\<close> is a snapshot over the limit.\<close>

fun query_objects ::
  "'w ServerProtocol \<Rightarrow> 'w StateStore \<Rightarrow> string \<Rightarrow> string list \<Rightarrow> stateSnapshotAccumulator \<Rightarrow> 'w io
     \<Rightarrow> stateSnapshotAccumulator option outcome \<times> 'w io" where
  "query_objects sv get namespace [] acc io = (Ret (Some acc), io)"
| "query_objects sv get namespace (objectID # objectIDs) acc io =
     (case dep (get namespace objectID) io of
        (Err e, io1) \<Rightarrow> (Err e, io1)
      | (Panic s, io1) \<Rightarrow> (Panic s, io1)
      | (Ret None, io1) \<Rightarrow> query_objects sv get namespace objectIDs acc io1
      | (Ret (Some object), io1) \<Rightarrow>
          if so_Namespace object \<noteq> namespace \<or> so_ObjectID object \<noteq> objectID then
            (Err (NewError ''kmtproto: StateStore returned the wrong object identity''), io1)
          else case ValidateStateObject (Some object) (sv_Limits sv) of
            Some e \<Rightarrow> (Err (WrapError ''kmtproto: StateStore returned invalid State'' e), io1)
          | None \<Rightarrow>
              (case accumulator_Add acc object of
                 Inl e \<Rightarrow> if errors_Is e ErrStateSnapshotLimitExceeded then (Ret None, io1) else (Err e, io1)
               | Inr acc1 \<Rightarrow> query_objects sv get namespace objectIDs acc1 io1))"

definition query_too_large :: "'w ServerProtocol \<Rightarrow> Envelope \<Rightarrow> int64 \<Rightarrow> 'w io \<Rightarrow> unit outcome \<times> 'w io" where
  "query_too_large sv frame timestamp io = enqueueErrorAt sv (env_SessionID frame) (env_ID frame) ErrorBadRequest
     ''State snapshot exceeds configured limit; split the query'' False timestamp io"

text \<open>The part of the query that reads the store: everything after the session checks.\<close>

definition answer_query ::
  "'w ServerProtocol \<Rightarrow> 'w StateStore \<Rightarrow> Envelope \<Rightarrow> int64 \<Rightarrow> 'w io \<Rightarrow> serverHandleResult \<times> unit outcome \<times> 'w io" where
  "answer_query sv get frame timestamp io =
     on_ok (decodePayload (env_Payload frame) dec_StateQueryPayload zero_StateQueryPayload (sv_StrictValidation sv)) no_result io (\<lambda>query.
     let snapshot = snapshot_frame (env_ID frame) (env_SessionID frame) timestamp in
     on_ok (stateSnapshotLimits sv snapshot) no_result io (\<lambda>limits.
     on_ok (newStateSnapshotAccumulator (sv_Limits sv) limits) no_result io (\<lambda>accumulator.
     on_ret (query_objects sv get (sq_Namespace query) (sortStrings ([] @ sq_ObjectIDs query)) accumulator io) no_result (\<lambda>result io1.
     case result of
       None \<Rightarrow> give no_result (query_too_large sv frame timestamp io1)
     | Some acc \<Rightarrow>
         (case accumulator_Payload acc of
            Inl e \<Rightarrow>
              if errors_Is e ErrStateSnapshotLimitExceeded then give no_result (query_too_large sv frame timestamp io1)
              else (no_result, Err e, io1)
          | Inr payload \<Rightarrow> give no_result (enqueueFrame sv (snapshot\<lparr>env_Payload := payload\<rparr>) io1))))))"

definition handleStateQuery ::
  "'w ServerProtocol \<Rightarrow> others \<Rightarrow> Envelope \<Rightarrow> 'w io \<Rightarrow> serverHandleResult \<times> unit outcome \<times> 'w io" where
  "handleStateQuery sv ot frame io =
     (let (now, io0) = sample sv io; timestamp = UnixMilli now in
      runStream ot no_result (\<lambda>io.
        on_ret (dep (sr_Lookup (sv_sessions sv) (env_SessionID frame) now) io) no_result (\<lambda>found io1.
        case found of
          None \<Rightarrow> give (no_result\<lparr>hr_abandonSession := True\<rparr>)
            (enqueueErrorAt sv (env_SessionID frame) (env_ID frame) ErrorInvalidSession ''session expired or unknown'' False timestamp io1)
        | Some session \<Rightarrow>
            if \<not> stateSyncEnabled (st_Capabilities session) then
              give (no_result\<lparr>hr_close := True\<rparr>) (enqueueErrorAt sv (env_SessionID frame) (env_ID frame) ErrorProtocolViolation
                ''STATE_QUERY requires state-sync capability version 1'' False timestamp io1)
            else case sv_StateStore sv of
              None \<Rightarrow> give no_result (enqueueErrorAt sv (env_SessionID frame) (env_ID frame) ErrorInternal
                ''State store is unavailable'' True timestamp io1)
            | Some get \<Rightarrow> answer_query sv get frame timestamp io1)) io0)"

section \<open>Publication\<close>

definition event_frame :: "string \<Rightarrow> string \<Rightarrow> uint64 \<Rightarrow> int64 \<Rightarrow> bytes \<Rightarrow> Envelope" where
  "event_frame eventID sessionID seq timestamp payload = \<lparr>env_V = WireVersionV2, env_Type = FrameEvent, env_ID = eventID,
     env_SessionID = sessionID, env_Seq = seq, env_Timestamp = timestamp, env_Payload = payload\<rparr>"

definition publish_appended ::
  "'w ServerProtocol \<Rightarrow> string \<Rightarrow> string \<Rightarrow> string \<Rightarrow> bytes \<Rightarrow> Envelope \<Rightarrow> 'w io \<Rightarrow> unit outcome \<times> 'w io" where
  "publish_appended sv sessionID eventID eventType contentCopy event io =
     (case server_validate sv event of
        Some e \<Rightarrow> (Err (WrapError ''kmtproto: EventAppender returned invalid EVENT'' e), io)
      | None \<Rightarrow>
      case decodePayload (env_Payload event) dec_EventPayload zero_EventPayload (sv_StrictValidation sv) of
        Inl e \<Rightarrow> (Err (WrapError ''kmtproto: EventAppender returned invalid EVENT payload'' e), io)
      | Inr payload \<Rightarrow>
          if env_Type event \<noteq> FrameEvent \<or> env_SessionID event \<noteq> sessionID \<or> env_ID event \<noteq> eventID
             \<or> ep_EventType payload \<noteq> eventType \<or> ep_Content payload \<noteq> contentCopy then
            (Err (NewError ''kmtproto: EventAppender returned an EVENT that does not match the append request''), io)
          else enqueueFrame sv event io)"

definition PublishEvent ::
  "'w ServerProtocol \<Rightarrow> others \<Rightarrow> string \<Rightarrow> string \<Rightarrow> string \<Rightarrow> bytes \<Rightarrow> 'w io \<Rightarrow> unit outcome \<times> 'w io" where
  "PublishEvent sv ot sessionID eventID eventType content io =
     (if sessionID = [] \<or> eventID = [] \<or> \<not> json_Valid content \<or> \<not> ValidString eventID then
        (Err (NewProtocolError ErrorBadRequest ''invalid event publication''), io)
      else if len eventID > MaxIDLength (sv_Limits sv) \<or> len sessionID > MaxSessionIDLength (sv_Limits sv)
          \<or> len content > MaxPayloadSize (sv_Limits sv) then
        (Err (NewProtocolError ErrorBadRequest ''event publication exceeds protocol limits''), io)
      else
        (let (now, io0) = sample sv io; contentCopy = [] @ content in
         case mustPayload (EventPayload_json \<lparr>ep_EventType = eventType, ep_Content = contentCopy\<rparr>) of
           None \<Rightarrow> (Panic ''mustPayload'', io0)
         | Some payload \<Rightarrow>
         case server_validate sv (event_frame eventID sessionID (- 1) (UnixMilli now) payload) of
           Some e \<Rightarrow> (Err e, io0)
         | None \<Rightarrow>
             snd (runStream ot () (\<lambda>io.
               on_ret (dep (sr_Lookup (sv_sessions sv) sessionID now) io) () (\<lambda>found io1.
               if found = None then ((), Err (NewProtocolError ErrorInvalidSession ''session is not resumable''), io1)
               else on_ret (dep (sv_appender sv sessionID eventID eventType ([] @ contentCopy) (UnixMilli now)) io1) () (\<lambda>event io2.
                 give () (publish_appended sv sessionID eventID eventType contentCopy event io2)))) io0)))"

definition PublishStateUpdate ::
  "'w ServerProtocol \<Rightarrow> others \<Rightarrow> string \<Rightarrow> string \<Rightarrow> StateObject \<Rightarrow> 'w io \<Rightarrow> unit outcome \<times> 'w io" where
  "PublishStateUpdate sv ot sessionID updateID object io =
     (case ValidateStateObject (Some object) (sv_Limits sv) of
        Some e \<Rightarrow> (Err e, io)
      | None \<Rightarrow>
          (let (now, io0) = sample sv io in
           snd (runStream ot () (\<lambda>io.
             on_ret (dep (sr_Lookup (sv_sessions sv) sessionID now) io) () (\<lambda>found io1.
             case found of
               None \<Rightarrow> ((), Err (NewProtocolError ErrorInvalidSession ''session expired or unknown''), io1)
             | Some session \<Rightarrow>
                 if \<not> stateSyncEnabled (st_Capabilities session) then
                   ((), Err (NewProtocolError ErrorProtocolViolation ''STATE_UPDATE requires state-sync capability version 1''), io1)
                 else case mustPayload (StateUpdatePayload_json \<lparr>su_State = cloneStateObject object\<rparr>) of
                   None \<Rightarrow> ((), Panic ''mustPayload'', io1)
                 | Some payload \<Rightarrow> give () (enqueueFrame sv \<lparr>env_V = WireVersionV2, env_Type = FrameStateUpdate, env_ID = updateID,
                     env_SessionID = sessionID, env_Seq = 0, env_Timestamp = UnixMilli now, env_Payload = payload\<rparr> io1))) io0)))"

section \<open>Handshake and heartbeat\<close>

definition new_welcome :: "string \<Rightarrow> SessionCapabilities \<Rightarrow> time \<Rightarrow> time \<Rightarrow> Envelope" where
  "new_welcome sessionID accepted t1 t2 = \<lparr>env_V = WireVersionV2, env_Type = FrameWelcome, env_ID = [], env_SessionID = sessionID,
     env_Seq = 0, env_Timestamp = UnixMilli t1,
     env_Payload = unparse (WelcomePayload_json \<lparr>wp_Mode = WelcomeModeNew, wp_ServerTime = UnixMilli t2, wp_ResumeFrom = 0,
       wp_ReplayTo = 0, wp_StateSync = None, wp_AcceptedCapabilities = Capabilities_List accepted\<rparr>)\<rparr>"

text \<open>The creation of the session and its WELCOME.\<close>

definition hello_create ::
  "'w ServerProtocol \<Rightarrow> Envelope \<Rightarrow> SessionCapabilities \<Rightarrow> string \<Rightarrow> Envelope \<Rightarrow> 'w io \<Rightarrow> serverHandleResult \<times> unit outcome \<times> 'w io" where
  "hello_create sv frame accepted sessionID welcome io =
     (let (now, io1) = sample sv io;
          state = \<lparr>st_SessionID = sessionID, st_ExpiresAt = time_Add now (sv_SessionResumeTTL sv), st_Capabilities = accepted\<rparr>
      in case dep (sr_Create (sv_sessions sv) state) io1 of
           (Panic s, io2) \<Rightarrow> (no_result, Panic s, io2)
         | (Err e, io2) \<Rightarrow>
             if errors_Is e ErrSessionExists then
               give no_result (enqueueError sv [] (env_ID frame) ErrorInternal ''cannot allocate a unique session'' True io2)
             else (no_result, Err e, io2)
         | (Ret _, io2) \<Rightarrow>
             on_ret (enqueueFrame sv welcome io2) no_result (\<lambda>_ io3.
               (no_result\<lparr>hr_readySessionID := sessionID, hr_capabilities := accepted\<rparr>, Ret (), io3)))"

definition hello_welcome ::
  "'w ServerProtocol \<Rightarrow> Envelope \<Rightarrow> SessionCapabilities \<Rightarrow> string \<Rightarrow> 'w io \<Rightarrow> serverHandleResult \<times> unit outcome \<times> 'w io" where
  "hello_welcome sv frame accepted sessionID io =
     (if len sessionID > MaxSessionIDLength (sv_Limits sv) \<or> \<not> ValidString sessionID then
        (no_result, Err (NewError ''kmtproto: generated session id exceeds limit''), io)
      else
        (let (t1, io1) = sample sv io; (t2, io2) = sample sv io1; welcome = new_welcome sessionID accepted t1 t2
         in case server_validate sv welcome of
              Some e \<Rightarrow> (no_result, Err e, io2)
            | None \<Rightarrow> hello_create sv frame accepted sessionID welcome io2))"

definition handleHello :: "'w ServerProtocol \<Rightarrow> Envelope \<Rightarrow> 'w io \<Rightarrow> serverHandleResult \<times> unit outcome \<times> 'w io" where
  "handleHello sv frame io =
     on_ok (decodePayload (env_Payload frame) dec_HelloPayload zero_HelloPayload (sv_StrictValidation sv)) no_result io (\<lambda>hello.
     case Negotiate (Some (sv_Capabilities sv)) (hp_Capabilities hello) (sv_Limits sv) of
       Inl e \<Rightarrow>
         (case errors_As e of
            Some pe \<Rightarrow> give (no_result\<lparr>hr_close := pe_Close pe\<rparr>)
              (enqueueError sv [] (env_ID frame) (pe_Code pe) (pe_Message pe) (pe_Retryable pe) io)
          | None \<Rightarrow> (no_result, Err e, io))
     | Inr accepted \<Rightarrow>
         (case dep (sv_NewSessionID sv) io of
            (Panic s, io1) \<Rightarrow> (no_result, Panic s, io1)
          | (Err _, io1) \<Rightarrow> give no_result (enqueueError sv [] (env_ID frame) ErrorInternal ''cannot create session'' True io1)
          | (Ret sessionID, io1) \<Rightarrow>
              if sessionID = [] then
                give no_result (enqueueError sv [] (env_ID frame) ErrorInternal ''cannot create session'' True io1)
              else hello_welcome sv frame accepted sessionID io1))"

definition handlePing :: "'w ServerProtocol \<Rightarrow> Envelope \<Rightarrow> 'w io \<Rightarrow> serverHandleResult \<times> unit outcome \<times> 'w io" where
  "handlePing sv frame io =
     (let (now, io0) = sample sv io in
      on_ret (dep (sr_Lookup (sv_sessions sv) (env_SessionID frame) now) io0) no_result (\<lambda>found io1.
      if found = None then
        give (no_result\<lparr>hr_abandonSession := True\<rparr>)
          (enqueueError sv (env_SessionID frame) [] ErrorInvalidSession ''session expired or unknown'' False io1)
      else on_ok (decodePayload (env_Payload frame) dec_PingPayload zero_PingPayload (sv_StrictValidation sv)) no_result io1 (\<lambda>ping.
        let (t1, io2) = sample sv io1; (t2, io3) = sample sv io2 in
        give no_result (enqueueFrame sv \<lparr>env_V = WireVersionV2, env_Type = FramePong, env_ID = [],
          env_SessionID = env_SessionID frame, env_Seq = 0, env_Timestamp = UnixMilli t1,
          env_Payload = unparse (PongPayload_json \<lparr>po_PingID = pp_PingID ping, po_ClientTime = pp_ClientTime ping,
            po_ServerTime = UnixMilli t2\<rparr>)\<rparr> io3))))"

section \<open>SEND\<close>

definition validateStoredACK :: "'w ServerProtocol \<Rightarrow> Envelope \<Rightarrow> string \<Rightarrow> string \<Rightarrow> go_error option" where
  "validateStoredACK sv ack sessionID messageID =
     (case server_validate sv ack of
        Some e \<Rightarrow> Some (WrapError ''kmtproto: dedup store returned invalid ACK'' e)
      | None \<Rightarrow>
      if env_Type ack \<noteq> FrameAck \<or> env_SessionID ack \<noteq> sessionID then
        Some (NewError ''kmtproto: dedup store returned ACK for another SEND'')
      else case decodePayload (env_Payload ack) dec_AckPayload zero_AckPayload (sv_StrictValidation sv) of
        Inl e \<Rightarrow> Some (WrapError ''kmtproto: dedup store returned invalid ACK payload'' e)
      | Inr payload \<Rightarrow>
          if ap_RefID payload \<noteq> messageID then Some (NewError ''kmtproto: dedup store returned ACK for another SEND'')
          else None)"

definition inject :: "'w ServerProtocol \<Rightarrow> string \<Rightarrow> ('w, unit) call" where
  "inject sv point w = (case sv_FailureInjector sv of None \<Rightarrow> (Ret (), w) | Some f \<Rightarrow> f point w)"

definition recover_send :: "'a outcome \<Rightarrow> 'a outcome" where
  "recover_send r = (case r of Panic s \<Rightarrow> Err (NewError (''kmtproto: SEND dependency callback panicked: '' @ s)) | _ \<Rightarrow> r)"

text \<open>A callback of the leading SEND: its panic becomes an error.\<close>

definition send_callback :: "('w, 'a) call \<Rightarrow> 'w io \<Rightarrow> 'a outcome \<times> 'w io" where
  "send_callback f io = (let (r, io1) = dep f io in (recover_send r, io1))"

definition send_error :: "'w ServerProtocol \<Rightarrow> Envelope \<Rightarrow> string \<Rightarrow> string \<Rightarrow> bool \<Rightarrow> int64 \<Rightarrow> 'w io \<Rightarrow> unit outcome \<times> 'w io" where
  "send_error sv frame code message retryable timestamp io =
     enqueueErrorAt sv (env_SessionID frame) (env_ID frame) code message retryable timestamp io"

definition send_stored_ack :: "'w ServerProtocol \<Rightarrow> Envelope \<Rightarrow> Envelope \<Rightarrow> 'w io \<Rightarrow> unit outcome \<times> 'w io" where
  "send_stored_ack sv frame ack io =
     (case validateStoredACK sv ack (env_SessionID frame) (env_ID frame) of
        Some e \<Rightarrow> (Err e, io) | None \<Rightarrow> enqueueFrame sv ack io)"

definition ack_frame :: "Envelope \<Rightarrow> int64 \<Rightarrow> Envelope" where
  "ack_frame frame timestamp = \<lparr>env_V = WireVersionV2, env_Type = FrameAck, env_ID = [], env_SessionID = env_SessionID frame,
     env_Seq = 0, env_Timestamp = timestamp, env_Payload = unparse (AckPayload_json \<lparr>ap_RefID = env_ID frame\<rparr>)\<rparr>"

text \<open>The leader's work after a successful claim.\<close>

definition send_claimed ::
  "'w ServerProtocol \<Rightarrow> Envelope \<Rightarrow> bytes \<Rightarrow> int64 \<Rightarrow> 'w io \<Rightarrow> serverHandleResult \<times> unit outcome \<times> 'w io" where
  "send_claimed sv frame content timestamp io =
     on_ret (send_callback (inject sv FailAfterClaim) io) no_result (\<lambda>_ io1.
     case send_callback (sv_app sv (env_ID frame) ([] @ content)) io1 of
       (Ret _, io2) \<Rightarrow>
         on_ret (send_callback (inject sv FailAfterApplication) io2) no_result (\<lambda>_ io3.
         case server_validate sv (ack_frame frame timestamp) of
           Some e \<Rightarrow> (no_result, Err e, io3)
         | None \<Rightarrow>
             on_ret (send_callback (ds_Complete (sv_dedup sv) (env_SessionID frame) (env_ID frame) (ack_frame frame timestamp)) io3) no_result (\<lambda>_ io4.
             on_ret (send_callback (inject sv FailAfterComplete) io4) no_result (\<lambda>_ io5.
             give no_result (enqueueFrame sv (ack_frame frame timestamp) io5))))
     | (_, io2) \<Rightarrow> give no_result (send_error sv frame ErrorInternal ''application rejected SEND'' True timestamp io2))"

text \<open>The leader's answer when the identity is already claimed.\<close>

definition send_existing ::
  "'w ServerProtocol \<Rightarrow> Envelope \<Rightarrow> SendFingerprint \<Rightarrow> DedupRecord option \<Rightarrow> int64 \<Rightarrow> 'w io \<Rightarrow> unit outcome \<times> 'w io" where
  "send_existing sv frame fingerprint existing timestamp io =
     (case existing of
        Some r \<Rightarrow>
          if dr_Fingerprint r \<noteq> fingerprint then
            send_error sv frame ErrorBadRequest ''SEND id was reused with different content'' False timestamp io
          else (case (dr_State r, dr_Ack r) of
             (DedupCompleted, Some ack) \<Rightarrow> send_stored_ack sv frame ack io
           | _ \<Rightarrow> send_error sv frame ErrorInternal ''SEND is still processing; retry with the same id'' True timestamp io)
      | None \<Rightarrow> send_error sv frame ErrorInternal ''SEND is still processing; retry with the same id'' True timestamp io)"

definition send_leader ::
  "'w ServerProtocol \<Rightarrow> Envelope \<Rightarrow> bytes \<Rightarrow> time \<Rightarrow> 'w io \<Rightarrow> serverHandleResult \<times> unit outcome \<times> 'w io" where
  "send_leader sv frame content now io =
     (let timestamp = UnixMilli now; fingerprint = Sum256 content in
      on_ret (send_callback (sr_Lookup (sv_sessions sv) (env_SessionID frame) now) io) no_result (\<lambda>found io1.
      if found = None then
        give (no_result\<lparr>hr_abandonSession := True\<rparr>) (send_error sv frame ErrorInvalidSession ''session expired or unknown'' False timestamp io1)
      else on_ret (send_callback (ds_Claim (sv_dedup sv) (env_SessionID frame) (env_ID frame) fingerprint) io1) no_result (\<lambda>claim io2.
        if \<not> fst claim then give no_result (send_existing sv frame fingerprint (snd claim) timestamp io2)
        else send_claimed sv frame content timestamp io2)))"

definition waitForOriginal ::
  "'w ServerProtocol \<Rightarrow> (go_error + Envelope option) \<Rightarrow> Envelope \<Rightarrow> int64 \<Rightarrow> 'w io \<Rightarrow> unit outcome \<times> 'w io" where
  "waitForOriginal sv waited frame timestamp io =
     (case waited of
        Inl e \<Rightarrow> (Err e, io)
      | Inr (Some ack) \<Rightarrow> send_stored_ack sv frame ack io
      | Inr None \<Rightarrow> send_error sv frame ErrorInternal ''original SEND did not complete; retry'' True timestamp io)"

definition handleSend ::
  "'w ServerProtocol \<Rightarrow> others \<Rightarrow> Envelope \<Rightarrow> 'w io \<Rightarrow> serverHandleResult \<times> unit outcome \<times> 'w io" where
  "handleSend sv ot frame io =
     (let (now, io0) = sample sv io; timestamp = UnixMilli now in
      on_ok (decodePayload (env_Payload frame) dec_SendPayload zero_SendPayload (sv_StrictValidation sv)) no_result io0 (\<lambda>payload.
      case ot_flight ot of
        FlightConflict \<Rightarrow> give no_result (send_error sv frame ErrorBadRequest ''SEND id was reused with different content'' False timestamp io0)
      | FlightActive (Some ack) \<Rightarrow> give no_result (send_stored_ack sv frame ack io0)
      | FlightActive None \<Rightarrow> give no_result (send_error sv frame ErrorInternal ''SEND callback is active; retry with the same id'' True timestamp io0)
      | FlightWaited waited \<Rightarrow> give no_result (waitForOriginal sv waited frame timestamp io0)
      | FlightLeader \<Rightarrow> send_leader sv frame ([] @ sp_Content payload) now io0))"

section \<open>RESUME\<close>

fun check_snapshot :: "Limits \<Rightarrow> string list \<Rightarrow> StateIdentity list \<Rightarrow> StateObject list \<Rightarrow> go_error option" where
  "check_snapshot limits allowed seen [] = None"
| "check_snapshot limits allowed seen (state # states) =
     (case ValidateStateObject (Some state) limits of Some e \<Rightarrow> Some e | None \<Rightarrow>
      if so_Namespace state \<notin> set allowed then
        Some (NewError ''kmtproto: State snapshot returned an unrequested namespace'')
      else if Identity state \<in> set seen then
        Some (NewError ''kmtproto: State snapshot returned a duplicate identity'')
      else check_snapshot limits allowed (Identity state # seen) states)"

definition build_snapshot ::
  "'w ServerProtocol \<Rightarrow> Envelope \<Rightarrow> StateSnapshotLimits \<Rightarrow> string list \<Rightarrow> StateObject list \<Rightarrow> go_error + Envelope" where
  "build_snapshot sv snapshot limits namespaces states =
     (if len states > sl_MaxObjects limits then Inl (Sentinel ErrStateSnapshotLimitExceeded)
      else case check_snapshot (sv_Limits sv) namespaces [] states of Some e \<Rightarrow> Inl e | None \<Rightarrow>
      ebind (newStateSnapshotAccumulator (sv_Limits sv) limits) (\<lambda>accumulator.
      ebind (accumulate accumulator (sort_key (\<lambda>s. (so_Namespace s, so_ObjectID s)) (map cloneStateObject states))) (\<lambda>filled.
      ebind (accumulator_Payload filled) (\<lambda>payload.
      case server_validate sv (snapshot\<lparr>env_Payload := payload\<rparr>) of
        Some e \<Rightarrow> Inl e | None \<Rightarrow> Inr (snapshot\<lparr>env_Payload := payload\<rparr>)))))"

definition buildResumeStateSnapshot ::
  "'w ServerProtocol \<Rightarrow> 'w StateSnapshotProvider \<Rightarrow> string \<Rightarrow> string \<Rightarrow> int64 \<Rightarrow> string list \<Rightarrow> 'w io \<Rightarrow> Envelope outcome \<times> 'w io" where
  "buildResumeStateSnapshot sv provider sessionID frameID timestamp namespaces io =
     (let snapshot = snapshot_frame frameID sessionID timestamp in
      case stateSnapshotLimits sv snapshot of
        Inl e \<Rightarrow> (Err e, io)
      | Inr limits \<Rightarrow>
          (case dep (provider ([] @ namespaces) limits) io of
             (Err e, io1) \<Rightarrow> (Err e, io1)
           | (Panic s, io1) \<Rightarrow> (Panic s, io1)
           | (Ret states, io1) \<Rightarrow> (of_sum (build_snapshot sv snapshot limits namespaces states), io1)))"

text \<open>The loop over the replayed events: a refusal's message, or the sequence expected next.\<close>

fun check_replayed :: "'w ServerProtocol \<Rightarrow> string \<Rightarrow> uint64 \<Rightarrow> Envelope list \<Rightarrow> string + uint64" where
  "check_replayed sv sessionID expectedSeq [] = Inr expectedSeq"
| "check_replayed sv sessionID expectedSeq (event # events) =
     (if server_validate sv event \<noteq> None then Inl ''replay store returned an invalid EVENT''
      else if env_Type event \<noteq> FrameEvent \<or> env_SessionID event \<noteq> sessionID \<or> env_Seq event \<noteq> expectedSeq then
        Inl ''replay store returned a non-contiguous event range''
      else check_replayed sv sessionID (expectedSeq + 1) events)"

definition resume_error ::
  "'w ServerProtocol \<Rightarrow> Envelope \<Rightarrow> string \<Rightarrow> string \<Rightarrow> bool \<Rightarrow> int64 \<Rightarrow> 'w io \<Rightarrow> unit outcome \<times> 'w io" where
  "resume_error sv frame code message retryable timestamp io =
     enqueueErrorAt sv (env_SessionID frame) [] code message retryable timestamp io"

definition resume_welcome :: "Envelope \<Rightarrow> ResumePayload \<Rightarrow> uint64 \<Rightarrow> int64 \<Rightarrow> Envelope" where
  "resume_welcome frame resume replayTo timestamp = \<lparr>env_V = WireVersionV2, env_Type = FrameWelcome, env_ID = [],
     env_SessionID = env_SessionID frame, env_Seq = 0, env_Timestamp = timestamp,
     env_Payload = unparse (WelcomePayload_json \<lparr>wp_Mode = WelcomeModeResumed, wp_ServerTime = timestamp,
       wp_ResumeFrom = rp_LastSeq resume + 1, wp_ReplayTo = replayTo, wp_StateSync = cloneResumeStateSync (rp_StateSync resume),
       wp_AcceptedCapabilities = []\<rparr>)\<rparr>"

text \<open>The last part of the stream operation: WELCOME, the events and the snapshot in one batch.\<close>

definition resume_batch ::
  "'w ServerProtocol \<Rightarrow> Envelope \<Rightarrow> ResumePayload \<Rightarrow> uint64 \<Rightarrow> int64 \<Rightarrow> Envelope list \<Rightarrow> Envelope option
     \<Rightarrow> serverHandleResult \<Rightarrow> 'w io \<Rightarrow> serverHandleResult \<times> unit outcome \<times> 'w io" where
  "resume_batch sv frame resume replayTo timestamp events stateSnapshot result io =
     (case server_validate sv (resume_welcome frame resume replayTo timestamp) of
        Some e \<Rightarrow> (result, Err e, io)
      | None \<Rightarrow>
          on_ret (enqueue_batch ([resume_welcome frame resume replayTo timestamp] @ events
              @ (case stateSnapshot of None \<Rightarrow> [] | Some s \<Rightarrow> [s])) io) result (\<lambda>_ io1.
            (result\<lparr>hr_readySessionID := env_SessionID frame\<rparr>, Ret (), io1)))"

text \<open>The State part: the snapshot the client asked for, before WELCOME.\<close>

definition resume_state ::
  "'w ServerProtocol \<Rightarrow> Envelope \<Rightarrow> ResumePayload \<Rightarrow> string \<Rightarrow> uint64 \<Rightarrow> int64 \<Rightarrow> Envelope list
     \<Rightarrow> serverHandleResult \<Rightarrow> 'w io \<Rightarrow> serverHandleResult \<times> unit outcome \<times> 'w io" where
  "resume_state sv frame resume snapshotID replayTo timestamp events result io =
     (case rp_StateSync resume of
        None \<Rightarrow> resume_batch sv frame resume replayTo timestamp events None result io
      | Some sync \<Rightarrow>
      case sv_StateSnapshots sv of
        None \<Rightarrow> (result, Panic ''nil StateSnapshotProvider'', io)
      | Some provider \<Rightarrow>
          (case buildResumeStateSnapshot sv provider (env_SessionID frame) snapshotID timestamp (rs_Namespaces sync) io of
             (Panic s, io1) \<Rightarrow> (result, Panic s, io1)
           | (Err e, io1) \<Rightarrow> give (result\<lparr>hr_close := True\<rparr>)
               (resume_error sv frame ErrorStateUnavailable ''State snapshot could not be produced'' True timestamp io1)
           | (Ret snapshot, io1) \<Rightarrow> resume_batch sv frame resume replayTo timestamp events (Some snapshot) result io1))"

definition resume_events ::
  "'w ServerProtocol \<Rightarrow> Envelope \<Rightarrow> ResumePayload \<Rightarrow> string \<Rightarrow> uint64 \<Rightarrow> int64
     \<Rightarrow> serverHandleResult \<Rightarrow> 'w io \<Rightarrow> serverHandleResult \<times> unit outcome \<times> 'w io" where
  "resume_events sv frame resume snapshotID replayTo timestamp result io =
     (case dep (re_Replay (sv_replay sv) (env_SessionID frame) (rp_LastSeq resume) replayTo
              \<lparr>rl_MaxEvents = sv_MaxReplayEvents sv, rl_MaxBytes = sv_MaxReplayBytes sv\<rparr>) io of
        (Panic s, io1) \<Rightarrow> (result, Panic s, io1)
      | (Err e, io1) \<Rightarrow>
          if errors_Is e ErrReplayLimitExceeded then
            give result (resume_error sv frame ErrorSyncRequired ''replay exceeds configured byte limit'' False timestamp io1)
          else if errors_Is e ErrReplayUnavailable then
            give result (resume_error sv frame ErrorSyncRequired ''replay window no longer covers last_seq'' False timestamp io1)
          else give (result\<lparr>hr_close := True\<rparr>)
            (resume_error sv frame ErrorInternal ''replay could not be produced'' True timestamp io1)
      | (Ret events, io1) \<Rightarrow>
          (case check_replayed sv (env_SessionID frame) (rp_LastSeq resume + 1) events of
             Inl message \<Rightarrow> give (result\<lparr>hr_close := True\<rparr>) (resume_error sv frame ErrorInternal message True timestamp io1)
           | Inr expectedSeq \<Rightarrow>
               if expectedSeq \<noteq> replayTo + 1 then give (result\<lparr>hr_close := True\<rparr>)
                 (resume_error sv frame ErrorInternal ''replay store returned an incomplete event range'' True timestamp io1)
               else resume_state sv frame resume snapshotID replayTo timestamp events result io1))"

definition resume_stream ::
  "'w ServerProtocol \<Rightarrow> Envelope \<Rightarrow> ResumePayload \<Rightarrow> string \<Rightarrow> int64
     \<Rightarrow> serverHandleResult \<Rightarrow> 'w io \<Rightarrow> serverHandleResult \<times> unit outcome \<times> 'w io" where
  "resume_stream sv frame resume snapshotID timestamp result io =
     (case dep (re_CurrentSeq (sv_replay sv) (env_SessionID frame)) io of
        (Panic s, io1) \<Rightarrow> (result, Panic s, io1)
      | (Err e, io1) \<Rightarrow> give (result\<lparr>hr_close := True\<rparr>)
          (resume_error sv frame ErrorInternal ''replay high-water could not be read'' True timestamp io1)
      | (Ret replayTo, io1) \<Rightarrow>
          if rp_LastSeq resume > replayTo then give (result\<lparr>hr_close := True\<rparr>)
            (resume_error sv frame ErrorProtocolViolation ''last_seq is ahead of server stream'' False timestamp io1)
          else if rp_LastSeq resume = - 1 then
            give result (resume_error sv frame ErrorSyncRequired ''event sequence is exhausted'' False timestamp io1)
          else if replayTo - rp_LastSeq resume > sv_MaxReplayEvents sv then
            give result (resume_error sv frame ErrorSyncRequired ''replay exceeds configured event limit'' False timestamp io1)
          else resume_events sv frame resume snapshotID replayTo timestamp result io1)"

text \<open>The identity of the State snapshot frame, or the refusal of a State recovery.\<close>

definition resume_snapshot_id ::
  "'w ServerProtocol \<Rightarrow> Envelope \<Rightarrow> SessionState \<Rightarrow> ResumePayload \<Rightarrow> int64 \<Rightarrow> 'w io
     \<Rightarrow> (string \<Rightarrow> 'w io \<Rightarrow> serverHandleResult \<times> unit outcome \<times> 'w io) \<Rightarrow> serverHandleResult \<times> unit outcome \<times> 'w io" where
  "resume_snapshot_id sv frame state resume timestamp io k =
     (if rp_StateSync resume = None then k [] io
      else if \<not> stateSyncEnabled (st_Capabilities state) then give (no_result\<lparr>hr_close := True\<rparr>)
        (resume_error sv frame ErrorUnsupportedFeature ''RESUME requires state-sync capability version 1'' False timestamp io)
      else if sv_StateSnapshots sv = None then give (no_result\<lparr>hr_close := True\<rparr>)
        (resume_error sv frame ErrorStateUnavailable ''State snapshot provider is unavailable'' True timestamp io)
      else case dep (sv_NewFrameID sv) io of
        (Panic s, io1) \<Rightarrow> (no_result, Panic s, io1)
      | (Err e, io1) \<Rightarrow> give (no_result\<lparr>hr_close := True\<rparr>)
          (resume_error sv frame ErrorStateUnavailable ''State snapshot identity could not be produced'' True timestamp io1)
      | (Ret snapshotID, io1) \<Rightarrow>
          if snapshotID = [] then give (no_result\<lparr>hr_close := True\<rparr>)
            (resume_error sv frame ErrorStateUnavailable ''State snapshot identity could not be produced'' True timestamp io1)
          else k snapshotID io1)"

definition handleResume ::
  "'w ServerProtocol \<Rightarrow> others \<Rightarrow> Envelope \<Rightarrow> 'w io \<Rightarrow> serverHandleResult \<times> unit outcome \<times> 'w io" where
  "handleResume sv ot frame io =
     (let (now, io0) = sample sv io; timestamp = UnixMilli now in
      on_ok (decodePayload (env_Payload frame) dec_ResumePayload zero_ResumePayload (sv_StrictValidation sv)) no_result io0 (\<lambda>resume.
      on_ret (dep (sr_Lookup (sv_sessions sv) (env_SessionID frame) now) io0) no_result (\<lambda>found io1.
      case found of
        None \<Rightarrow> give (no_result\<lparr>hr_abandonSession := True\<rparr>)
          (resume_error sv frame ErrorInvalidSession ''session expired or unknown'' False timestamp io1)
      | Some state \<Rightarrow>
          resume_snapshot_id sv frame state resume timestamp io1 (\<lambda>snapshotID io2.
            runStream ot (no_result\<lparr>hr_capabilities := st_Capabilities state\<rparr>)
              (resume_stream sv frame resume snapshotID timestamp (no_result\<lparr>hr_capabilities := st_Capabilities state\<rparr>)) io2))))"

section \<open>Dispatch\<close>

definition processFrame ::
  "'w ServerProtocol \<Rightarrow> others \<Rightarrow> Envelope \<Rightarrow> 'w io \<Rightarrow> serverHandleResult \<times> unit outcome \<times> 'w io" where
  "processFrame sv ot frame io =
     (case ValidateFrame (Some frame) (sv_Limits sv) (sv_StrictValidation sv) of
        Some e \<Rightarrow>
          if env_Type frame = FrameError then (no_result\<lparr>hr_close := True\<rparr>, Ret (), close_out io)
          else (case errors_As e of
             Some pe \<Rightarrow>
               (no_result\<lparr>hr_close := pe_Close pe \<or> eb_CloseConnection (fst (BehaviorForErrorCode (pe_Code pe)))\<rparr>, Ret (),
                snd (enqueueError sv (env_SessionID frame) (env_ID frame) (pe_Code pe) (pe_Message pe) (pe_Retryable pe) io))
           | None \<Rightarrow> (no_result, Err e, io))
      | None \<Rightarrow>
          if env_Type frame = FrameHello then handleHello sv frame io
          else if env_Type frame = FramePing then handlePing sv frame io
          else if env_Type frame = FrameSend then handleSend sv ot frame io
          else if env_Type frame = FrameStateQuery then handleStateQuery sv ot frame io
          else if env_Type frame = FrameResume then handleResume sv ot frame io
          else if env_Type frame = FrameError then (no_result\<lparr>hr_close := True\<rparr>, Ret (), close_out io)
          else give (no_result\<lparr>hr_close := True\<rparr>)
            (enqueueError sv (env_SessionID frame) (env_ID frame) ErrorProtocolViolation ''unexpected client frame type'' False io))"

definition ProcessFrame :: "'w ServerProtocol \<Rightarrow> others \<Rightarrow> Envelope \<Rightarrow> 'w io \<Rightarrow> unit outcome \<times> 'w io" where
  "ProcessFrame sv ot frame io = snd (processFrame sv ot frame io)"

end
