(* ===== verification/Server_Frames.thy ===== *)
theory Server_Frames
  imports Server
begin

text \<open>
  What the handlers may do to the outbound queue, whatever the collaborators return: they only append
  frames that pass the server's own validation, and nothing to a closed queue.
\<close>

named_theorems sends_intros \<open>steps that only append valid frames\<close>

definition sends :: "'w ServerProtocol \<Rightarrow> 'w io \<Rightarrow> 'w io \<Rightarrow> bool" where
  "sends sv io io' \<longleftrightarrow> (\<exists>fs. q_frames (io_out io') = q_frames (io_out io) @ fs
     \<and> list_all (\<lambda>f. server_validate sv f = None) fs
     \<and> (q_closed (io_out io) \<longrightarrow> fs = [] \<and> q_closed (io_out io')))"

lemma sends_refl [sends_intros, intro, simp]: "sends sv io io"
  unfolding sends_def by (rule exI [of _ "[]"]) simp

lemma sends_trans [trans]: "sends sv a b \<Longrightarrow> sends sv b c \<Longrightarrow> sends sv a c"
  unfolding sends_def by (elim exE conjE) (rule_tac x = "fs @ fsa" in exI, auto)

lemma sends_out: "io_out io' = io_out io \<Longrightarrow> sends sv io io'"
  unfolding sends_def by (rule exI [of _ "[]"]) simp

lemma dep_out [simp]: "io_out (snd (dep f io)) = io_out io"
  by (simp add: dep_def case_prod_beta)

lemma dep_outD: "dep f io = (x, io1) \<Longrightarrow> io_out io1 = io_out io"
  using dep_out [of f io] by simp

lemma sample_out [simp]: "io_out (snd (sample sv io)) = io_out io"
  by (simp add: sample_def case_prod_beta)

lemma sends_dep [sends_intros]: "sends sv io (snd (dep f io))"
  by (simp add: sends_out)

lemma sends_sample [sends_intros]: "sends sv io (snd (sample sv io))"
  by (simp add: sends_out)

lemma sends_close [sends_intros]: "sends sv io (close_out io)"
  unfolding sends_def close_out_def queue_Close_def close_locked_def wake_up_def by (rule exI [of _ "[]"]) simp

lemma queue_closed_simps: "q_closed (queue_Close q)" "q_frames (queue_Close q) = q_frames q"
  by (simp_all add: queue_Close_def close_locked_def wake_up_def)

lemma EnqueueBatch_out:
  "EnqueueBatch fs q = (r, q') \<Longrightarrow>
    (q_closed q \<and> r = Some (Sentinel ErrOutboundClosed) \<and> q' = q)
    \<or> (\<not> q_closed q \<and> r = None \<and> q_frames q' = q_frames q @ fs \<and> \<not> q_closed q')"
  by (auto simp: EnqueueBatch_def enqueue_locked_def wake_up_def map_copyEnvelope case_prod_beta Let_def split: if_splits option.splits)

lemma sends_batch: "list_all (\<lambda>f. server_validate sv f = None) fs \<Longrightarrow> sends sv io (snd (enqueue_batch fs io))"
proof -
  assume fs: "list_all (\<lambda>f. server_validate sv f = None) fs"
  obtain r q where e: "EnqueueBatch fs (io_out io) = (r, q)" by fastforce
  from EnqueueBatch_out [OF e] show ?thesis
  proof
    assume "q_closed (io_out io) \<and> r = Some (Sentinel ErrOutboundClosed) \<and> q = io_out io"
    then show ?thesis using e by (intro sends_out) (simp add: enqueue_batch_def)
  next
    assume "\<not> q_closed (io_out io) \<and> r = None \<and> q_frames q = q_frames (io_out io) @ fs \<and> \<not> q_closed q"
    then show ?thesis using e fs unfolding sends_def by (intro exI [of _ fs]) (simp add: enqueue_batch_def)
  qed
qed

lemma enqueueFrame_batch:
  "enqueueFrame sv frame io = (case server_validate sv frame of Some e \<Rightarrow> (Err e, io) | None \<Rightarrow> enqueue_batch [frame] io)"
  by (cases "server_validate sv frame") (simp_all add: enqueueFrame_def enqueue_batch_def Enqueue_def)

lemma enqueueFrame_cases:
  obtains (sent) io' where "enqueueFrame sv f io = (Ret (), io')" "q_frames (io_out io') = q_frames (io_out io) @ [f]" "io_world io' = io_world io"
  | (refused) e where "enqueueFrame sv f io = (Err e, io)"
proof (cases "server_validate sv f")
  case None
  obtain r q where e: "EnqueueBatch [f] (io_out io) = (r, q)" by fastforce
  from EnqueueBatch_out [OF e] show ?thesis
    using None e sent refused by (cases r) (auto simp: enqueueFrame_batch enqueue_batch_def)
qed (use refused in \<open>simp add: enqueueFrame_batch\<close>)

lemma sends_enqueueFrame [sends_intros]: "sends sv io (snd (enqueueFrame sv frame io))"
  using sends_batch [of sv "[frame]" io] by (simp add: enqueueFrame_batch split: option.splits)

lemma enqueueErrorAt_snd:
  "snd (enqueueErrorAt sv sid ref code msg r ts io) =
     (let io1 = snd (enqueueFrame sv (errorFrameAt sv sid ref code msg r ts) io) in
      if fst (enqueueFrame sv (errorFrameAt sv sid ref code msg r ts) io) = Ret () \<and> snd (BehaviorForErrorCode code)
         \<and> eb_CloseConnection (fst (BehaviorForErrorCode code)) then close_out io1 else io1)"
  by (auto simp: enqueueErrorAt_def Let_def close_out_def split: prod.splits outcome.splits)

lemma sends_enqueueErrorAt [sends_intros]: "sends sv io (snd (enqueueErrorAt sv sid ref code msg r ts io))"
  unfolding enqueueErrorAt_snd Let_def
  using sends_enqueueFrame [of sv io] sends_trans [OF sends_enqueueFrame sends_close, of sv io] by (auto split: if_splits)

lemma sends_enqueueError [sends_intros]: "sends sv io (snd (enqueueError sv sid ref code msg r io))"
  unfolding enqueueError_def case_prod_beta Let_def
  by (rule sends_trans [OF sends_sample sends_enqueueErrorAt])

text \<open>Sequencing: the state a handler ends in.\<close>

definition end_io :: "'r \<times> unit outcome \<times> 'w io \<Rightarrow> 'w io" where
  "end_io h = snd (snd h)"

lemma end_io_simps [simp]: "end_io (r, out, io) = io" "end_io (give r m) = snd m"
  by (simp_all add: end_io_def give_def)

lemma sends_on_ret [sends_intros]:
  assumes "sends sv io (snd m)" and "\<And>x io1. m = (Ret x, io1) \<Longrightarrow> sends sv io1 (end_io (k x io1))"
  shows "sends sv io (end_io (on_ret m r k))"
  using assms by (cases m; cases "fst m") (auto simp: on_ret_def intro: sends_trans)

lemma sends_on_ok [sends_intros]:
  assumes "\<And>x. m = Inr x \<Longrightarrow> sends sv io (end_io (k x))"
  shows "sends sv io (end_io (on_ok m r io k))"
  using assms by (cases m) (auto simp: on_ok_def)

lemma sends_invoke [sends_intros]:
  assumes "sends sv io (end_io (fn io))"
  shows "sends sv io (end_io (invokeStreamRequest fn io))"
  using assms by (auto simp: invokeStreamRequest_def end_io_def split: prod.splits outcome.splits)

lemma sends_runStream [sends_intros]:
  assumes "sends sv io (end_io (fn io))"
  shows "sends sv io (end_io (runStream ot r fn io))"
  using sends_invoke [of sv io fn] assms by (simp add: runStream_def)

section \<open>The handlers\<close>

text \<open>A result that is fixed but for its outcome and state, by the outcome of a call.\<close>

lemma sends_outcome:
  assumes "m = (x, io1)" "sends sv io (snd m)" "sends sv io1 io2"
  shows "sends sv io io2"
  using assms by (auto intro: sends_trans)

lemma sends_after_dep:
  "dep f io = (x, io1) \<Longrightarrow> sends sv io1 io2 \<Longrightarrow> sends sv io io2"
  using sends_dep [of sv io f] by (auto intro: sends_trans)

lemma sends_after_sample:
  "sample sv io = (t, io1) \<Longrightarrow> sends sv io1 io2 \<Longrightarrow> sends sv io io2"
  using sends_sample [of sv io] by (auto intro: sends_trans)

lemma query_objects_out: "io_out (snd (query_objects sv get ns ids acc io)) = io_out io"
proof (induction sv get ns ids acc io rule: query_objects.induct)
  case (2 sv get ns i ids acc io)
  obtain r io1 where d: "dep (get ns i) io = (r, io1)" by fastforce
  then have out: "io_out io1 = io_out io" using dep_out [of "get ns i" io] by simp
  show ?case
  proof (cases r)
    case (Ret f)
    then show ?thesis using 2 d out by (cases f) (auto split: option.splits sum.splits)
  qed (use d out in auto)
qed simp

lemma sends_query_objects [sends_intros]: "sends sv io (snd (query_objects sv get ns ids acc io))"
  by (simp add: sends_out query_objects_out)

lemma sends_answer_query: "sends sv io (end_io (answer_query sv get frame ts io))"
  unfolding answer_query_def query_too_large_def Let_def
  by (intro sends_intros)
    (auto split: option.splits sum.splits intro!: sends_intros)

lemma sends_handleStateQuery: "sends sv io (end_io (handleStateQuery sv ot frame io))"
  unfolding handleStateQuery_def case_prod_beta Let_def
  by (rule sends_trans [OF sends_sample], intro sends_intros)
    (auto split: option.splits intro!: sends_intros sends_answer_query)

lemma sends_publish_appended: "sends sv io (snd (publish_appended sv sid eid ty content event io))"
  by (auto simp: publish_appended_def split: option.splits sum.splits intro!: sends_intros)

lemma snd_end_io: "snd (snd h) = end_io h"
  by (simp add: end_io_def)

lemma sends_PublishEvent: "sends sv io (snd (PublishEvent sv ot sid eid ty content io))"
  unfolding PublishEvent_def Let_def snd_end_io
  by (auto simp: snd_end_io split: prod.splits option.splits elim!: sends_after_sample intro!: sends_intros sends_publish_appended)

lemma sends_PublishStateUpdate: "sends sv io (snd (PublishStateUpdate sv ot sid uid object io))"
  unfolding PublishStateUpdate_def Let_def snd_end_io
  by (auto simp: snd_end_io split: prod.splits option.splits elim!: sends_after_sample intro!: sends_intros)

lemma sends_handlePing: "sends sv io (end_io (handlePing sv frame io))"
  unfolding handlePing_def case_prod_beta Let_def
  by (rule sends_trans [OF sends_sample], intro sends_intros)
    (auto intro!: sends_intros intro: sends_trans [OF sends_sample] sends_trans [OF sends_sample sends_trans [OF sends_sample]])

lemma sends_hello_create: "sends sv io (end_io (hello_create sv frame accepted sid welcome io))"
  unfolding hello_create_def Let_def
  by (auto split: prod.splits outcome.splits elim!: sends_after_sample sends_after_dep intro!: sends_intros)

lemma sends_hello_welcome: "sends sv io (end_io (hello_welcome sv frame accepted sid io))"
  unfolding hello_welcome_def Let_def
  by (auto split: prod.splits option.splits elim!: sends_after_sample intro!: sends_intros sends_hello_create)

lemma sends_handleHello: "sends sv io (end_io (handleHello sv frame io))"
  unfolding handleHello_def
  by (intro sends_intros)
    (auto split: prod.splits option.splits sum.splits outcome.splits elim!: sends_after_dep intro!: sends_intros sends_hello_welcome)

lemma sends_send_error [sends_intros]: "sends sv io (snd (send_error sv frame code msg r ts io))"
  unfolding send_error_def by (rule sends_intros)

lemma sends_stored_ack [sends_intros]: "sends sv io (snd (send_stored_ack sv frame ack io))"
  by (auto simp: send_stored_ack_def split: option.splits intro!: sends_intros)

lemma sends_send_callback [sends_intros]: "sends sv io (snd (send_callback f io))"
  by (simp add: send_callback_def case_prod_beta Let_def sends_out)

lemma sends_existing [sends_intros]: "sends sv io (snd (send_existing sv frame fp existing ts io))"
  by (auto simp: send_existing_def split: option.splits DedupState.splits intro!: sends_intros)

lemma sends_send_claimed [sends_intros]: "sends sv io (end_io (send_claimed sv frame content ts io))"
proof -
  have app: "send_callback f io1 = (x, io2) \<Longrightarrow> sends sv io2 io3 \<Longrightarrow> sends sv io1 io3" for f :: "('a, unit) call" and io1 x io2 io3
    using sends_send_callback [of sv io1 f] by (auto intro: sends_trans)
  show ?thesis
    unfolding send_claimed_def
    by (intro sends_intros) (auto split: prod.splits outcome.splits option.splits elim!: app intro!: sends_intros)
qed

lemma sends_send_leader [sends_intros]: "sends sv io (end_io (send_leader sv frame content now io))"
  unfolding send_leader_def Let_def by (intro sends_intros) (auto intro!: sends_intros)

lemma sends_waitForOriginal [sends_intros]: "sends sv io (snd (waitForOriginal sv waited frame ts io))"
  by (auto simp: waitForOriginal_def split: sum.splits option.splits intro!: sends_intros)

lemma sends_handleSend: "sends sv io (end_io (handleSend sv ot frame io))"
  unfolding handleSend_def case_prod_beta Let_def
  by (rule sends_trans [OF sends_sample], intro sends_intros)
    (auto split: flight_view.splits option.splits intro!: sends_intros)

lemma sends_resume_error [sends_intros]: "sends sv io (snd (resume_error sv frame code msg r ts io))"
  unfolding resume_error_def by (rule sends_intros)

lemma check_replayed_valid:
  "check_replayed sv sid n es = Inr m \<Longrightarrow> list_all (\<lambda>f. server_validate sv f = None) es"
  by (induction sv sid n es rule: check_replayed.induct) (auto split: if_splits)

lemma sends_resume_batch:
  assumes "list_all (\<lambda>f. server_validate sv f = None) events" "\<And>s. snapshot = Some s \<Longrightarrow> server_validate sv s = None"
  shows "sends sv io (end_io (resume_batch sv frame resume replayTo ts events snapshot result io))"
  using assms by (auto simp: resume_batch_def split: option.splits intro!: sends_on_ret sends_batch)

lemma build_snapshot_valid: "build_snapshot sv f limits nss sts = Inr s \<Longrightarrow> server_validate sv s = None"
  by (auto simp: build_snapshot_def ebind_Inr split: if_splits option.splits)

lemma buildResume_Ret:
  "buildResumeStateSnapshot sv p sid fid ts nss io = (r, io1) \<Longrightarrow> io_out io1 = io_out io \<and> (\<forall>s. r = Ret s \<longrightarrow> server_validate sv s = None)"
  by (auto simp: buildResumeStateSnapshot_def Let_def of_sum_def dest: build_snapshot_valid dep_outD
      split: sum.splits prod.splits outcome.splits)

lemma sends_resume_state:
  assumes "list_all (\<lambda>f. server_validate sv f = None) events"
  shows "sends sv io (end_io (resume_state sv frame resume snapshotID replayTo ts events result io))"
  using assms
  by (auto simp: resume_state_def split: option.splits prod.splits outcome.splits
      dest!: buildResume_Ret intro!: sends_resume_batch sends_intros intro: sends_trans [OF sends_out])

lemma sends_resume_events: "sends sv io (end_io (resume_events sv frame resume snapshotID replayTo ts result io))"
  by (auto simp: resume_events_def split: prod.splits outcome.splits sum.splits
      elim!: sends_after_dep intro!: sends_intros sends_resume_state dest!: check_replayed_valid)

lemma sends_resume_stream: "sends sv io (end_io (resume_stream sv frame resume snapshotID ts result io))"
  by (auto simp: resume_stream_def split: prod.splits outcome.splits
      elim!: sends_after_dep intro!: sends_intros sends_resume_events)

lemma sends_resume_snapshot_id:
  assumes "\<And>i io1. sends sv io1 (end_io (k i io1))"
  shows "sends sv io (end_io (resume_snapshot_id sv frame state resume ts io k))"
  using assms
  by (auto simp: resume_snapshot_id_def split: prod.splits outcome.splits elim!: sends_after_dep intro!: sends_intros)

lemma sends_handleResume: "sends sv io (end_io (handleResume sv ot frame io))"
  unfolding handleResume_def case_prod_beta Let_def
  by (rule sends_trans [OF sends_sample], intro sends_intros)
    (auto split: option.splits intro!: sends_intros sends_resume_snapshot_id sends_resume_stream)

lemma sends_processFrame: "sends sv io (end_io (processFrame sv ot frame io))"
  using sends_handleHello [of sv io frame] sends_handlePing [of sv io frame] sends_handleSend [of sv io ot frame]
    sends_handleStateQuery [of sv io ot frame] sends_handleResume [of sv io ot frame]
  by (auto simp: processFrame_def split: option.splits intro!: sends_intros)

end
