(* ===== verification/Server_Resume.thy ===== *)
theory Server_Resume
  imports Server_Frames Client_Props
begin

text \<open>
  The functional behaviour of the server's handlers on the queue: what a RESUME, a HELLO and the other
  frames put on it, and that all of it passes the codec.
\<close>

section \<open>Everything queued can be sent\<close>

definition server_codec :: "'w ServerProtocol \<Rightarrow> JSONCodec" where
  "server_codec sv = \<lparr>jc_Limits = sv_Limits sv, jc_Strict = sv_StrictValidation sv\<rparr>"

lemma server_validate_encodes: "server_validate sv f = None \<Longrightarrow> \<exists>b. Encode (server_codec sv) (Some f) = Inr b"
proof -
  assume v: "server_validate sv f = None"
  then have "ValidateFrame (Some f) (normalizeLimits (sv_Limits sv)) (sv_StrictValidation sv) = None"
    by (simp add: server_validate_def validateOutboundFrame_def)
  from ValidateEnvelope_None(6) [OF ValidateFrame_None(1) [OF this]] obtain j where "Envelope_json f = Some j" by blast
  then show ?thesis using v
    by (simp add: Encode_def server_codec_def codec_limits_def validateOutboundFrame_def server_validate_def
        normalizeLimits_idem json_Marshal_def)
qed

text \<open>Only frames the codec encodes were appended, and none to a closed queue.\<close>

definition appends_encodable :: "'w ServerProtocol \<Rightarrow> 'w io \<Rightarrow> 'w io \<Rightarrow> bool" where
  "appends_encodable sv io io' \<longleftrightarrow> (\<exists>fs. q_frames (io_out io') = q_frames (io_out io) @ fs
     \<and> list_all (\<lambda>f. \<exists>b. Encode (server_codec sv) (Some f) = Inr b) fs
     \<and> (q_closed (io_out io) \<longrightarrow> fs = [] \<and> q_closed (io_out io')))"

lemma sends_encodable: "sends sv io io' \<Longrightarrow> appends_encodable sv io io'"
  unfolding sends_def appends_encodable_def using server_validate_encodes by (metis (mono_tags, lifting) list.pred_mono_strong)

text \<open>
  C32: Whatever the injected stores, application and generators return, do, or panic with, the only
  effect of a server operation on the connection's queue is to append frames that the codec encodes
  with the server's limits; a closed queue stays closed and gets nothing.
\<close>

theorem server_frames_encodable:
  "appends_encodable sv io (snd (ProcessFrame sv ot frame io))
   \<and> appends_encodable sv io (snd (PublishEvent sv ot sid eid ty content io))
   \<and> appends_encodable sv io (snd (PublishStateUpdate sv ot sid uid object io))"
  using sends_processFrame [of sv io ot frame] sends_PublishEvent [of sv io ot sid eid ty content]
    sends_PublishStateUpdate [of sv io ot sid uid object]
  by (simp add: sends_encodable ProcessFrame_def end_io_def)

section \<open>RESUME\<close>

text \<open>At most one frame was added, and it is an ERROR.\<close>

definition one_error :: "'w io \<Rightarrow> 'w io \<Rightarrow> bool" where
  "one_error io io' \<longleftrightarrow> (\<exists>fs. q_frames (io_out io') = q_frames (io_out io) @ fs
     \<and> (fs = [] \<or> (\<exists>f. fs = [f] \<and> env_Type f = FrameError)))"

lemma one_error_refl: "io_out io' = io_out io \<Longrightarrow> one_error io io'"
  by (simp add: one_error_def)

lemma enqueue_batch_frames:
  "q_frames (io_out (snd (enqueue_batch fs io))) = q_frames (io_out io) @ (if q_closed (io_out io) then [] else fs)"
  "fst (enqueue_batch fs io) = (if q_closed (io_out io) then Err (Sentinel ErrOutboundClosed) else Ret ())"
  using EnqueueBatch_out [of fs "io_out io"] by (auto simp: enqueue_batch_def split: prod.splits option.splits)

lemma errorFrameAt_type [simp]: "env_Type (errorFrameAt sv sid ref code msg r ts) = FrameError"
  by (simp add: errorFrameAt_def Let_def)

lemma one_error_enqueue: "one_error io (snd (enqueueErrorAt sv sid ref code msg r ts io))"
  unfolding enqueueErrorAt_snd one_error_def enqueueFrame_batch Let_def close_out_def
  by (auto simp: enqueue_batch_frames queue_closed_simps split: option.splits)

lemma one_error_resume: "one_error io (snd (resume_error sv frame code msg r ts io))"
  unfolding resume_error_def by (rule one_error_enqueue)

lemma one_error_after: "io_out io1 = io_out io \<Longrightarrow> one_error io1 io2 \<Longrightarrow> one_error io io2"
  by (simp add: one_error_def)

lemma no_ready [simp]: "hr_readySessionID no_result = []"
  by (simp add: no_result_def)

text \<open>The sequences of a replayed run of events of one session.\<close>

definition replayed_run :: "string \<Rightarrow> uint64 \<Rightarrow> uint64 \<Rightarrow> Envelope list \<Rightarrow> bool" where
  "replayed_run sid lastSeq replayTo events \<longleftrightarrow>
     map env_Seq events = map (\<lambda>i. lastSeq + 1 + of_nat i) [0..<length events]
     \<and> of_nat (length events) = replayTo - lastSeq
     \<and> list_all (\<lambda>e. env_Type e = FrameEvent \<and> env_SessionID e = sid) events"

lemma check_replayed_run:
  "check_replayed sv sid n es = Inr m \<Longrightarrow>
    m = n + of_nat (length es) \<and> map env_Seq es = map (\<lambda>i. n + of_nat i) [0..<length es]
    \<and> list_all (\<lambda>e. env_Type e = FrameEvent \<and> env_SessionID e = sid) es"
proof (induction sv sid n es rule: check_replayed.induct)
  case (2 sv sid n e es)
  have "map (\<lambda>i. n + of_nat i) [0..<Suc (length es)] = n # map (\<lambda>i. n + 1 + of_nat i) [0..<length es]"
    by (simp add: upt_conv_Cons map_Suc_upt [symmetric] add.assoc del: upt_Suc)
  then show ?case using 2 by (auto simp: add.assoc split: if_splits simp del: upt_Suc)
qed simp

text \<open>What a RESUME may put on the queue: one ERROR at most, or the whole batch of a recovery.\<close>

definition resume_done :: "'w ServerProtocol \<Rightarrow> Envelope \<Rightarrow> ResumePayload \<Rightarrow> 'w io \<Rightarrow> serverHandleResult \<times> unit outcome \<times> 'w io \<Rightarrow> bool" where
  "resume_done sv frame resume io h \<longleftrightarrow>
     (hr_readySessionID (fst h) = [] \<and> one_error io (end_io h))
     \<or> (\<exists>replayTo ts events snapshot. hr_readySessionID (fst h) = env_SessionID frame \<and> fst (snd h) = Ret ()
          \<and> \<not> hr_close (fst h) \<and> \<not> hr_abandonSession (fst h)
          \<and> q_frames (io_out (end_io h)) = q_frames (io_out io) @ resume_welcome frame resume replayTo ts # events @ snapshot
          \<and> rp_LastSeq resume \<le> replayTo \<and> replayTo - rp_LastSeq resume \<le> sv_MaxReplayEvents sv
          \<and> replayed_run (env_SessionID frame) (rp_LastSeq resume) replayTo events
          \<and> map env_Type snapshot = (if rp_StateSync resume = None then [] else [FrameStateSnapshot]))"

definition idle_result :: "serverHandleResult \<Rightarrow> bool" where
  "idle_result r \<longleftrightarrow> hr_readySessionID r = [] \<and> \<not> hr_close r \<and> \<not> hr_abandonSession r"

lemma resume_done_error:
  assumes "hr_readySessionID r = []" "io_out io1 = io_out io"
  shows "resume_done sv frame resume io (give r (resume_error sv frame' code msg rt ts io1))"
  using assms one_error_resume one_error_after unfolding resume_done_def by (fastforce simp: give_def end_io_def)

lemma resume_done_stop:
  assumes "hr_readySessionID r = []" "io_out io1 = io_out io"
  shows "resume_done sv frame resume io (r, out, io1)"
  using assms one_error_refl unfolding resume_done_def by fastforce

lemma resume_batch_done:
  assumes r: "idle_result result" and out: "io_out io1 = io_out io"
    and seq: "rp_LastSeq resume \<le> replayTo" "replayTo - rp_LastSeq resume \<le> sv_MaxReplayEvents sv"
    and run: "replayed_run (env_SessionID frame) (rp_LastSeq resume) replayTo events"
    and snap: "map env_Type (case snapshot of None \<Rightarrow> [] | Some s \<Rightarrow> [s]) = (if rp_StateSync resume = None then [] else [FrameStateSnapshot])"
  shows "resume_done sv frame resume io (resume_batch sv frame resume replayTo ts events snapshot result io1)"
proof (cases "server_validate sv (resume_welcome frame resume replayTo ts) = None \<and> \<not> q_closed (io_out io1)")
  case True
  let ?batch = "[resume_welcome frame resume replayTo ts] @ events @ (case snapshot of None \<Rightarrow> [] | Some s \<Rightarrow> [s])"
  obtain io2 where e: "enqueue_batch ?batch io1 = (Ret (), io2)" and q: "q_frames (io_out io2) = q_frames (io_out io1) @ ?batch"
    using enqueue_batch_frames [of ?batch io1] True by (cases "enqueue_batch ?batch io1") auto
  have "resume_batch sv frame resume replayTo ts events snapshot result io1 = (result\<lparr>hr_readySessionID := env_SessionID frame\<rparr>, Ret (), io2)"
    using True e by (simp add: resume_batch_def on_ret_def)
  then show ?thesis
    using r q out seq run snap unfolding resume_done_def idle_result_def
    by (intro disjI2 exI [of _ replayTo] exI [of _ ts] exI [of _ events] exI [of _ "case snapshot of None \<Rightarrow> [] | Some s \<Rightarrow> [s]"]) simp
next
  case False
  have "\<exists>out io2. resume_batch sv frame resume replayTo ts events snapshot result io1 = (result, out, io2) \<and> q_frames (io_out io2) = q_frames (io_out io1)"
  proof (cases "server_validate sv (resume_welcome frame resume replayTo ts)")
    case None
    then show ?thesis
      using False enqueue_batch_frames [of "resume_welcome frame resume replayTo ts # events @ (case snapshot of None \<Rightarrow> [] | Some s \<Rightarrow> [s])" io1]
      by (auto simp: resume_batch_def on_ret_def split: prod.splits outcome.splits)
  qed (simp add: resume_batch_def)
  then show ?thesis using r out unfolding resume_done_def idle_result_def one_error_def by auto
qed

lemma build_snapshot_type: "build_snapshot sv f limits nss sts = Inr s \<Longrightarrow> env_Type s = env_Type f"
  by (auto simp: build_snapshot_def ebind_Inr split: if_splits option.splits)

lemma buildResume_type:
  "buildResumeStateSnapshot sv p sid fid ts nss io = (Ret s, io1) \<Longrightarrow> env_Type s = FrameStateSnapshot"
  by (auto simp: buildResumeStateSnapshot_def Let_def of_sum_def snapshot_frame_def dest: build_snapshot_type
      split: sum.splits prod.splits outcome.splits)

lemma resume_state_done:
  assumes r: "idle_result result" and out: "io_out io1 = io_out io"
    and seq: "rp_LastSeq resume \<le> replayTo" "replayTo - rp_LastSeq resume \<le> sv_MaxReplayEvents sv"
    and run: "replayed_run (env_SessionID frame) (rp_LastSeq resume) replayTo events"
  shows "resume_done sv frame resume io (resume_state sv frame resume snapshotID replayTo ts events result io1)"
proof (cases "rp_StateSync resume")
  case None
  then show ?thesis using resume_batch_done [OF r out seq run, of None] by (simp add: resume_state_def)
next
  case (Some sync)
  show ?thesis
  proof (cases "sv_StateSnapshots sv")
    case None
    then show ?thesis using r out Some by (simp add: resume_state_def idle_result_def resume_done_stop)
  next
    case prov: (Some p)
    obtain x io2 where b: "buildResumeStateSnapshot sv p (env_SessionID frame) snapshotID ts (rs_Namespaces sync) io1 = (x, io2)" by fastforce
    have out2: "io_out io2 = io_out io" using buildResume_Ret [OF b] out by simp
    show ?thesis
    proof (cases x)
      case (Ret s)
      then have "map env_Type (case Some s of None \<Rightarrow> [] | Some s \<Rightarrow> [s]) = (if rp_StateSync resume = None then [] else [FrameStateSnapshot])"
        using buildResume_type b Some by auto
      then show ?thesis using resume_batch_done [OF r out2 seq run, of "Some s"] b prov Some Ret by (simp add: resume_state_def)
    qed (use r out2 b prov Some in \<open>auto simp: resume_state_def idle_result_def resume_done_stop resume_done_error\<close>)
  qed
qed

lemma resume_events_done:
  assumes r: "idle_result result" and out: "io_out io1 = io_out io"
    and seq: "rp_LastSeq resume \<le> replayTo" "replayTo - rp_LastSeq resume \<le> sv_MaxReplayEvents sv"
  shows "resume_done sv frame resume io (resume_events sv frame resume snapshotID replayTo ts result io1)"
proof -
  obtain x io2 where d: "dep (re_Replay (sv_replay sv) (env_SessionID frame) (rp_LastSeq resume) replayTo
      \<lparr>rl_MaxEvents = sv_MaxReplayEvents sv, rl_MaxBytes = sv_MaxReplayBytes sv\<rparr>) io1 = (x, io2)" by fastforce
  have out2: "io_out io2 = io_out io" using dep_outD [OF d] out by simp
  show ?thesis
  proof (cases x)
    case (Ret events)
    show ?thesis
    proof (cases "check_replayed sv (env_SessionID frame) (rp_LastSeq resume + 1) events")
      case (Inl m)
      then show ?thesis using r out2 d Ret by (simp add: resume_events_def idle_result_def resume_done_error)
    next
      case (Inr n)
      show ?thesis
      proof (cases "n = replayTo + 1")
        case True
        then have "replayed_run (env_SessionID frame) (rp_LastSeq resume) replayTo events"
          using check_replayed_run [OF Inr] by (simp add: replayed_run_def algebra_simps)
        from resume_state_done [OF r out2 seq this] show ?thesis using d Ret Inr True by (simp add: resume_events_def)
      qed (use r out2 d Ret Inr in \<open>simp add: resume_events_def idle_result_def resume_done_error\<close>)
    qed
  qed (use r out2 d in \<open>auto simp: resume_events_def idle_result_def resume_done_stop resume_done_error\<close>)
qed

lemma resume_stream_done:
  assumes r: "idle_result result" and out: "io_out io1 = io_out io"
  shows "resume_done sv frame resume io (resume_stream sv frame resume snapshotID ts result io1)"
proof -
  obtain x io2 where d: "dep (re_CurrentSeq (sv_replay sv) (env_SessionID frame)) io1 = (x, io2)" by fastforce
  have out2: "io_out io2 = io_out io" using dep_outD [OF d] out by simp
  show ?thesis
    using r out2 d by (cases x)
      (auto simp: resume_stream_def idle_result_def resume_done_stop resume_done_error not_less intro!: resume_events_done)
qed

lemma resume_run_done:
  assumes "resume_done sv frame resume io (fn io)" "hr_readySessionID r = []"
  shows "resume_done sv frame resume io (runStream ot r fn io)"
proof -
  obtain r' out io' where f: "fn io = (r', out, io')" by (cases "fn io")
  show ?thesis
    using assms f unfolding resume_done_def
    by (cases out) (auto simp: runStream_def invokeStreamRequest_def one_error_refl)
qed

lemma handleResume_done:
  assumes "decodePayload (env_Payload frame) dec_ResumePayload zero_ResumePayload (sv_StrictValidation sv) = Inr resume"
  shows "resume_done sv frame resume io (handleResume sv ot frame io)"
proof -
  obtain now io0 where s: "sample sv io = (now, io0)" by fastforce
  have out0: "io_out io0 = io_out io" using sample_out [of sv io] s by simp
  obtain x io1 where d: "dep (sr_Lookup (sv_sessions sv) (env_SessionID frame) now) io0 = (x, io1)" by fastforce
  have out1: "io_out io1 = io_out io" using dep_outD [OF d] out0 by simp
  have stream: "resume_done sv frame resume io (runStream ot (no_result\<lparr>hr_capabilities := c\<rparr>)
      (resume_stream sv frame resume snapshotID (UnixMilli now) (no_result\<lparr>hr_capabilities := c\<rparr>)) io2)"
    if o2: "io_out io2 = io_out io" for io2 c snapshotID
  proof -
    have "resume_done sv frame resume io2 (resume_stream sv frame resume snapshotID (UnixMilli now) (no_result\<lparr>hr_capabilities := c\<rparr>) io2)"
      by (rule resume_stream_done) (simp_all add: idle_result_def no_result_def)
    then have "resume_done sv frame resume io2 (runStream ot (no_result\<lparr>hr_capabilities := c\<rparr>)
        (resume_stream sv frame resume snapshotID (UnixMilli now) (no_result\<lparr>hr_capabilities := c\<rparr>)) io2)"
      by (rule resume_run_done) simp
    then show ?thesis using o2 by (simp add: resume_done_def one_error_def)
  qed
  have id: "resume_done sv frame resume io (resume_snapshot_id sv frame state resume (UnixMilli now) io1 (\<lambda>i io2.
      runStream ot (no_result\<lparr>hr_capabilities := st_Capabilities state\<rparr>)
        (resume_stream sv frame resume i (UnixMilli now) (no_result\<lparr>hr_capabilities := st_Capabilities state\<rparr>)) io2))" for state
    using out1 stream
    by (auto simp: resume_snapshot_id_def resume_done_stop resume_done_error dest!: dep_outD split: prod.splits outcome.splits)
  show ?thesis
  proof (cases x)
    case (Ret found)
    then show ?thesis using assms s d out1 id by (cases found) (simp_all add: handleResume_def on_ok_def on_ret_def resume_done_error Let_def)
  qed (use assms s d out1 in \<open>simp_all add: handleResume_def on_ok_def on_ret_def resume_done_stop\<close>)
qed

text \<open>
  C7: A RESUME is all or nothing, whatever the stores return.  Either the connection is not made ready
  and at most one frame, an ERROR, was queued; or the connection is ready for the session and exactly
  one batch was queued: the WELCOME that announces the range after the client's last sequence, an EVENT
  of the session for each announced sequence in order without a gap, and, exactly when the client asked
  for State, one STATE_SNAPSHOT at the end.
\<close>

theorem resume_all_or_nothing:
  "case decodePayload (env_Payload frame) dec_ResumePayload zero_ResumePayload (sv_StrictValidation sv) of
     Inl e \<Rightarrow> io_out (end_io (handleResume sv ot frame io)) = io_out io
   | Inr resume \<Rightarrow> resume_done sv frame resume io (handleResume sv ot frame io)"
  using handleResume_done [of frame sv _ io ot]
  by (auto split: sum.splits simp: handleResume_def on_ok_def case_prod_beta Let_def)

section \<open>HELLO\<close>

text \<open>A HELLO that makes the connection ready: the session was created and welcomed.\<close>

definition hello_done :: "'w ServerProtocol \<Rightarrow> Envelope \<Rightarrow> HelloPayload \<Rightarrow> 'w io \<Rightarrow> serverHandleResult \<times> unit outcome \<times> 'w io \<Rightarrow> bool" where
  "hello_done sv frame hello io h \<longleftrightarrow>
     (hr_readySessionID (fst h) = [] \<and> one_error io (end_io h))
     \<or> (\<exists>sid accepted t1 t2 t3 w w'. hr_readySessionID (fst h) = sid \<and> sid \<noteq> [] \<and> hr_capabilities (fst h) = accepted
          \<and> \<not> hr_close (fst h) \<and> \<not> hr_abandonSession (fst h) \<and> fst (snd h) = Ret ()
          \<and> Negotiate (Some (sv_Capabilities sv)) (hp_Capabilities hello) (sv_Limits sv) = Inr accepted
          \<and> sr_Create (sv_sessions sv) \<lparr>st_SessionID = sid, st_ExpiresAt = time_Add t3 (sv_SessionResumeTTL sv), st_Capabilities = accepted\<rparr> w = (Ret (), w')
          \<and> q_frames (io_out (end_io h)) = q_frames (io_out io) @ [new_welcome sid accepted t1 t2])"

lemma hello_done_error:
  assumes "hr_readySessionID r = []" "io_out io1 = io_out io"
  shows "hello_done sv frame hello io (give r (enqueueError sv s i c m rt io1))"
proof -
  have "one_error io (snd (enqueueError sv s i c m rt io1))"
    unfolding enqueueError_def case_prod_beta Let_def
    using one_error_after [OF _ one_error_enqueue] sample_out assms(2) by metis
  then show ?thesis using assms(1) unfolding hello_done_def by (simp add: give_def end_io_def)
qed

lemma hello_done_stop:
  assumes "hr_readySessionID r = []" "io_out io1 = io_out io"
  shows "hello_done sv frame hello io (r, out, io1)"
  using assms one_error_refl unfolding hello_done_def by fastforce

lemma hello_create_done:
  assumes "io_out io1 = io_out io" "sid \<noteq> []"
    and "Negotiate (Some (sv_Capabilities sv)) (hp_Capabilities hello) (sv_Limits sv) = Inr accepted"
  shows "hello_done sv frame hello io (hello_create sv frame accepted sid (new_welcome sid accepted t1 t2) io1)"
proof -
  obtain now io2 where s: "sample sv io1 = (now, io2)" by fastforce
  let ?state = "\<lparr>st_SessionID = sid, st_ExpiresAt = time_Add now (sv_SessionResumeTTL sv), st_Capabilities = accepted\<rparr>"
  obtain x w where c: "sr_Create (sv_sessions sv) ?state (io_world io2) = (x, w)" by fastforce
  define io3 where "io3 = io2\<lparr>io_world := w\<rparr>"
  have d: "dep (sr_Create (sv_sessions sv) ?state) io2 = (x, io3)" using c by (simp add: dep_def io3_def)
  have out: "io_out io3 = io_out io" using sample_out [of sv io1] s assms(1) by (simp add: io3_def)
  show ?thesis
  proof (cases x)
    case (Ret u)
    show ?thesis
    proof (cases rule: enqueueFrame_cases [of sv "new_welcome sid accepted t1 t2" io3])
      case (sent io4)
      then have "hello_create sv frame accepted sid (new_welcome sid accepted t1 t2) io1 =
          (no_result\<lparr>hr_readySessionID := sid, hr_capabilities := accepted\<rparr>, Ret (), io4)"
        using s d Ret by (simp add: hello_create_def on_ret_def)
      then show ?thesis
        unfolding hello_done_def using sent(2) c Ret out assms(2,3)
        by (intro disjI2 exI [of _ sid] exI [of _ accepted] exI [of _ t1] exI [of _ t2] exI [of _ now] exI [of _ "io_world io2"] exI [of _ w])
          (simp add: no_result_def)
    next
      case (refused e)
      then show ?thesis using s d Ret out by (simp add: hello_create_def on_ret_def hello_done_stop)
    qed
  qed (use s d out in \<open>auto simp: hello_create_def hello_done_stop hello_done_error\<close>)
qed

lemma handleHello_done:
  assumes "decodePayload (env_Payload frame) dec_HelloPayload zero_HelloPayload (sv_StrictValidation sv) = Inr hello"
  shows "hello_done sv frame hello io (handleHello sv frame io)"
proof (cases "Negotiate (Some (sv_Capabilities sv)) (hp_Capabilities hello) (sv_Limits sv)")
  case (Inl e)
  then show ?thesis using assms by (auto simp: handleHello_def on_ok_def hello_done_stop hello_done_error split: option.splits)
next
  case (Inr accepted)
  obtain x io1 where d: "dep (sv_NewSessionID sv) io = (x, io1)" by fastforce
  note out1 = dep_outD [OF d]
  have greet: "hello_done sv frame hello io (hello_welcome sv frame accepted sid io1)" if ne: "sid \<noteq> []" for sid
  proof -
    obtain t1 io2 where s2: "sample sv io1 = (t1, io2)" by fastforce
    obtain t2 io3 where s3: "sample sv io2 = (t2, io3)" by fastforce
    have out3: "io_out io3 = io_out io" using sample_out [of sv io1] sample_out [of sv io2] s2 s3 out1 by simp
    show ?thesis
      using hello_create_done [OF out3 ne Inr] out1 out3 s2 s3
      by (auto simp: hello_welcome_def hello_done_stop Let_def split: option.splits)
  qed
  show ?thesis
    using assms Inr d out1 greet
    by (cases x) (auto simp: handleHello_def on_ok_def hello_done_stop hello_done_error)
qed

text \<open>
  C33: A HELLO makes the connection ready only for a session that was created under a fresh identity
  with exactly the capabilities negotiated from the client's offers, and then exactly one frame was
  queued, the WELCOME that names the session and these capabilities; otherwise at most one ERROR was.
\<close>

theorem hello_creates_session:
  "case decodePayload (env_Payload frame) dec_HelloPayload zero_HelloPayload (sv_StrictValidation sv) of
     Inl e \<Rightarrow> handleHello sv frame io = (no_result, Err e, io)
   | Inr hello \<Rightarrow> hello_done sv frame hello io (handleHello sv frame io)"
  using handleHello_done [of frame sv _ io] by (auto split: sum.splits simp: handleHello_def on_ok_def)

end
