(* ===== verification/Admission.thy ===== *)
theory Admission
  imports Server
begin

text \<open>
  \<open>ServerAdmission\<close> of \<open>server.go\<close>: the gate in front of the server, one per connection.  \<open>Handle\<close>
  takes the mutex twice, with the server's work in between: \<open>admit\<close> is its first critical section,
  \<open>applyResult\<close> its second.  Queues are identified by the generation that created them.
\<close>

section \<open>State\<close>

datatype ServerAdmissionState =
    ServerAdmissionClosed | ServerAdmissionAwaitingHandshake | ServerAdmissionReady | ServerAdmissionResuming

definition ServerAdmissionState_String :: "ServerAdmissionState \<Rightarrow> string" where
  "ServerAdmissionState_String s = (case s of
     ServerAdmissionClosed \<Rightarrow> ''CLOSED''
   | ServerAdmissionAwaitingHandshake \<Rightarrow> ''AWAITING_HANDSHAKE''
   | ServerAdmissionReady \<Rightarrow> ''READY''
   | ServerAdmissionResuming \<Rightarrow> ''RESUMING'')"

text \<open>\<open>ad_outbound\<close> is the pointer to the queue of the current generation: an index of the queues made.\<close>

record ServerAdmission =
  ad_generation :: ConnectionGeneration
  ad_outbound :: "nat option"
  ad_state :: ServerAdmissionState
  ad_sessionID :: string
  ad_capabilities :: SessionCapabilities
  ad_handshake :: bool

definition NewServerAdmission :: ServerAdmission where
  "NewServerAdmission = \<lparr>ad_generation = 0, ad_outbound = None, ad_state = ServerAdmissionClosed, ad_sessionID = [],
     ad_capabilities = no_capabilities, ad_handshake = False\<rparr>"

text \<open>The gate together with every queue it has made, and the collaborators' state.\<close>

record 'w gate =
  gt_adm :: ServerAdmission
  gt_queues :: "OutboundQueue list"
  gt_world :: 'w

definition Replace :: "'w gate \<Rightarrow> ConnectionGeneration \<times> 'w gate" where
  "Replace g =
     (let c = gt_adm g;
          queues = (case ad_outbound c of None \<Rightarrow> gt_queues g | Some i \<Rightarrow> (gt_queues g)[i := queue_Close (gt_queues g ! i)]);
          generation = ad_generation c + 1
      in (generation, g\<lparr>gt_queues := queues @ [NewOutboundQueue],
            gt_adm := \<lparr>ad_generation = generation, ad_outbound = Some (length queues),
              ad_state = ServerAdmissionAwaitingHandshake, ad_sessionID = [], ad_capabilities = no_capabilities,
              ad_handshake = False\<rparr>\<rparr>))"

definition admission_State :: "ServerAdmission \<Rightarrow> ServerAdmissionState" where
  "admission_State c = ad_state c"

definition admission_Generation :: "ServerAdmission \<Rightarrow> ConnectionGeneration" where
  "admission_Generation c = ad_generation c"

definition admission_SessionID :: "ServerAdmission \<Rightarrow> string" where
  "admission_SessionID c = ad_sessionID c"

definition admission_Capabilities :: "ServerAdmission \<Rightarrow> NegotiatedCapability list" where
  "admission_Capabilities c = Capabilities_List (ad_capabilities c)"

definition admission_CapabilityEnabled :: "ServerAdmission \<Rightarrow> string \<Rightarrow> bool" where
  "admission_CapabilityEnabled c name = Capabilities_Enabled (ad_capabilities c) name"

definition admission_CapabilityVersion :: "ServerAdmission \<Rightarrow> string \<Rightarrow> uint16 option" where
  "admission_CapabilityVersion c name = Capabilities_Version (ad_capabilities c) name"

section \<open>Admission of a frame\<close>

text \<open>What the first critical section of \<open>Handle\<close> decides.\<close>

datatype admission =
    Refuse go_error      \<comment> \<open>returned without touching the server\<close>
  | Process nat          \<comment> \<open>hand the frame to the server, with this queue\<close>
  | Reject nat           \<comment> \<open>closed; answer PROTOCOL_VIOLATION on this queue\<close>

definition allowed_frame :: "ServerAdmissionState \<Rightarrow> FrameType \<Rightarrow> bool" where
  "allowed_frame state ty \<longleftrightarrow>
     ty = FrameError
     \<or> (state = ServerAdmissionAwaitingHandshake \<and> (ty = FrameHello \<or> ty = FrameResume))
     \<or> (state = ServerAdmissionReady \<and> (ty = FramePing \<or> ty = FrameSend \<or> ty = FrameStateQuery \<or> ty = FrameResume))"

definition admit :: "'w ServerProtocol \<Rightarrow> ConnectionGeneration \<Rightarrow> Envelope \<Rightarrow> ServerAdmission \<Rightarrow> admission \<times> ServerAdmission" where
  "admit sv generation frame c =
     (case ad_outbound c of
        None \<Rightarrow> (Refuse ErrStaleConnection, c)
      | Some outbound \<Rightarrow>
      if generation \<noteq> ad_generation c then (Refuse ErrStaleConnection, c)
      else if ad_state c = ServerAdmissionClosed then (Refuse ErrInvalidState, c)
      else if ValidateFrame (Some frame) (sv_Limits sv) (sv_StrictValidation sv) \<noteq> None then (Process outbound, c)
      else if \<not> allowed_frame (ad_state c) (env_Type frame)
          \<or> (ad_state c = ServerAdmissionReady \<and> env_SessionID frame \<noteq> ad_sessionID c)
          \<or> (ad_state c = ServerAdmissionAwaitingHandshake \<and> ad_handshake c) then
        (Reject outbound, c\<lparr>ad_state := ServerAdmissionClosed, ad_capabilities := no_capabilities, ad_handshake := False\<rparr>)
      else
        (Process outbound,
         c\<lparr>ad_handshake := (if ad_state c = ServerAdmissionAwaitingHandshake \<and> env_Type frame \<noteq> FrameError
                             then True else ad_handshake c),
           ad_state := (if ad_state c = ServerAdmissionReady \<and> env_Type frame = FrameResume
                        then ServerAdmissionResuming else ad_state c)\<rparr>))"

definition applyResult :: "ConnectionGeneration \<Rightarrow> nat \<Rightarrow> serverHandleResult \<Rightarrow> ServerAdmission \<Rightarrow> ServerAdmission" where
  "applyResult generation outbound result c0 =
     (if generation \<noteq> ad_generation c0 \<or> Some outbound \<noteq> ad_outbound c0 then c0
      else
        (let c = c0\<lparr>ad_handshake := False\<rparr> in
         if ad_state c = ServerAdmissionClosed then c
         else if hr_close result then c\<lparr>ad_state := ServerAdmissionClosed, ad_capabilities := no_capabilities\<rparr>
         else if hr_abandonSession result then
           c\<lparr>ad_state := ServerAdmissionAwaitingHandshake, ad_sessionID := [], ad_capabilities := no_capabilities\<rparr>
         else if hr_readySessionID result \<noteq> [] then
           c\<lparr>ad_state := ServerAdmissionReady, ad_sessionID := hr_readySessionID result, ad_capabilities := hr_capabilities result\<rparr>
         else if ad_state c = ServerAdmissionResuming then
           c\<lparr>ad_state := ServerAdmissionClosed, ad_capabilities := no_capabilities\<rparr>
         else c))"

definition invokeServerProcess ::
  "'w ServerProtocol \<Rightarrow> others \<Rightarrow> Envelope \<Rightarrow> 'w io \<Rightarrow> serverHandleResult \<times> unit outcome \<times> 'w io" where
  "invokeServerProcess sv ot frame io = (case processFrame sv ot frame io of
     (r, Panic s, io1) \<Rightarrow>
       (no_result\<lparr>hr_close := True\<rparr>, Err (NewError (''kmtproto: server dependency panicked: '' @ s)), close_out io1)
   | (r, out, io1) \<Rightarrow> (r, out, io1))"

text \<open>Running the server's work on one queue of the gate.\<close>

definition gate_io :: "nat \<Rightarrow> 'w gate \<Rightarrow> 'w io" where
  "gate_io i g = \<lparr>io_world = gt_world g, io_out = gt_queues g ! i\<rparr>"

definition set_io :: "nat \<Rightarrow> 'w io \<Rightarrow> 'w gate \<Rightarrow> 'w gate" where
  "set_io i io g = g\<lparr>gt_world := io_world io, gt_queues := (gt_queues g)[i := io_out io]\<rparr>"

definition Handle ::
  "'w ServerProtocol \<Rightarrow> others \<Rightarrow> ConnectionGeneration \<Rightarrow> Envelope \<Rightarrow> 'w gate \<Rightarrow> unit outcome \<times> 'w gate" where
  "Handle sv ot generation frame g =
     (case admit sv generation frame (gt_adm g) of
        (Refuse e, c) \<Rightarrow> (Err e, g\<lparr>gt_adm := c\<rparr>)
      | (Reject i, c) \<Rightarrow>
          (let (out, io1) = enqueueError sv (env_SessionID frame) (env_ID frame) ErrorProtocolViolation
                 ''frame is invalid for server connection state'' False (gate_io i g)
           in (out, set_io i io1 (g\<lparr>gt_adm := c\<rparr>)))
      | (Process i, c) \<Rightarrow>
          (let (result, out, io1) = invokeServerProcess sv ot frame (gate_io i g)
           in (out, set_io i io1 (g\<lparr>gt_adm := applyResult generation i result c\<rparr>))))"

end
