(* ===== verification/Send_Flight.thy ===== *)
theory Send_Flight
  imports Server_Frames
begin

text \<open>
  Concurrent SENDs: \<open>acquireFlight\<close>, \<open>finishFlight\<close>, \<open>invokeSendCallback\<close>, \<open>setFlightACK\<close>,
  \<open>flightACK\<close> and the interleaving of any number of goroutines inside \<open>handleSend\<close>.  A goroutine is
  a task with a program counter; each of its steps is one critical section of \<open>flightMu\<close>, one
  call of injected code, or one operation on a queue.  Flights are heap objects named by numbers.
\<close>

section \<open>State\<close>

record sendFlight =
  fl_fingerprint :: SendFingerprint
  fl_callbackActive :: bool
  fl_ack :: "Envelope option"
  fl_done :: bool  \<comment> \<open>the channel \<open>done\<close> is closed\<close>

datatype send_cb = CbLookup | CbClaim | CbAfterClaim | CbApp | CbAfterApp | CbComplete | CbAfterComplete

datatype cb_result =
    RLookup "SessionState option outcome"
  | RClaim "(bool \<times> DedupRecord option) outcome"
  | RUnit "unit outcome"

datatype send_pc =
    PStart                              \<comment> \<open>before \<open>acquireFlight\<close>\<close>
  | PActive                             \<comment> \<open>another's callback is active; before \<open>flightACK\<close>\<close>
  | PWait                               \<comment> \<open>in \<open>waitForOriginal\<close>\<close>
  | PBegin send_cb                      \<comment> \<open>before the first critical section of \<open>invokeSendCallback\<close>\<close>
  | PRun send_cb                        \<comment> \<open>before the callback itself\<close>
  | PEnd send_cb cb_result              \<comment> \<open>before the deferred reset\<close>
  | PStored Envelope                    \<comment> \<open>before \<open>setFlightACK\<close> of a stored ACK\<close>
  | PSend Envelope                      \<comment> \<open>before the ACK is queued\<close>
  | PSetAck                             \<comment> \<open>before \<open>setFlightACK\<close> after completion\<close>
  | PFinish serverHandleResult "unit outcome"  \<comment> \<open>before the deferred \<open>finishFlight\<close>\<close>
  | PDone serverHandleResult "unit outcome"

record send_task =
  tk_frame :: Envelope
  tk_now :: time
  tk_content :: bytes
  tk_out :: nat   \<comment> \<open>the queue of its connection\<close>
  tk_flight :: nat
  tk_pc :: send_pc

record 'w send_sys =
  sy_world :: 'w
  sy_flights :: "(string, nat) gomap"
  sy_heap :: "sendFlight list"
  sy_queues :: "nat \<Rightarrow> OutboundQueue"
  sy_tasks :: "send_task list"
  sy_calls :: "(string \<times> string \<times> bytes) list"  \<comment> \<open>ghost: the calls of the application so far\<close>

definition tk_key :: "send_task \<Rightarrow> string" where
  "tk_key t = dedupKey (env_SessionID (tk_frame t)) (env_ID (tk_frame t))"

definition tk_timestamp :: "send_task \<Rightarrow> int64" where
  "tk_timestamp t = UnixMilli (tk_now t)"

section \<open>Flights\<close>

text \<open>
  \<open>acquireFlight\<close>: an existing flight with whether it conflicts and whether a callback is active, or
  a new one (\<open>None\<close>).
\<close>

definition acquireFlight :: "string \<Rightarrow> SendFingerprint \<Rightarrow> 'w send_sys \<Rightarrow> nat \<times> (bool \<times> bool) option \<times> 'w send_sys" where
  "acquireFlight key fingerprint sy =
     (case map_get (sy_flights sy) key of
        Some f \<Rightarrow> (f, Some (fl_fingerprint (sy_heap sy ! f) \<noteq> fingerprint, fl_callbackActive (sy_heap sy ! f)), sy)
      | None \<Rightarrow>
          (length (sy_heap sy), None,
           sy\<lparr>sy_heap := sy_heap sy @ [\<lparr>fl_fingerprint = fingerprint, fl_callbackActive = False, fl_ack = None, fl_done = False\<rparr>],
              sy_flights := map_put key (length (sy_heap sy)) (sy_flights sy)\<rparr>))"

definition set_flight :: "nat \<Rightarrow> sendFlight \<Rightarrow> 'w send_sys \<Rightarrow> 'w send_sys" where
  "set_flight f fl sy = sy\<lparr>sy_heap := (sy_heap sy)[f := fl]\<rparr>"

definition finishFlight :: "string \<Rightarrow> nat \<Rightarrow> 'w send_sys \<Rightarrow> 'w send_sys" where
  "finishFlight key f sy =
     (if map_get (sy_flights sy) key = Some f then
        set_flight f ((sy_heap sy ! f)\<lparr>fl_done := True\<rparr>) (sy\<lparr>sy_flights := map_del key (sy_flights sy)\<rparr>)
      else sy)"

definition begin_callback :: "string \<Rightarrow> nat \<Rightarrow> 'w send_sys \<Rightarrow> 'w send_sys option" where
  "begin_callback key f sy =
     (if map_get (sy_flights sy) key \<noteq> Some f \<or> fl_callbackActive (sy_heap sy ! f) then None
      else Some (set_flight f ((sy_heap sy ! f)\<lparr>fl_callbackActive := True\<rparr>) sy))"

definition end_callback :: "nat \<Rightarrow> 'w send_sys \<Rightarrow> 'w send_sys" where
  "end_callback f sy = set_flight f ((sy_heap sy ! f)\<lparr>fl_callbackActive := False\<rparr>) sy"

definition setFlightACK :: "nat \<Rightarrow> Envelope \<Rightarrow> 'w send_sys \<Rightarrow> 'w send_sys" where
  "setFlightACK f ack sy = set_flight f ((sy_heap sy ! f)\<lparr>fl_ack := Some (copyEnvelope ack)\<rparr>) sy"

definition flightACK :: "nat \<Rightarrow> 'w send_sys \<Rightarrow> Envelope option" where
  "flightACK f sy = map_option copyEnvelope (fl_ack (sy_heap sy ! f))"

section \<open>Steps of a task\<close>

definition on_queue :: "nat \<Rightarrow> ('w io \<Rightarrow> unit outcome \<times> 'w io) \<Rightarrow> 'w send_sys \<Rightarrow> unit outcome \<times> 'w send_sys" where
  "on_queue i f sy = (let (out, io) = f \<lparr>io_world = sy_world sy, io_out = sy_queues sy i\<rparr>
     in (out, sy\<lparr>sy_world := io_world io, sy_queues := (sy_queues sy)(i := io_out io)\<rparr>))"

text \<open>Answering, then returning: through the deferred \<open>finishFlight\<close> for a leader, at once for the others.\<close>

definition answer :: "(serverHandleResult \<Rightarrow> unit outcome \<Rightarrow> send_pc) \<Rightarrow> serverHandleResult \<Rightarrow> send_task
    \<Rightarrow> ('w io \<Rightarrow> unit outcome \<times> 'w io) \<Rightarrow> 'w send_sys \<Rightarrow> send_pc \<times> 'w send_sys" where
  "answer ret r t f sy = (let (out, sy') = on_queue (tk_out t) f sy in (ret r out, sy'))"

definition run_callback :: "'w ServerProtocol \<Rightarrow> send_task \<Rightarrow> send_cb \<Rightarrow> 'w \<Rightarrow> cb_result \<times> 'w" where
  "run_callback sv t cb w =
     (let sid = env_SessionID (tk_frame t); mid = env_ID (tk_frame t) in
      case cb of
        CbLookup \<Rightarrow> apfst RLookup (sr_Lookup (sv_sessions sv) sid (tk_now t) w)
      | CbClaim \<Rightarrow> apfst RClaim (ds_Claim (sv_dedup sv) sid mid (Sum256 (tk_content t)) w)
      | CbAfterClaim \<Rightarrow> apfst RUnit (inject sv FailAfterClaim w)
      | CbApp \<Rightarrow> apfst RUnit (sv_app sv mid ([] @ tk_content t) w)
      | CbAfterApp \<Rightarrow> apfst RUnit (inject sv FailAfterApplication w)
      | CbComplete \<Rightarrow> apfst RUnit (ds_Complete (sv_dedup sv) sid mid (ack_frame (tk_frame t) (tk_timestamp t)) w)
      | CbAfterComplete \<Rightarrow> apfst RUnit (inject sv FailAfterComplete w))"

definition recover_result :: "cb_result \<Rightarrow> cb_result" where
  "recover_result r = (case r of
     RLookup x \<Rightarrow> RLookup (recover_send x) | RClaim x \<Rightarrow> RClaim (recover_send x) | RUnit x \<Rightarrow> RUnit (recover_send x))"

text \<open>The error of \<open>invokeSendCallback\<close>'s guard, as the result of the callback.\<close>

definition callback_refused :: "send_cb \<Rightarrow> cb_result" where
  "callback_refused cb = (let e = NewError ''kmtproto: SEND flight callback is already active'' in
     case cb of CbLookup \<Rightarrow> RLookup (Err e) | CbClaim \<Rightarrow> RClaim (Err e) | _ \<Rightarrow> RUnit (Err e))"

text \<open>What \<open>handleSend\<close> does after the claim was refused.\<close>

definition next_existing :: "'w ServerProtocol \<Rightarrow> send_task \<Rightarrow> DedupRecord option \<Rightarrow> 'w send_sys \<Rightarrow> send_pc \<times> 'w send_sys" where
  "next_existing sv t existing sy =
     (case existing of
        Some r \<Rightarrow>
          if dr_Fingerprint r \<noteq> Sum256 (tk_content t) then
            answer PFinish no_result t (send_error sv (tk_frame t) ErrorBadRequest ''SEND id was reused with different content'' False (tk_timestamp t)) sy
          else (case (dr_State r, dr_Ack r) of
             (DedupCompleted, Some ack) \<Rightarrow>
               (case validateStoredACK sv ack (env_SessionID (tk_frame t)) (env_ID (tk_frame t)) of
                  Some e \<Rightarrow> (PFinish no_result (Err e), sy)
                | None \<Rightarrow> (PStored ack, sy))
           | _ \<Rightarrow> answer PFinish no_result t (send_error sv (tk_frame t) ErrorInternal ''SEND is still processing; retry with the same id'' True (tk_timestamp t)) sy)
      | None \<Rightarrow> answer PFinish no_result t (send_error sv (tk_frame t) ErrorInternal ''SEND is still processing; retry with the same id'' True (tk_timestamp t)) sy)"

definition next_unit :: "'w ServerProtocol \<Rightarrow> send_task \<Rightarrow> send_cb \<Rightarrow> 'w send_sys \<Rightarrow> send_pc \<times> 'w send_sys" where
  "next_unit sv t cb sy =
     (case cb of
        CbAfterClaim \<Rightarrow> (PBegin CbApp, sy)
      | CbApp \<Rightarrow> (PBegin CbAfterApp, sy)
      | CbAfterApp \<Rightarrow>
          (case server_validate sv (ack_frame (tk_frame t) (tk_timestamp t)) of
             Some e \<Rightarrow> (PFinish no_result (Err e), sy)
           | None \<Rightarrow> (PBegin CbComplete, sy))
      | CbComplete \<Rightarrow> (PSetAck, sy)
      | _ \<Rightarrow> (PSend (ack_frame (tk_frame t) (tk_timestamp t)), sy))"

text \<open>The code after a callback returned.\<close>

definition after_callback :: "'w ServerProtocol \<Rightarrow> send_task \<Rightarrow> send_cb \<Rightarrow> cb_result \<Rightarrow> 'w send_sys \<Rightarrow> send_pc \<times> 'w send_sys" where
  "after_callback sv t cb r sy =
     (case r of
        RLookup (Ret None) \<Rightarrow>
          answer PFinish (no_result\<lparr>hr_abandonSession := True\<rparr>) t
            (send_error sv (tk_frame t) ErrorInvalidSession ''session expired or unknown'' False (tk_timestamp t)) sy
      | RLookup (Ret (Some _)) \<Rightarrow> (PBegin CbClaim, sy)
      | RLookup (Err e) \<Rightarrow> (PFinish no_result (Err e), sy)
      | RLookup (Panic s) \<Rightarrow> (PFinish no_result (Panic s), sy)
      | RClaim (Ret (claimed, existing)) \<Rightarrow> if claimed then (PBegin CbAfterClaim, sy) else next_existing sv t existing sy
      | RClaim (Err e) \<Rightarrow> (PFinish no_result (Err e), sy)
      | RClaim (Panic s) \<Rightarrow> (PFinish no_result (Panic s), sy)
      | RUnit (Ret _) \<Rightarrow> next_unit sv t cb sy
      | RUnit (Err e) \<Rightarrow>
          if cb = CbApp then answer PFinish no_result t (send_error sv (tk_frame t) ErrorInternal ''application rejected SEND'' True (tk_timestamp t)) sy
          else (PFinish no_result (Err e), sy)
      | RUnit (Panic s) \<Rightarrow> (PFinish no_result (Panic s), sy))"

definition set_pc :: "nat \<Rightarrow> send_pc \<Rightarrow> 'w send_sys \<Rightarrow> 'w send_sys" where
  "set_pc i pc sy = sy\<lparr>sy_tasks := (sy_tasks sy)[i := (sy_tasks sy ! i)\<lparr>tk_pc := pc\<rparr>]\<rparr>"

definition set_task :: "nat \<Rightarrow> send_task \<Rightarrow> 'w send_sys \<Rightarrow> 'w send_sys" where
  "set_task i t sy = sy\<lparr>sy_tasks := (sy_tasks sy)[i := t]\<rparr>"

text \<open>One step of task \<open>i\<close>; \<open>None\<close> when it is blocked or done.\<close>

definition start_step :: "'w ServerProtocol \<Rightarrow> nat \<Rightarrow> send_task \<Rightarrow> 'w send_sys \<Rightarrow> 'w send_sys" where
  "start_step sv i t sy =
     (case acquireFlight (tk_key t) (Sum256 (tk_content t)) sy of
        (f, None, sy1) \<Rightarrow> set_task i (t\<lparr>tk_flight := f, tk_pc := PBegin CbLookup\<rparr>) sy1
      | (f, Some (conflict, active), sy1) \<Rightarrow>
          if conflict then
            (let (pc, sy2) = answer PDone no_result t (send_error sv (tk_frame t) ErrorBadRequest
                   ''SEND id was reused with different content'' False (tk_timestamp t)) sy1
             in set_task i (t\<lparr>tk_flight := f, tk_pc := pc\<rparr>) sy2)
          else set_task i (t\<lparr>tk_flight := f, tk_pc := (if active then PActive else PWait)\<rparr>) sy1)"

definition task_step :: "'w ServerProtocol \<Rightarrow> nat \<Rightarrow> 'w send_sys \<Rightarrow> 'w send_sys option" where
  "task_step sv i sy =
     (let t = sy_tasks sy ! i; f = tk_flight t in
      case tk_pc t of
        PStart \<Rightarrow> Some (start_step sv i t sy)
      | PActive \<Rightarrow>
          (let (pc, sy1) = answer PDone no_result t (case flightACK f sy of
                 Some ack \<Rightarrow> send_stored_ack sv (tk_frame t) ack
               | None \<Rightarrow> send_error sv (tk_frame t) ErrorInternal ''SEND callback is active; retry with the same id'' True (tk_timestamp t)) sy
           in Some (set_pc i pc sy1))
      | PWait \<Rightarrow>
          if fl_done (sy_heap sy ! f) then
            (let (pc, sy1) = answer PDone no_result t (waitForOriginal sv (Inr (flightACK f sy)) (tk_frame t) (tk_timestamp t)) sy
             in Some (set_pc i pc sy1))
          else None
      | PBegin cb \<Rightarrow>
          (case begin_callback (tk_key t) f sy of
             None \<Rightarrow> (let (pc, sy1) = after_callback sv t cb (callback_refused cb) sy in Some (set_pc i pc sy1))
           | Some sy1 \<Rightarrow> Some (set_pc i (PRun cb) sy1))
      | PRun cb \<Rightarrow>
          (let (r, w) = run_callback sv t cb (sy_world sy)
           in Some (set_pc i (PEnd cb r) (sy\<lparr>sy_world := w,
                sy_calls := (if cb = CbApp then sy_calls sy @ [(env_SessionID (tk_frame t), env_ID (tk_frame t), tk_content t)]
                             else sy_calls sy)\<rparr>)))
      | PEnd cb r \<Rightarrow> (let (pc, sy1) = after_callback sv t cb (recover_result r) (end_callback f sy) in Some (set_pc i pc sy1))
      | PStored ack \<Rightarrow> Some (set_pc i (PSend ack) (setFlightACK f ack sy))
      | PSend ack \<Rightarrow> (let (pc, sy1) = answer PFinish no_result t (enqueueFrame sv ack) sy in Some (set_pc i pc sy1))
      | PSetAck \<Rightarrow> Some (set_pc i (PBegin CbAfterComplete) (setFlightACK f (ack_frame (tk_frame t) (tk_timestamp t)) sy))
      | PFinish r out \<Rightarrow> Some (set_pc i (PDone r out) (finishFlight (tk_key t) f sy))
      | PDone r out \<Rightarrow> None)"

section \<open>Interleavings\<close>

text \<open>
  The steps of the system: a call of \<open>handleSend\<close> begins (it samples the clock and decodes the
  payload before it reaches \<open>acquireFlight\<close>), a task makes a step, the context of a waiting call
  ends, or the collaborators' state changes by something else, within \<open>env\<close>.
\<close>

inductive send_step :: "'w ServerProtocol \<Rightarrow> ('w \<Rightarrow> 'w \<Rightarrow> bool) \<Rightarrow> 'w send_sys \<Rightarrow> 'w send_sys \<Rightarrow> bool" for sv env where
  spawn: "sv_Now sv (sy_world sy) = (now, w) \<Longrightarrow>
    decodePayload (env_Payload frame) dec_SendPayload zero_SendPayload (sv_StrictValidation sv) = Inr payload \<Longrightarrow>
    send_step sv env sy (sy\<lparr>sy_world := w, sy_tasks := sy_tasks sy @ [\<lparr>tk_frame = frame, tk_now = now,
      tk_content = [] @ sp_Content payload, tk_out = queue, tk_flight = 0, tk_pc = PStart\<rparr>]\<rparr>)"
| task: "i < length (sy_tasks sy) \<Longrightarrow> task_step sv i sy = Some sy' \<Longrightarrow> send_step sv env sy sy'"
| cancel: "i < length (sy_tasks sy) \<Longrightarrow> tk_pc (sy_tasks sy ! i) = PWait \<Longrightarrow>
    send_step sv env sy (set_pc i (PDone no_result (Err e)) sy)"
| environment: "env (sy_world sy) w \<Longrightarrow> send_step sv env sy (sy\<lparr>sy_world := w\<rparr>)"

definition send_init :: "'w \<Rightarrow> (nat \<Rightarrow> OutboundQueue) \<Rightarrow> 'w send_sys" where
  "send_init w queues = \<lparr>sy_world = w, sy_flights = [], sy_heap = [], sy_queues = queues, sy_tasks = [], sy_calls = []\<rparr>"

inductive send_reach :: "'w ServerProtocol \<Rightarrow> ('w \<Rightarrow> 'w \<Rightarrow> bool) \<Rightarrow> 'w \<Rightarrow> 'w send_sys \<Rightarrow> bool" for sv env w0 where
  init: "send_reach sv env w0 (send_init w0 queues)"
| step: "send_reach sv env w0 sy \<Longrightarrow> send_step sv env sy sy' \<Longrightarrow> send_reach sv env w0 sy'"

inductive_cases send_stepE: "send_step sv env sy sy'"

end
