(* ===== verification/Send_Flight_Inv.thy ===== *)
theory Send_Flight_Inv
  imports Send_Flight Go_Map
begin

text \<open>
  Invariants of the interleavings of SENDs: one leader per identity, the flag of active callbacks,
  and no waiting call without a leader; and the steps a call may still take.
\<close>

section \<open>Steps that only answer\<close>

definition only_queues :: "'w send_sys \<Rightarrow> 'w send_sys \<Rightarrow> bool" where
  "only_queues sy sy' \<longleftrightarrow> sy_world sy' = sy_world sy \<and> sy_flights sy' = sy_flights sy \<and> sy_heap sy' = sy_heap sy
     \<and> sy_tasks sy' = sy_tasks sy \<and> sy_calls sy' = sy_calls sy"

lemma only_queues_refl [simp]: "only_queues sy sy"
  by (simp add: only_queues_def)

lemma enqueueFrame_world [simp]: "io_world (snd (enqueueFrame sv f io)) = io_world io"
  by (cases rule: enqueueFrame_cases [of sv f io]) simp_all

lemma enqueueErrorAt_world [simp]: "io_world (snd (enqueueErrorAt sv sid ref c m r ts io)) = io_world io"
  by (simp add: enqueueErrorAt_snd Let_def close_out_def)

lemma send_error_world [simp]: "io_world (snd (send_error sv f c m r ts io)) = io_world io"
  by (simp add: send_error_def)

lemma send_stored_ack_world [simp]: "io_world (snd (send_stored_ack sv f ack io)) = io_world io"
  by (simp add: send_stored_ack_def split: option.splits)

lemma waitForOriginal_world [simp]: "io_world (snd (waitForOriginal sv x f ts io)) = io_world io"
  by (simp add: waitForOriginal_def split: sum.splits option.splits)

lemma answer_only:
  assumes "answer ret r t f sy = (pc, sy')" "\<And>io. io_world (snd (f io)) = io_world io"
  shows "only_queues sy sy' \<and> (\<exists>out. pc = ret r out)"
proof -
  obtain out io where f: "f \<lparr>io_world = sy_world sy, io_out = sy_queues sy (tk_out t)\<rparr> = (out, io)" by fastforce
  then have "io_world io = sy_world sy" using assms(2) [of "\<lparr>io_world = sy_world sy, io_out = sy_queues sy (tk_out t)\<rparr>"] by simp
  then show ?thesis using assms(1) f by (auto simp: answer_def on_queue_def only_queues_def)
qed

section \<open>Program counters\<close>

fun leader_pc :: "send_pc \<Rightarrow> bool" where
  "leader_pc PStart = False" | "leader_pc PActive = False" | "leader_pc PWait = False" | "leader_pc (PDone r out) = False"
| "leader_pc pc = True"

fun active_pc :: "send_pc \<Rightarrow> bool" where
  "active_pc (PRun cb) = True" | "active_pc (PEnd cb r) = True" | "active_pc pc = False"

definition idle_leader :: "send_pc \<Rightarrow> bool" where
  "idle_leader pc \<longleftrightarrow> leader_pc pc \<and> \<not> active_pc pc"

lemma next_existing_only:
  assumes "next_existing sv t x sy = (pc, sy')"
  shows "only_queues sy sy' \<and> idle_leader pc"
proof -
  have ans: "only_queues sy sy1 \<and> idle_leader pc1" if "answer PFinish r t (send_error sv f c m b ts) sy = (pc1, sy1)" for pc1 sy1 r f c m b ts
    using answer_only [OF that] by (auto simp: idle_leader_def)
  show ?thesis
    using assms ans by (auto simp: next_existing_def idle_leader_def split: option.splits DedupState.splits if_splits)
qed

lemma after_callback_only:
  assumes "after_callback sv t cb r sy = (pc, sy')"
  shows "only_queues sy sy' \<and> idle_leader pc"
proof -
  have ans: "only_queues sy sy1 \<and> idle_leader pc1" if "answer PFinish r t (send_error sv f c m b ts) sy = (pc1, sy1)" for pc1 sy1 r f c m b ts
    using answer_only [OF that] by (auto simp: idle_leader_def)
  show ?thesis
    using assms ans next_existing_only [of sv t _ sy pc sy']
    by (auto simp: after_callback_def next_unit_def idle_leader_def split: cb_result.splits outcome.splits option.splits
        prod.splits if_splits send_cb.splits)
qed

section \<open>One leader per identity\<close>

definition leads :: "'w send_sys \<Rightarrow> nat \<Rightarrow> bool" where
  "leads sy i \<longleftrightarrow> i < length (sy_tasks sy) \<and> leader_pc (tk_pc (sy_tasks sy ! i))"

definition leads_flight :: "'w send_sys \<Rightarrow> nat \<Rightarrow> string \<Rightarrow> nat \<Rightarrow> bool" where
  "leads_flight sy i key f \<longleftrightarrow> leads sy i \<and> tk_key (sy_tasks sy ! i) = key \<and> tk_flight (sy_tasks sy ! i) = f"

definition waits_on :: "'w send_sys \<Rightarrow> nat \<Rightarrow> bool" where
  "waits_on sy i \<longleftrightarrow> i < length (sy_tasks sy) \<and> (tk_pc (sy_tasks sy ! i) = PActive \<or> tk_pc (sy_tasks sy ! i) = PWait)"

definition flight_inv :: "'w send_sys \<Rightarrow> bool" where
  "flight_inv sy \<longleftrightarrow>
     (\<forall>key f. map_get (sy_flights sy) key = Some f \<longrightarrow> f < length (sy_heap sy) \<and> \<not> fl_done (sy_heap sy ! f) \<and> (\<exists>i. leads_flight sy i key f))
     \<and> (\<forall>i. leads sy i \<longrightarrow> map_get (sy_flights sy) (tk_key (sy_tasks sy ! i)) = Some (tk_flight (sy_tasks sy ! i))
          \<and> (fl_callbackActive (sy_heap sy ! tk_flight (sy_tasks sy ! i)) \<longleftrightarrow> active_pc (tk_pc (sy_tasks sy ! i))))
     \<and> (\<forall>i j. leads sy i \<longrightarrow> leads sy j \<longrightarrow> tk_flight (sy_tasks sy ! i) = tk_flight (sy_tasks sy ! j) \<longrightarrow> i = j)
     \<and> (\<forall>i. waits_on sy i \<longrightarrow> tk_flight (sy_tasks sy ! i) < length (sy_heap sy)
          \<and> (fl_done (sy_heap sy ! tk_flight (sy_tasks sy ! i)) \<or>
             map_get (sy_flights sy) (tk_key (sy_tasks sy ! i)) = Some (tk_flight (sy_tasks sy ! i))))"

lemma flight_invD:
  assumes "flight_inv sy"
  shows "map_get (sy_flights sy) key = Some f \<Longrightarrow> f < length (sy_heap sy)"
    "map_get (sy_flights sy) key = Some f \<Longrightarrow> \<not> fl_done (sy_heap sy ! f)"
    "map_get (sy_flights sy) key = Some f \<Longrightarrow> \<exists>i. leads_flight sy i key f"
    "leads sy i \<Longrightarrow> map_get (sy_flights sy) (tk_key (sy_tasks sy ! i)) = Some (tk_flight (sy_tasks sy ! i))"
    "leads sy i \<Longrightarrow> fl_callbackActive (sy_heap sy ! tk_flight (sy_tasks sy ! i)) \<longleftrightarrow> active_pc (tk_pc (sy_tasks sy ! i))"
    "leads sy i \<Longrightarrow> leads sy j \<Longrightarrow> tk_flight (sy_tasks sy ! i) = tk_flight (sy_tasks sy ! j) \<Longrightarrow> i = j"
    "waits_on sy i \<Longrightarrow> tk_flight (sy_tasks sy ! i) < length (sy_heap sy)"
    "waits_on sy i \<Longrightarrow> fl_done (sy_heap sy ! tk_flight (sy_tasks sy ! i)) \<or>
       map_get (sy_flights sy) (tk_key (sy_tasks sy ! i)) = Some (tk_flight (sy_tasks sy ! i))"
  using assms unfolding flight_inv_def by blast+

lemma flight_invI:
  assumes "\<And>k f. map_get (sy_flights sy) k = Some f \<Longrightarrow> \<exists>i. leads_flight sy i k f"
    and "\<And>k f. map_get (sy_flights sy) k = Some f \<Longrightarrow> f < length (sy_heap sy) \<and> \<not> fl_done (sy_heap sy ! f)"
    and "\<And>i. leads sy i \<Longrightarrow> map_get (sy_flights sy) (tk_key (sy_tasks sy ! i)) = Some (tk_flight (sy_tasks sy ! i))
      \<and> (fl_callbackActive (sy_heap sy ! tk_flight (sy_tasks sy ! i)) \<longleftrightarrow> active_pc (tk_pc (sy_tasks sy ! i)))"
    and "\<And>i j. leads sy i \<Longrightarrow> leads sy j \<Longrightarrow> tk_flight (sy_tasks sy ! i) = tk_flight (sy_tasks sy ! j) \<Longrightarrow> i = j"
    and "\<And>i. waits_on sy i \<Longrightarrow> tk_flight (sy_tasks sy ! i) < length (sy_heap sy)
      \<and> (fl_done (sy_heap sy ! tk_flight (sy_tasks sy ! i)) \<or>
          map_get (sy_flights sy) (tk_key (sy_tasks sy ! i)) = Some (tk_flight (sy_tasks sy ! i)))"
  shows "flight_inv sy"
  unfolding flight_inv_def using assms by blast

text \<open>A leader's step on its own flight that keeps it leading.\<close>

lemma inv_leader_step:
  assumes inv: "flight_inv sy" and i: "leads sy i"
    and t: "t = sy_tasks sy ! i" and f: "f = tk_flight t"
    and sy': "sy_flights sy' = sy_flights sy" "sy_tasks sy' = (sy_tasks sy)[i := t\<lparr>tk_pc := pc\<rparr>]"
      "sy_heap sy' = (sy_heap sy)[f := fl]"
    and pc: "leader_pc pc" and fl: "fl_done fl = fl_done (sy_heap sy ! f)" "fl_callbackActive fl \<longleftrightarrow> active_pc pc"
  shows "flight_inv sy'"
proof -
  have len: "i < length (sy_tasks sy)" using i by (simp add: leads_def)
  have f_ok: "f < length (sy_heap sy)" using flight_invD(1) [OF inv flight_invD(4) [OF inv i]] t f by simp
  have task: "sy_tasks sy' ! j = (if j = i then t\<lparr>tk_pc := pc\<rparr> else sy_tasks sy ! j)" for j
    using sy'(2) len by (simp add: nth_list_update)
  have lens: "length (sy_tasks sy') = length (sy_tasks sy)" using sy'(2) by simp
  have same: "tk_key (sy_tasks sy' ! j) = tk_key (sy_tasks sy ! j)" "tk_flight (sy_tasks sy' ! j) = tk_flight (sy_tasks sy ! j)" for j
    using task t by (auto simp: tk_key_def)
  have L: "leads sy' j \<longleftrightarrow> leads sy j" for j using i pc lens task [of j] by (auto simp: leads_def)
  have W: "waits_on sy' j \<Longrightarrow> waits_on sy j \<and> j \<noteq> i" for j using pc lens task [of j] by (auto simp: waits_on_def split: if_splits)
  have heap: "sy_heap sy' ! g = (if g = f then fl else sy_heap sy ! g)" for g using sy'(3) f_ok by (simp add: nth_list_update)
  have dn: "fl_done (sy_heap sy' ! g) = fl_done (sy_heap sy ! g)" for g using heap fl(1) by simp
  have LF: "leads_flight sy' j key g \<longleftrightarrow> leads_flight sy j key g" for j key g by (simp add: leads_flight_def L same)
  have act: "fl_callbackActive (sy_heap sy' ! tk_flight (sy_tasks sy ! j)) \<longleftrightarrow> active_pc (tk_pc (sy_tasks sy' ! j))" if "leads sy j" for j
    using flight_invD(5,6) [OF inv] that i heap task fl(2) t f by auto
  show ?thesis
    unfolding flight_inv_def L LF same dn sy'(1)
    using flight_invD [OF inv] act W sy'(3) by (auto simp: dn)
qed

text \<open>The invariant speaks of the flights, the heap and the tasks.\<close>

lemma flight_inv_cong:
  assumes "flight_inv sy" "sy_flights sy' = sy_flights sy" "sy_heap sy' = sy_heap sy" "sy_tasks sy' = sy_tasks sy"
  shows "flight_inv sy'"
  using assms unfolding flight_inv_def leads_flight_def leads_def waits_on_def by simp

text \<open>A step of a task that does not lead and does not begin to.\<close>

lemma inv_other_step:
  assumes inv: "flight_inv sy" and i: "i < length (sy_tasks sy)" "\<not> leader_pc (tk_pc (sy_tasks sy ! i))"
    and sy': "sy_flights sy' = sy_flights sy" "sy_heap sy' = sy_heap sy" "sy_tasks sy' = (sy_tasks sy)[i := t]"
    and t: "\<not> leader_pc (tk_pc t)"
      "tk_pc t = PActive \<or> tk_pc t = PWait \<Longrightarrow> map_get (sy_flights sy) (tk_key t) = Some (tk_flight t)"
  shows "flight_inv sy'"
proof -
  have task: "sy_tasks sy' ! j = (if j = i then t else sy_tasks sy ! j)" for j using sy'(3) i(1) by (simp add: nth_list_update)
  have lens: "length (sy_tasks sy') = length (sy_tasks sy)" using sy'(3) by simp
  have L: "leads sy' j \<longleftrightarrow> leads sy j \<and> j \<noteq> i" and Li: "\<not> leads sy i" for j using i t task lens by (auto simp: leads_def)
  have LF: "leads_flight sy j key g \<Longrightarrow> leads_flight sy' j key g" for j key g using L Li task by (auto simp: leads_flight_def)
  have W: "waits_on sy' j \<Longrightarrow> j \<noteq> i \<Longrightarrow> waits_on sy j" for j using task lens by (auto simp: waits_on_def)
  have wi: "tk_flight t < length (sy_heap sy) \<and> (fl_done (sy_heap sy ! tk_flight t) \<or> map_get (sy_flights sy) (tk_key t) = Some (tk_flight t))"
    if "waits_on sy' i" using t(2) flight_invD(1) [OF inv] that task by (auto simp: waits_on_def)
  show ?thesis
  proof (rule flight_invI)
    fix k f assume "map_get (sy_flights sy') k = Some f"
    then show "\<exists>i. leads_flight sy' i k f" "f < length (sy_heap sy') \<and> \<not> fl_done (sy_heap sy' ! f)"
      using LF flight_invD(1-3) [OF inv, of k f] sy'(1,2) by auto
  next
    fix j assume "leads sy' j"
    then show "map_get (sy_flights sy') (tk_key (sy_tasks sy' ! j)) = Some (tk_flight (sy_tasks sy' ! j))
        \<and> (fl_callbackActive (sy_heap sy' ! tk_flight (sy_tasks sy' ! j)) \<longleftrightarrow> active_pc (tk_pc (sy_tasks sy' ! j)))"
      using L flight_invD(4,5) [OF inv, of j] sy'(1,2) task by auto
  next
    fix j k assume "leads sy' j" "leads sy' k" "tk_flight (sy_tasks sy' ! j) = tk_flight (sy_tasks sy' ! k)"
    then show "j = k" using L flight_invD(6) [OF inv, of j k] task by auto
  next
    fix j assume "waits_on sy' j"
    then show "tk_flight (sy_tasks sy' ! j) < length (sy_heap sy') \<and> (fl_done (sy_heap sy' ! tk_flight (sy_tasks sy' ! j))
        \<or> map_get (sy_flights sy') (tk_key (sy_tasks sy' ! j)) = Some (tk_flight (sy_tasks sy' ! j)))"
      using W wi flight_invD(7,8) [OF inv, of j] sy'(1,2) task by (cases "j = i") auto
  qed
qed

text \<open>A task becomes the leader of a new flight.\<close>

lemma inv_new_flight:
  assumes inv: "flight_inv sy" and i: "i < length (sy_tasks sy)" "\<not> leader_pc (tk_pc (sy_tasks sy ! i))"
    and key: "map_get (sy_flights sy) (tk_key t) = None"
    and sy': "sy_flights sy' = map_put (tk_key t) (length (sy_heap sy)) (sy_flights sy)"
      "sy_heap sy' = sy_heap sy @ [fl]" "sy_tasks sy' = (sy_tasks sy)[i := t]"
    and t: "leader_pc (tk_pc t)" "\<not> active_pc (tk_pc t)" "tk_flight t = length (sy_heap sy)"
    and fl: "\<not> fl_done fl" "\<not> fl_callbackActive fl"
  shows "flight_inv sy'"
proof -
  have task: "sy_tasks sy' ! j = (if j = i then t else sy_tasks sy ! j)" for j using sy'(3) i(1) by (simp add: nth_list_update)
  have lens: "length (sy_tasks sy') = length (sy_tasks sy)" using sy'(3) by simp
  have L: "leads sy' j \<longleftrightarrow> leads sy j \<or> j = i" and Li: "\<not> leads sy i" for j using i t task lens by (auto simp: leads_def)
  have W: "waits_on sy' j \<Longrightarrow> waits_on sy j \<and> j \<noteq> i" for j using t(1) task lens by (auto simp: waits_on_def split: if_splits)
  have old: "f < length (sy_heap sy)" if "map_get (sy_flights sy) k = Some f" for k f using flight_invD(1) [OF inv that] .
  have heap: "f < length (sy_heap sy) \<Longrightarrow> sy_heap sy' ! f = sy_heap sy ! f" "sy_heap sy' ! length (sy_heap sy) = fl" for f
    using sy'(2) by (auto simp: nth_append)
  have lead: "map_get (sy_flights sy) (tk_key (sy_tasks sy ! j)) = Some (tk_flight (sy_tasks sy ! j))
      \<and> tk_flight (sy_tasks sy ! j) < length (sy_heap sy) \<and> j \<noteq> i \<and> tk_key (sy_tasks sy ! j) \<noteq> tk_key t" if "leads sy j" for j
    using flight_invD(4) [OF inv that] old Li that key by fastforce
  have wait: "tk_flight (sy_tasks sy ! j) < length (sy_heap sy)
      \<and> (fl_done (sy_heap sy ! tk_flight (sy_tasks sy ! j))
         \<or> map_get (sy_flights sy) (tk_key (sy_tasks sy ! j)) = Some (tk_flight (sy_tasks sy ! j)) \<and> tk_key (sy_tasks sy ! j) \<noteq> tk_key t)"
    if "waits_on sy j" for j
    using flight_invD(7,8) [OF inv that] key by fastforce
  have "\<exists>j. leads_flight sy' j k f" if g: "map_get (sy_flights sy') k = Some f" for k f
  proof (cases "k = tk_key t")
    case True
    then show ?thesis using g sy'(1) L t(3) task by (intro exI [of _ i]) (simp add: leads_flight_def)
  next
    case False
    then obtain j where "leads_flight sy j k f" using g sy'(1) flight_invD(3) [OF inv] by auto
    then show ?thesis using L lead task by (intro exI [of _ j]) (auto simp: leads_flight_def)
  qed
  moreover have "f < length (sy_heap sy') \<and> \<not> fl_done (sy_heap sy' ! f)" if "map_get (sy_flights sy') k = Some f" for k f
    using that sy'(1,2) old [of k f] flight_invD(2) [OF inv, of k f] heap(1) [of f] heap(2) fl(1) by (cases "k = tk_key t") auto
  moreover have "map_get (sy_flights sy') (tk_key (sy_tasks sy' ! j)) = Some (tk_flight (sy_tasks sy' ! j))
      \<and> (fl_callbackActive (sy_heap sy' ! tk_flight (sy_tasks sy' ! j)) \<longleftrightarrow> active_pc (tk_pc (sy_tasks sy' ! j)))" if "leads sy' j" for j
    using that L lead [of j] flight_invD(5) [OF inv, of j] heap t fl(2) sy'(1) task by (cases "j = i") auto
  moreover have "j = k" if "leads sy' j" "leads sy' k" "tk_flight (sy_tasks sy' ! j) = tk_flight (sy_tasks sy' ! k)" for j k
    using that L lead [of j] lead [of k] flight_invD(6) [OF inv, of j k] t(3) task by (auto split: if_splits)
  moreover have "tk_flight (sy_tasks sy' ! j) < length (sy_heap sy') \<and> (fl_done (sy_heap sy' ! tk_flight (sy_tasks sy' ! j))
      \<or> map_get (sy_flights sy') (tk_key (sy_tasks sy' ! j)) = Some (tk_flight (sy_tasks sy' ! j)))" if "waits_on sy' j" for j
    using W [OF that] wait [of j] heap sy'(1,2) task by auto
  ultimately show ?thesis by (rule flight_invI)
qed

text \<open>A leader finishes its flight.\<close>

lemma inv_finish:
  assumes inv: "flight_inv sy" and i: "leads sy i" and t: "t = sy_tasks sy ! i" and f: "f = tk_flight t"
    and sy': "sy_flights sy' = map_del (tk_key t) (sy_flights sy)" "sy_heap sy' = (sy_heap sy)[f := (sy_heap sy ! f)\<lparr>fl_done := True\<rparr>]"
      "sy_tasks sy' = (sy_tasks sy)[i := t\<lparr>tk_pc := PDone r out\<rparr>]"
  shows "flight_inv sy'"
proof -
  have len: "i < length (sy_tasks sy)" using i by (simp add: leads_def)
  have mine: "map_get (sy_flights sy) (tk_key t) = Some f" using flight_invD(4) [OF inv i] t f by simp
  have f_ok: "f < length (sy_heap sy)" using flight_invD(1) [OF inv mine] .
  have task: "sy_tasks sy' ! j = (if j = i then t\<lparr>tk_pc := PDone r out\<rparr> else sy_tasks sy ! j)" for j using sy'(3) len by (simp add: nth_list_update)
  have lens: "length (sy_tasks sy') = length (sy_tasks sy)" "length (sy_heap sy') = length (sy_heap sy)" using sy'(2,3) by simp_all
  have L: "leads sy' j \<longleftrightarrow> leads sy j \<and> j \<noteq> i" for j using task lens by (auto simp: leads_def)
  have W: "waits_on sy' j \<Longrightarrow> waits_on sy j \<and> j \<noteq> i" for j using task lens by (auto simp: waits_on_def split: if_splits)
  have heap: "sy_heap sy' ! g = (if g = f then (sy_heap sy ! f)\<lparr>fl_done := True\<rparr> else sy_heap sy ! g)" for g using sy'(2) f_ok by (simp add: nth_list_update)
  have other: "tk_flight (sy_tasks sy ! j) \<noteq> f \<and> tk_key (sy_tasks sy ! j) \<noteq> tk_key t" if "leads sy j" "j \<noteq> i" for j
    using flight_invD(6) [OF inv that(1) i] flight_invD(4) [OF inv that(1)] mine that(2) t f by auto
  have "\<exists>j. leads_flight sy' j k g" and "g < length (sy_heap sy') \<and> \<not> fl_done (sy_heap sy' ! g)" if g: "map_get (sy_flights sy') k = Some g" for k g
  proof -
    have k: "k \<noteq> tk_key t" "map_get (sy_flights sy) k = Some g" using g sy'(1) by (auto split: if_splits)
    obtain j where j: "leads_flight sy j k g" using flight_invD(3) [OF inv k(2)] by blast
    then have "j \<noteq> i" using k t by (auto simp: leads_flight_def)
    then show "\<exists>j. leads_flight sy' j k g" using j L task by (intro exI [of _ j]) (auto simp: leads_flight_def)
    have "g \<noteq> f" using other [of j] j \<open>j \<noteq> i\<close> by (auto simp: leads_flight_def)
    then show "g < length (sy_heap sy') \<and> \<not> fl_done (sy_heap sy' ! g)" using flight_invD(1,2) [OF inv k(2)] heap lens by simp
  qed
  moreover have "map_get (sy_flights sy') (tk_key (sy_tasks sy' ! j)) = Some (tk_flight (sy_tasks sy' ! j))
      \<and> (fl_callbackActive (sy_heap sy' ! tk_flight (sy_tasks sy' ! j)) \<longleftrightarrow> active_pc (tk_pc (sy_tasks sy' ! j)))" if "leads sy' j" for j
    using that L other [of j] flight_invD(4,5) [OF inv, of j] heap sy'(1) task by auto
  moreover have "j = k" if "leads sy' j" "leads sy' k" "tk_flight (sy_tasks sy' ! j) = tk_flight (sy_tasks sy' ! k)" for j k
    using that L flight_invD(6) [OF inv, of j k] task by auto
  moreover have "tk_flight (sy_tasks sy' ! j) < length (sy_heap sy') \<and> (fl_done (sy_heap sy' ! tk_flight (sy_tasks sy' ! j))
      \<or> map_get (sy_flights sy') (tk_key (sy_tasks sy' ! j)) = Some (tk_flight (sy_tasks sy' ! j)))" if "waits_on sy' j" for j
    using W [OF that] flight_invD(7,8) [OF inv, of j] heap lens sy'(1) task mine by auto
  ultimately show ?thesis by (rule flight_invI)
qed

section \<open>Preservation\<close>

lemma set_pc_sel [simp]:
  "sy_tasks (set_pc i pc sy) = (sy_tasks sy)[i := (sy_tasks sy ! i)\<lparr>tk_pc := pc\<rparr>]"
  "sy_world (set_pc i pc sy) = sy_world sy" "sy_flights (set_pc i pc sy) = sy_flights sy"
  "sy_heap (set_pc i pc sy) = sy_heap sy" "sy_calls (set_pc i pc sy) = sy_calls sy" "sy_queues (set_pc i pc sy) = sy_queues sy"
  by (simp_all add: set_pc_def)

lemma set_task_sel [simp]:
  "sy_tasks (set_task i t sy) = (sy_tasks sy)[i := t]"
  "sy_world (set_task i t sy) = sy_world sy" "sy_flights (set_task i t sy) = sy_flights sy"
  "sy_heap (set_task i t sy) = sy_heap sy" "sy_calls (set_task i t sy) = sy_calls sy" "sy_queues (set_task i t sy) = sy_queues sy"
  by (simp_all add: set_task_def)

lemma set_flight_sel [simp]:
  "sy_heap (set_flight f fl sy) = (sy_heap sy)[f := fl]"
  "sy_tasks (set_flight f fl sy) = sy_tasks sy" "sy_world (set_flight f fl sy) = sy_world sy"
  "sy_flights (set_flight f fl sy) = sy_flights sy" "sy_calls (set_flight f fl sy) = sy_calls sy"
  "sy_queues (set_flight f fl sy) = sy_queues sy"
  by (simp_all add: set_flight_def)

lemma tk_key_update [simp]: "tk_key (t\<lparr>tk_flight := f\<rparr>) = tk_key t" "tk_key (t\<lparr>tk_pc := pc\<rparr>) = tk_key t"
  by (simp_all add: tk_key_def)

text \<open>A call that is answered without leading is done.\<close>

lemma inv_answered:
  assumes inv: "flight_inv sy" and i: "i < length (sy_tasks sy)" "\<not> leader_pc (tk_pc (sy_tasks sy ! i))"
    and ans: "answer PDone r t f sy = (pc, sy1)" "\<And>io. io_world (snd (f io)) = io_world io" and pc': "tk_pc t' = pc"
  shows "flight_inv (set_task i t' sy1)"
proof -
  have o: "only_queues sy sy1" and pc: "\<exists>out. pc = PDone r out" using answer_only [OF ans] by auto
  show ?thesis
    by (rule inv_other_step [OF inv i]) (use o pc pc' in \<open>auto simp: only_queues_def\<close>)
qed

lemma start_step_inv:
  assumes inv: "flight_inv sy" and i: "i < length (sy_tasks sy)" "t = sy_tasks sy ! i" "tk_pc t = PStart"
  shows "flight_inv (start_step sv i t sy)"
proof (cases "map_get (sy_flights sy) (tk_key t)")
  case None
  have "flight_inv (set_task i (t\<lparr>tk_flight := length (sy_heap sy), tk_pc := PBegin CbLookup\<rparr>)
      (snd (snd (acquireFlight (tk_key t) (Sum256 (tk_content t)) sy))))"
    using None i by (intro inv_new_flight [OF inv i(1)]) (auto simp: acquireFlight_def)
  then show ?thesis using None by (simp add: start_step_def acquireFlight_def)
next
  case (Some f)
  let ?t = "\<lambda>pc. t\<lparr>tk_flight := f, tk_pc := pc\<rparr>"
  have wait: "flight_inv (set_task i (?t pc) sy)" if "pc = PActive \<or> pc = PWait" for pc
    using that Some i by (intro inv_other_step [OF inv i(1)]) auto
  have conflict: "flight_inv (case answer PDone no_result t (send_error sv fr c m b ts) sy of (pc, sy2) \<Rightarrow> set_task i (?t pc) sy2)" for fr c m b ts
    using inv_answered [OF inv i(1)] i by (auto split: prod.splits)
  show ?thesis using Some wait conflict by (simp add: start_step_def acquireFlight_def Let_def)
qed

lemma task_step_inv:
  assumes inv: "flight_inv sy" and i: "i < length (sy_tasks sy)" and step: "task_step sv i sy = Some sy'"
  shows "flight_inv sy'"
proof -
  define t f where "t = sy_tasks sy ! i" and "f = tk_flight t"
  note leader = inv_leader_step [OF inv _ t_def f_def]
  have pcdone: "flight_inv (set_pc i pc sy1)"
    if "answer PDone r t g sy = (pc, sy1)" "\<And>io. io_world (snd (g io)) = io_world io" "\<not> leader_pc (tk_pc t)" for pc sy1 r g
  proof -
    have "sy_tasks sy1 = sy_tasks sy" using answer_only [OF that(1,2)] by (simp add: only_queues_def)
    then have "set_pc i pc sy1 = set_task i (t\<lparr>tk_pc := pc\<rparr>) sy1" by (simp add: set_pc_def set_task_def t_def)
    then show ?thesis using inv_answered [OF inv i _ that(1,2)] that(3) by (simp add: t_def)
  qed
  show ?thesis
  proof (cases "leader_pc (tk_pc t)")
    case False
    then show ?thesis
      using step start_step_inv [OF inv i t_def] pcdone
      by (cases "tk_pc t") (auto simp: task_step_def Let_def t_def [symmetric] f_def [symmetric] split: prod.splits option.splits if_splits)
  next
    case True
    then have L: "leads sy i" using i by (simp add: leads_def t_def)
    have mine: "map_get (sy_flights sy) (tk_key t) = Some f" "fl_callbackActive (sy_heap sy ! f) \<longleftrightarrow> active_pc (tk_pc t)"
      using flight_invD(4,5) [OF inv L] by (simp_all add: t_def f_def)
    show ?thesis
    proof (cases "tk_pc t")
      case (PBegin cb)
      then have "sy' = set_pc i (PRun cb) (set_flight f ((sy_heap sy ! f)\<lparr>fl_callbackActive := True\<rparr>) sy)"
        using step mine by (simp add: task_step_def Let_def t_def [symmetric] f_def [symmetric] begin_callback_def)
      then show ?thesis
        by (intro leader [OF L, of sy' "PRun cb" "(sy_heap sy ! f)\<lparr>fl_callbackActive := True\<rparr>"]) (simp_all add: t_def)
    next
      case (PRun cb)
      then show ?thesis using step mine
        by (intro leader [OF L, of sy' "tk_pc (sy_tasks sy' ! i)" "sy_heap sy ! f"])
          (use i in \<open>auto simp: task_step_def Let_def t_def [symmetric] f_def [symmetric] split: prod.splits\<close>)
    next
      case (PEnd cb r)
      obtain pc sy1 where a: "after_callback sv t cb (recover_result r) (end_callback f sy) = (pc, sy1)" by fastforce
      then have "sy' = set_pc i pc sy1" using step PEnd by (simp add: task_step_def Let_def t_def [symmetric] f_def [symmetric])
      then show ?thesis
        using after_callback_only [OF a]
        by (intro leader [OF L, of sy' pc "(sy_heap sy ! f)\<lparr>fl_callbackActive := False\<rparr>"])
          (auto simp: only_queues_def end_callback_def idle_leader_def t_def)
    next
      case (PSend ack)
      obtain pc sy1 where a: "answer PFinish no_result t (enqueueFrame sv ack) sy = (pc, sy1)" by fastforce
      then have "sy' = set_pc i pc sy1" using step PSend by (simp add: task_step_def Let_def t_def [symmetric] f_def [symmetric])
      then show ?thesis
        using answer_only [OF a] mine PSend
        by (intro leader [OF L, of sy' pc "sy_heap sy ! f"]) (auto simp: only_queues_def t_def)
    next
      case (PFinish r out)
      then have "sy' = set_pc i (PDone r out) (finishFlight (tk_key t) f sy)"
        using step by (simp add: task_step_def Let_def t_def [symmetric] f_def [symmetric])
      then show ?thesis using mine by (intro inv_finish [OF inv L t_def f_def]) (auto simp: finishFlight_def t_def)
    qed (use True step mine in \<open>auto simp: task_step_def Let_def t_def [symmetric] f_def [symmetric] setFlightACK_def intro!: leader [OF L]\<close>)
  qed
qed

lemma send_step_inv:
  assumes "flight_inv sy" "send_step sv env sy sy'"
  shows "flight_inv sy'"
  using assms(2)
proof (cases rule: send_step.cases)
  case (spawn now w frame payload queue)
  have "leads sy' j \<longleftrightarrow> leads sy j" "waits_on sy' j \<longleftrightarrow> waits_on sy j" for j
    using spawn by (auto simp: leads_def waits_on_def nth_append less_Suc_eq)
  moreover have "sy_tasks sy' ! j = sy_tasks sy ! j" if "leads sy j \<or> waits_on sy j" for j
    using spawn that by (auto simp: leads_def waits_on_def nth_append)
  ultimately show ?thesis
    using assms(1) spawn(1) unfolding flight_inv_def leads_flight_def by (auto 4 4)
next
  case (task i)
  then show ?thesis using task_step_inv assms(1) by blast
next
  case (cancel i e)
  then show ?thesis by (intro inv_other_step [OF assms(1), of i]) auto
next
  case (environment w)
  then show ?thesis by (intro flight_inv_cong [OF assms(1)]) simp_all
qed

lemma send_reach_inv: "send_reach sv env w0 sy \<Longrightarrow> flight_inv sy"
proof (induction rule: send_reach.induct)
  case (init queues)
  then show ?case by (simp add: flight_inv_def send_init_def leads_def waits_on_def)
qed (use send_step_inv in blast)

end
