(* ===== verification/Server_Memory.thy ===== *)
theory Server_Memory
  imports Server_Resume
begin

text \<open>
  A server on the in-memory stores and the test clock, as \<open>examples/basic\<close> builds it: the state of
  the collaborators is the clock, the three stores and whatever the application keeps.
\<close>

section \<open>The world of a memory server\<close>

record 'a memory_world =
  mw_clock :: FakeClock
  mw_sessions :: MemorySessionRepository
  mw_dedup :: MemoryDedupStore
  mw_replay :: MemoryReplayStore
  mw_app :: 'a

definition new_world :: "time \<Rightarrow> duration \<Rightarrow> 'a \<Rightarrow> 'a memory_world" where
  "new_world t ttl a = \<lparr>mw_clock = NewFakeClock t, mw_sessions = NewMemorySessionRepository,
     mw_dedup = NewMemoryDedupStore ttl, mw_replay = NewMemoryReplayStore, mw_app = a\<rparr>"

definition memory_now :: "'a memory_world clock" where
  "memory_now w = (FakeClock_Now (mw_clock w), w)"

text \<open>Injected code that acts on the application's state only.\<close>

definition on_app :: "('a, 'b) call \<Rightarrow> ('a memory_world, 'b) call" where
  "on_app f w = (let (r, a) = f (mw_app w) in (r, w\<lparr>mw_app := a\<rparr>))"

definition of_option :: "go_error option \<Rightarrow> unit outcome" where
  "of_option e = (case e of None \<Rightarrow> Ret () | Some e \<Rightarrow> Err e)"

definition memory_sessions :: "'a memory_world SessionRepository" where
  "memory_sessions = \<lparr>sr_Create = (\<lambda>st w. let (e, s) = session_Create st (mw_sessions w) in (of_option e, w\<lparr>mw_sessions := s\<rparr>)),
     sr_Lookup = (\<lambda>sid now w. (Ret (session_Lookup sid now (mw_sessions w)), w))\<rparr>"

definition memory_dedup :: "duration \<Rightarrow> 'a memory_world ServerSessionStore" where
  "memory_dedup ttl = \<lparr>
     ds_Claim = (\<lambda>sid mid fp w. let (r, s) = Claim (FakeClock_Now (mw_clock w)) sid mid fp (mw_dedup w) in (Ret r, w\<lparr>mw_dedup := s\<rparr>)),
     ds_Complete = (\<lambda>sid mid ack w. let (e, s) = Complete (FakeClock_Now (mw_clock w)) sid mid (Some ack) (mw_dedup w) in (of_option e, w\<lparr>mw_dedup := s\<rparr>)),
     ds_Abort = (\<lambda>sid mid w. (Ret (), w\<lparr>mw_dedup := Abort sid mid (mw_dedup w)\<rparr>)),
     ds_Retention = Some (DedupRetentionTTL (Some (NewMemoryDedupStore ttl)))\<rparr>"

definition memory_replay :: "'a memory_world ReplayStore" where
  "memory_replay = \<lparr>re_CurrentSeq = (\<lambda>sid w. (Ret (CurrentSeq sid (mw_replay w)), w)),
     re_Replay = (\<lambda>sid a b limits w. (of_sum (Replay sid a b limits (mw_replay w)), w))\<rparr>"

definition memory_appender :: "'a memory_world EventAppender" where
  "memory_appender sid eid ty content ts w =
     (let (r, s) = Append sid eid ty content ts (mw_replay w) in (of_sum r, w\<lparr>mw_replay := s\<rparr>))"

definition memory_deps :: "duration \<Rightarrow> 'a ApplicationHandler \<Rightarrow> 'a memory_world ServerDependencies" where
  "memory_deps ttl app = \<lparr>de_Sessions = Some memory_sessions, de_Dedup = Some (memory_dedup ttl), de_Replay = Some memory_replay,
     de_Appender = Some memory_appender, de_Application = Some (\<lambda>mid content. on_app (app mid content))\<rparr>"

section \<open>Servers on memory stores\<close>

text \<open>A constructed server that runs on these collaborators, with the clock and an injector of its own kind.\<close>

definition memory_server :: "duration \<Rightarrow> 'a ApplicationHandler \<Rightarrow> 'a FailureInjector option \<Rightarrow> 'a memory_world ServerProtocol \<Rightarrow> bool" where
  "memory_server ttl app injector sv \<longleftrightarrow> sv_Now sv = memory_now \<and> sv_sessions sv = memory_sessions \<and> sv_dedup sv = memory_dedup ttl
     \<and> sv_replay sv = memory_replay \<and> sv_appender sv = memory_appender \<and> sv_app sv = (\<lambda>mid content. on_app (app mid content))
     \<and> sv_FailureInjector sv = map_option (\<lambda>f p. on_app (f p)) injector"

lemma NewServerProtocol_Inr:
  assumes "NewServerProtocol rt config deps = Inr sv"
  shows "check_server_config config (sv_Limits sv) (sv_Capabilities sv) (sv_MaxReplayBytes sv) = None"
    "sv_Limits sv = normalizeLimits (sf_Limits config)" "sv_FailureInjector sv = sf_FailureInjector config"
    "sv_SessionResumeTTL sv = sf_SessionResumeTTL config" "sv_StrictValidation sv = sf_StrictValidation config"
    "sf_Clock config = Some c \<Longrightarrow> sv_Now sv = c"
    "de_Sessions deps = Some (sv_sessions sv)" "de_Dedup deps = Some (sv_dedup sv)" "de_Replay deps = Some (sv_replay sv)"
    "de_Appender deps = Some (sv_appender sv)" "de_Application deps = Some (sv_app sv)"
    "check_retention config (sv_dedup sv) = None"
    "sv_MaxReplayEvents sv = (if sf_MaxReplayEvents config = 0 then DefaultMaxReplayEvents else sf_MaxReplayEvents config)"
    "sv_MaxReplayBytes sv = (if sf_MaxReplayBytes config = 0 then DefaultMaxReplayBytes else sf_MaxReplayBytes config)"
  using assms
  by (auto simp: NewServerProtocol_def Let_def require_def ebind_Inr split: option.splits)

lemma memory_server_new:
  assumes "NewServerProtocol rt config (memory_deps ttl app) = Inr sv" "sf_Clock config = Some memory_now"
    and "sf_FailureInjector config = map_option (\<lambda>f p. on_app (f p)) injector"
  shows "memory_server ttl app injector sv"
  using NewServerProtocol_Inr [OF assms(1)] assms(2,3) by (simp add: memory_server_def memory_deps_def)

text \<open>
  C34: Construction accepts only sound configurations: a constructed server has limits that pass
  validation, positive replay bounds, and lifetimes under which every session that can be resumed
  still has its events and its deduplication records, also in the store when it reports its retention.
\<close>

theorem NewServerProtocol_sound:
  assumes "NewServerProtocol rt config deps = Inr sv"
  shows "validateLimits (sv_Limits sv) = None \<and> normalizeLimits (sv_Limits sv) = sv_Limits sv
    \<and> registry_validate (Some (sv_Capabilities sv)) (sv_Limits sv) = None
    \<and> validateImplementedCapabilityRegistry (Some (sv_Capabilities sv)) = None
    \<and> 0 < sv_MaxReplayEvents sv \<and> 0 < sv_MaxReplayBytes sv \<and> 0 < sv_SessionResumeTTL sv
    \<and> sv_SessionResumeTTL sv \<le> sf_ReplayTTL config \<and> sv_SessionResumeTTL sv \<le> sf_DedupTTL config
    \<and> sf_ClientRetryTTL config \<le> sf_DedupTTL config
    \<and> (case ds_Retention (sv_dedup sv) of None \<Rightarrow> True
       | Some r \<Rightarrow> sv_SessionResumeTTL sv \<le> r \<and> sf_ClientRetryTTL config \<le> r)"
proof -
  note N = NewServerProtocol_Inr [OF assms]
  have max: "(DefaultMaxReplayEvents :: uint64) \<noteq> 0" "0 < DefaultMaxReplayBytes" by code_simp+
  have "0 < sv_MaxReplayEvents sv" using N(13) max(1) by (simp add: word_greater_zero_iff)
  moreover have "0 < sv_MaxReplayBytes sv"
    using N(1,14) max(2) by (auto simp: check_server_config_def split: option.splits if_splits)
  ultimately show ?thesis
    using N(1,2,4,12) validateLimits_normalized
    by (auto simp: check_server_config_def check_retention_def split: option.splits if_splits)
qed

section \<open>The server of the example\<close>

text \<open>
  \<open>examples/basic\<close>: the application only prints what it accepts; the printed lines are its state.
  Sessions get the identity \<open>s_demo\<close>.  The system's clock and randomness are not used.
\<close>

definition assistantApp :: "(string \<times> bytes) list ApplicationHandler" where
  "assistantApp idempotencyKey payload printed = (Ret (), printed @ [(idempotencyKey, payload)])"

definition example_runtime :: "'a memory_world runtime" where
  "example_runtime = \<lparr>rt_Now = memory_now, rt_Rand = (\<lambda>w. (Inl (ExternalError ''entropy''), w))\<rparr>"

definition example_config :: "'a memory_world ServerConfig" where
  "example_config = (DefaultServerConfig example_runtime)\<lparr>sf_Clock := Some memory_now, sf_NewSessionID := Some (\<lambda>w. (Ret ''s_demo'', w))\<rparr>"

definition example_server :: "(string \<times> bytes) list memory_world ServerProtocol" where
  "example_server = \<lparr>sv_Now = memory_now, sv_Limits = normalizeLimits DefaultLimits, sv_Capabilities = emptyCapabilityRegistry,
     sv_StateStore = None, sv_StateSnapshots = None, sv_SessionResumeTTL = 24 * hour, sv_StrictValidation = True,
     sv_MaxReplayEvents = DefaultMaxReplayEvents, sv_MaxReplayBytes = DefaultMaxReplayBytes,
     sv_NewSessionID = (\<lambda>w. (Ret ''s_demo'', w)), sv_NewFrameID = generator memory_now example_runtime DefaultFrameIDGenerator,
     sv_FailureInjector = None, sv_sessions = memory_sessions, sv_dedup = memory_dedup (24 * hour), sv_replay = memory_replay,
     sv_appender = memory_appender, sv_app = (\<lambda>mid content. on_app (assistantApp mid content))\<rparr>"

lemma example_config_ok:
  "check_server_config example_config (normalizeLimits DefaultLimits) emptyCapabilityRegistry DefaultMaxReplayBytes = None"
proof -
  have "validateLimits (normalizeLimits DefaultLimits) = None" "registry_validate (Some emptyCapabilityRegistry) (normalizeLimits DefaultLimits) = None"
    "validateImplementedCapabilityRegistry (Some emptyCapabilityRegistry) = None" "0 < DefaultMaxReplayBytes"
    by code_simp+
  then show ?thesis by (simp add: check_server_config_def example_config_def DefaultServerConfig_def hour_def)
qed

lemma example_config_sel:
  "sf_Clock example_config = Some memory_now" "sf_Limits example_config = DefaultLimits" "sf_Capabilities example_config = None"
  "sf_StateStore example_config = None" "sf_StateSnapshots example_config = None" "sf_SessionResumeTTL example_config = 24 * hour"
  "sf_DedupTTL example_config = 24 * hour" "sf_ClientRetryTTL example_config = hour"
  "sf_StrictValidation example_config = True" "sf_MaxReplayEvents example_config = DefaultMaxReplayEvents"
  "sf_MaxReplayBytes example_config = DefaultMaxReplayBytes" "sf_NewSessionID example_config = Some (\<lambda>w. (Ret ''s_demo'', w))"
  "sf_NewFrameID example_config = None" "sf_FailureInjector example_config = None"
  by (simp_all add: example_config_def DefaultServerConfig_def)

lemma example_retention: "check_retention example_config (memory_dedup (24 * hour)) = None"
  by (simp add: check_retention_def memory_dedup_def DedupRetentionTTL_def NewMemoryDedupStore_def example_config_sel hour_def)

lemma example_server_new: "NewServerProtocol example_runtime example_config (memory_deps (24 * hour) assistantApp) = Inr example_server"
proof -
  have "(DefaultMaxReplayEvents :: uint64) \<noteq> 0" "DefaultMaxReplayBytes \<noteq> 0" by code_simp+
  then show ?thesis
    by (simp add: NewServerProtocol_def example_config_sel example_config_ok example_retention memory_deps_def require_def
        example_server_def Let_def)
qed

lemma example_server_memory: "memory_server (24 * hour) assistantApp None example_server"
  by (rule memory_server_new [OF example_server_new]) (simp_all add: example_config_def DefaultServerConfig_def)

theorem NewServerProtocol_sound_witness:
  "validateLimits (sv_Limits example_server) = None \<and> sv_SessionResumeTTL example_server \<le> sf_DedupTTL (example_config :: unit memory_world ServerConfig)"
  using NewServerProtocol_sound [OF example_server_new] by (simp add: example_config_def DefaultServerConfig_def)

end
