(* ===== verification/Send_Once.thy ===== *)
theory Send_Once
  imports Send_Flight_Inv Server_Memory
begin

text \<open>
  What holds of every interleaving of SENDs: every call returns, and the application gets each SEND at
  most once as long as the deduplication store keeps its contract.
\<close>

section \<open>Results of callbacks\<close>

fun cb_matches :: "send_cb \<Rightarrow> cb_result \<Rightarrow> bool" where
  "cb_matches CbLookup r = (\<exists>x. r = RLookup x)"
| "cb_matches CbClaim r = (\<exists>x. r = RClaim x)"
| "cb_matches cb r = (\<exists>x. r = RUnit x)"

fun pc_ok :: "send_pc \<Rightarrow> bool" where
  "pc_ok (PEnd cb r) = cb_matches cb r"
| "pc_ok pc = True"

lemma run_callback_matches: "run_callback sv t cb w = (r, w') \<Longrightarrow> cb_matches cb r"
  by (cases cb) (auto simp: run_callback_def Let_def apfst_def map_prod_def split: prod.splits)

lemma recover_matches [simp]: "cb_matches cb (recover_result r) \<longleftrightarrow> cb_matches cb r"
  by (cases cb; cases r) (auto simp: recover_result_def)

lemma refused_matches: "cb_matches cb (callback_refused cb)"
  by (cases cb) (auto simp: callback_refused_def Let_def)

section \<open>Every call returns\<close>

text \<open>How many steps a call may still take.\<close>

fun cb_rank :: "send_cb \<Rightarrow> nat" where
  "cb_rank CbLookup = 7" | "cb_rank CbClaim = 6" | "cb_rank CbAfterClaim = 5" | "cb_rank CbApp = 4"
| "cb_rank CbAfterApp = 3" | "cb_rank CbComplete = 2" | "cb_rank CbAfterComplete = 1"

fun pc_rank :: "send_pc \<Rightarrow> nat" where
  "pc_rank PStart = 40" | "pc_rank PActive = 1" | "pc_rank PWait = 1" | "pc_rank (PDone r out) = 0"
| "pc_rank (PBegin cb) = 4 * cb_rank cb + 6" | "pc_rank (PRun cb) = 4 * cb_rank cb + 5" | "pc_rank (PEnd cb r) = 4 * cb_rank cb + 4"
| "pc_rank PSetAck = 11" | "pc_rank (PStored ack) = 3" | "pc_rank (PSend ack) = 2" | "pc_rank (PFinish r out) = 1"

lemma next_existing_rank: "next_existing sv t x sy = (pc, sy') \<Longrightarrow> pc_rank pc \<le> 3"
  by (auto simp: next_existing_def answer_def Let_def split: option.splits DedupState.splits if_splits prod.splits)

lemma after_callback_rank:
  assumes "after_callback sv t cb r sy = (pc, sy')" "cb_matches cb r"
  shows "pc_rank pc < 4 * cb_rank cb + 4"
proof (cases cb)
  case CbLookup
  then show ?thesis using assms
    by (auto simp: after_callback_def answer_def Let_def split: outcome.splits option.splits prod.splits)
next
  case CbClaim
  then show ?thesis using assms next_existing_rank [of sv t _ sy]
    by (fastforce simp: after_callback_def split: outcome.splits prod.splits if_splits)
qed (use assms in \<open>auto simp: after_callback_def next_unit_def answer_def Let_def split: outcome.splits option.splits prod.splits\<close>)

definition total_rank :: "'w send_sys \<Rightarrow> nat" where
  "total_rank sy = sum_list (map (pc_rank \<circ> tk_pc) (sy_tasks sy))"

definition task_rel :: "'w ServerProtocol \<Rightarrow> 'w send_sys \<Rightarrow> 'w send_sys \<Rightarrow> bool" where
  "task_rel sv sy sy' \<longleftrightarrow> (\<exists>i < length (sy_tasks sy). task_step sv i sy = Some sy')"

lemma sum_list_update_less:
  "i < length xs \<Longrightarrow> f y < f (xs ! i) \<Longrightarrow> sum_list (map f (xs[i := y])) < (sum_list (map f xs) :: nat)"
proof (induction xs arbitrary: i)
  case (Cons x xs)
  then show ?case by (cases i) auto
qed simp

lemma idle_pc_ok: "idle_leader pc \<Longrightarrow> pc_ok pc"
  by (cases pc) (auto simp: idle_leader_def)

text \<open>A call that has won its claim and has not yet called the application.\<close>

fun armed_pc :: "send_pc \<Rightarrow> bool" where
  "armed_pc (PEnd CbClaim (RClaim (Ret (claimed, r)))) = claimed"
| "armed_pc (PBegin cb) = (cb = CbAfterClaim \<or> cb = CbApp)"
| "armed_pc (PRun cb) = (cb = CbAfterClaim \<or> cb = CbApp)"
| "armed_pc (PEnd cb r) = (cb = CbAfterClaim)"
| "armed_pc pc = False"

lemma next_existing_unarmed: "next_existing sv t x sy = (pc, sy') \<Longrightarrow> \<not> armed_pc pc"
  by (auto simp: next_existing_def answer_def Let_def split: option.splits DedupState.splits if_splits prod.splits)

lemma after_callback_armed:
  assumes "after_callback sv t cb r sy = (pc, sy')" "cb_matches cb r" "armed_pc pc"
  shows "cb = CbAfterClaim \<or> (\<exists>x. cb = CbClaim \<and> r = RClaim (Ret (True, x)))"
proof (cases cb)
  case CbClaim
  then show ?thesis using assms next_existing_unarmed [of sv t _ sy]
    by (fastforce simp: after_callback_def split: outcome.splits prod.splits if_splits)
qed (use assms in \<open>auto simp: after_callback_def next_unit_def answer_def Let_def split: outcome.splits option.splits prod.splits\<close>)

lemma refused_unarmed: "after_callback sv t cb (callback_refused cb) sy = (pc, sy') \<Longrightarrow> \<not> armed_pc pc"
  by (cases cb) (auto simp: after_callback_def callback_refused_def answer_def Let_def split: prod.splits)

definition plain_step :: "'w send_sys \<Rightarrow> 'w send_sys \<Rightarrow> send_pc \<Rightarrow> send_pc \<Rightarrow> bool" where
  "plain_step sy sy' pc pc' \<longleftrightarrow> sy_world sy' = sy_world sy \<and> sy_calls sy' = sy_calls sy \<and> (armed_pc pc' \<longrightarrow> armed_pc pc)"

text \<open>
  A step of a task changes that task only and leaves it fewer steps; unless it runs a callback the
  collaborators' state stays, and it does not become armed.
\<close>

lemma task_step_task:
  assumes step: "task_step sv i sy = Some sy'" and i: "i < length (sy_tasks sy)" and ok: "pc_ok (tk_pc (sy_tasks sy ! i))"
  shows "\<exists>t'. sy_tasks sy' = (sy_tasks sy)[i := t'] \<and> pc_rank (tk_pc t') < pc_rank (tk_pc (sy_tasks sy ! i)) \<and> pc_ok (tk_pc t')
    \<and> tk_frame t' = tk_frame (sy_tasks sy ! i)
    \<and> ((\<exists>cb. tk_pc (sy_tasks sy ! i) = PRun cb) \<or> plain_step sy sy' (tk_pc (sy_tasks sy ! i)) (tk_pc t'))"
proof -
  define t f where "t = sy_tasks sy ! i" and "f = tk_flight t"
  note step' = step [unfolded task_step_def Let_def, folded t_def, folded f_def]
  have pc: ?thesis if "sy' = set_pc i pc sy1" "sy_tasks sy1 = sy_tasks sy" "pc_rank pc < pc_rank (tk_pc t)" "pc_ok pc"
    "plain_step sy sy1 (tk_pc t) pc" for pc sy1
    using that by (intro exI [of _ "t\<lparr>tk_pc := pc\<rparr>"]) (simp add: t_def plain_step_def)
  have dn: ?thesis if "answer ret r t g sy = (p, sy1)" "\<And>io. io_world (snd (g io)) = io_world io" "sy' = set_pc i p sy1"
    "\<And>out. pc_rank (ret r out) < pc_rank (tk_pc t)" "\<And>out. pc_ok (ret r out)" "\<And>out. \<not> armed_pc (ret r out)" for ret r g p sy1
    using answer_only [OF that(1,2)] pc [OF that(3)] that(4,5,6) by (auto simp: only_queues_def plain_step_def)
  have cb: ?thesis if "after_callback sv t cb r sy1 = (p, sy2)" "cb_matches cb r" "sy' = set_pc i p sy2" "sy_tasks sy1 = sy_tasks sy"
    "4 * cb_rank cb + 4 \<le> pc_rank (tk_pc t)" "plain_step sy sy1 (tk_pc t) p" for cb r p sy1 sy2
    using after_callback_only [OF that(1)] after_callback_rank [OF that(1,2)] pc [OF that(3)] that(4-) idle_pc_ok
    by (auto simp: only_queues_def plain_step_def)
  show ?thesis
  proof (cases "tk_pc t")
    case PStart
    have ans: "\<exists>out. p = PDone no_result out \<and> only_queues sy sy1" if "answer PDone no_result t (send_error sv fr c m b ts) sy = (p, sy1)" for fr c m b ts p sy1
      using answer_only [OF that] by auto
    show ?thesis
      using step' PStart
      by (auto simp: start_step_def acquireFlight_def t_def [symmetric] Let_def plain_step_def only_queues_def
          split: option.splits if_splits prod.splits dest!: ans)
  next
    case PActive
    show ?thesis using step' PActive dn by (auto split: prod.splits option.splits)
  next
    case PWait
    show ?thesis using step' PWait dn by (auto split: prod.splits if_splits)
  next
    case (PBegin c)
    show ?thesis
    proof (cases "begin_callback (tk_key t) f sy")
      case None
      then obtain p sy1 where a: "after_callback sv t c (callback_refused c) sy = (p, sy1)" "sy' = set_pc i p sy1"
        using step' PBegin by (auto split: prod.splits)
      then show ?thesis using cb [OF a(1) refused_matches a(2)] refused_unarmed [OF a(1)] PBegin by (simp add: plain_step_def)
    next
      case (Some sy1)
      then show ?thesis using step' PBegin by (intro pc [of "PRun c" sy1]) (auto simp: begin_callback_def plain_step_def split: if_splits)
    qed
  next
    case (PRun c)
    obtain r w where r: "run_callback sv t c (sy_world sy) = (r, w)" by fastforce
    then show ?thesis
      using step' PRun run_callback_matches [OF r] by (intro exI [of _ "t\<lparr>tk_pc := PEnd c r\<rparr>"]) (auto simp: t_def)
  next
    case (PEnd c r)
    then have m: "cb_matches c (recover_result r)" using ok by (simp add: t_def)
    obtain p sy1 where a: "after_callback sv t c (recover_result r) (end_callback f sy) = (p, sy1)" "sy' = set_pc i p sy1"
      using step' PEnd by (auto split: prod.splits)
    have "armed_pc p \<Longrightarrow> armed_pc (PEnd c r)"
      using after_callback_armed [OF a(1) m] by (cases r) (auto simp: recover_result_def recover_send_def split: outcome.splits)
    then show ?thesis using cb [OF a(1) m a(2)] PEnd by (auto simp: end_callback_def plain_step_def)
  next
    case (PSend ack)
    show ?thesis using step' PSend dn by (auto split: prod.splits)
  qed (use step' pc in \<open>auto simp: setFlightACK_def finishFlight_def plain_step_def\<close>)
qed

lemma task_step_rank:
  assumes "task_step sv i sy = Some sy'" "i < length (sy_tasks sy)" "pc_ok (tk_pc (sy_tasks sy ! i))"
  shows "total_rank sy' < total_rank sy"
  using task_step_task [OF assms] sum_list_update_less [OF assms(2), of "pc_rank \<circ> tk_pc"] by (auto simp: total_rank_def)

definition pcs_ok :: "'w send_sys \<Rightarrow> bool" where
  "pcs_ok sy \<longleftrightarrow> (\<forall>t \<in> set (sy_tasks sy). pc_ok (tk_pc t))"

lemma task_step_pcs:
  assumes "task_step sv i sy = Some sy'" "i < length (sy_tasks sy)" "pcs_ok sy"
  shows "pcs_ok sy'"
proof -
  have "pc_ok (tk_pc (sy_tasks sy ! i))" using assms(2,3) by (simp add: pcs_ok_def)
  then show ?thesis
    using task_step_task [OF assms(1,2)] assms(3) set_update_subset_insert [of "sy_tasks sy" i] by (fastforce simp: pcs_ok_def)
qed

lemma send_step_pcs:
  assumes "send_step sv env sy sy'" "pcs_ok sy"
  shows "pcs_ok sy'"
  using assms(1)
proof (cases rule: send_step.cases)
  case (task i)
  then show ?thesis using task_step_pcs assms(2) by blast
next
  case (cancel i e)
  then show ?thesis using assms(2) set_update_subset_insert [of "sy_tasks sy" i] by (fastforce simp: pcs_ok_def)
qed (use assms(2) in \<open>auto simp: pcs_ok_def\<close>)

lemma send_reach_pcs: "send_reach sv env w0 sy \<Longrightarrow> pcs_ok sy"
  by (induction rule: send_reach.induct) (auto simp: pcs_ok_def send_init_def intro: send_step_pcs [unfolded pcs_ok_def, rule_format])

definition all_returned :: "'w send_sys \<Rightarrow> bool" where
  "all_returned sy \<longleftrightarrow> list_all (\<lambda>t. case tk_pc t of PDone r out \<Rightarrow> True | _ \<Rightarrow> False) (sy_tasks sy)"

lemma returned_rank: "(case pc of PDone r out \<Rightarrow> True | _ \<Rightarrow> False) \<longleftrightarrow> pc_rank pc = 0"
  by (cases pc) simp_all

text \<open>No deadlock: a call that waits has a leader that can step.\<close>

lemma leader_steps: "leader_pc (tk_pc (sy_tasks sy ! i)) \<Longrightarrow> task_step sv i sy \<noteq> None"
  by (cases "tk_pc (sy_tasks sy ! i)") (auto simp: task_step_def Let_def split: option.splits prod.splits)

lemma some_task_steps:
  assumes inv: "flight_inv sy" and open_call: "\<not> all_returned sy"
  shows "\<exists>sy'. task_rel sv sy sy'"
proof -
  obtain i where i: "i < length (sy_tasks sy)" "pc_rank (tk_pc (sy_tasks sy ! i)) \<noteq> 0"
    using open_call by (auto simp: all_returned_def list_all_length returned_rank)
  have "\<exists>j < length (sy_tasks sy). task_step sv j sy \<noteq> None"
  proof (cases "tk_pc (sy_tasks sy ! i) = PWait \<and> \<not> fl_done (sy_heap sy ! tk_flight (sy_tasks sy ! i))")
    case True
    then have "map_get (sy_flights sy) (tk_key (sy_tasks sy ! i)) = Some (tk_flight (sy_tasks sy ! i))"
      using flight_invD(8) [OF inv, of i] i(1) by (simp add: waits_on_def)
    then show ?thesis using flight_invD(3) [OF inv] leader_steps by (fastforce simp: leads_flight_def leads_def)
  next
    case False
    then have "task_step sv i sy \<noteq> None"
      using i(2) leader_steps [of sy i sv]
      by (cases "tk_pc (sy_tasks sy ! i)") (auto simp: task_step_def Let_def split: prod.splits)
    then show ?thesis using i(1) by blast
  qed
  then show ?thesis by (auto simp: task_rel_def)
qed

lemma pc_rank_le: "pc_rank pc \<le> 40"
proof (cases pc)
  case (PBegin cb) then show ?thesis by (cases cb) auto
next
  case (PRun cb) then show ?thesis by (cases cb) auto
next
  case (PEnd cb r) then show ?thesis by (cases cb) auto
qed simp_all

lemma total_rank_le: "total_rank sy \<le> 40 * length (sy_tasks sy)"
proof -
  have "sum_list (map (pc_rank \<circ> tk_pc) ts) \<le> 40 * length ts" for ts
    by (induction ts) (use pc_rank_le in \<open>auto intro: add_mono\<close>)
  then show ?thesis by (simp add: total_rank_def)
qed

lemma task_run:
  assumes "(task_rel sv ^^ n) sy sy'" "pcs_ok sy" "flight_inv sy"
  shows "n + total_rank sy' \<le> total_rank sy \<and> pcs_ok sy' \<and> flight_inv sy'"
  using assms(1)
proof (induction n arbitrary: sy')
  case 0
  then show ?case using assms(2,3) by simp
next
  case (Suc n)
  then obtain sy1 where run: "(task_rel sv ^^ n) sy sy1" and rel: "task_rel sv sy1 sy'" by auto
  from rel obtain i where i: "i < length (sy_tasks sy1)" "task_step sv i sy1 = Some sy'" by (auto simp: task_rel_def)
  note IH = Suc.IH [OF run]
  then have "pc_ok (tk_pc (sy_tasks sy1 ! i))" using i(1) by (simp add: pcs_ok_def)
  then show ?case
    using IH task_step_rank [OF i(2,1)] task_step_pcs [OF i(2,1)] task_step_inv [OF _ i] by fastforce
qed

lemma task_run_finishes:
  assumes "pcs_ok sy" "flight_inv sy"
  shows "\<exists>n sy'. (task_rel sv ^^ n) sy sy' \<and> all_returned sy'"
  using assms
proof (induction "total_rank sy" arbitrary: sy rule: less_induct)
  case less
  show ?case
  proof (cases "all_returned sy")
    case True
    then show ?thesis by (intro exI [of _ 0]) auto
  next
    case False
    then obtain sy1 where step: "task_rel sv sy sy1" using some_task_steps [OF less.prems(2)] by blast
    then have "(task_rel sv ^^ 1) sy sy1" by (simp only: relpowp_1)
    from task_run [OF this less.prems] obtain n sy' where "(task_rel sv ^^ n) sy1 sy'" "all_returned sy'"
      using less.hyps [of sy1] by auto
    then show ?thesis using step relpowp_Suc_I2 by metis
  qed
qed

text \<open>
  C4: Every SEND returns.  From every state that any interleaving of SENDs reaches, the calls under way
  make at most forty steps each in whatever order they are scheduled; as long as one has not returned
  some call can step (a waiting retry always has a running original, or one that has finished), and some
  schedule lets all of them return.  The injected callbacks are taken to return.
\<close>

theorem sends_terminate:
  assumes "send_reach sv env w0 sy"
  shows "(\<forall>n sy'. (task_rel sv ^^ n) sy sy' \<longrightarrow>
            n \<le> 40 * length (sy_tasks sy) \<and> (all_returned sy' \<or> (\<exists>sy''. task_rel sv sy' sy'')))
    \<and> (\<exists>n sy'. (task_rel sv ^^ n) sy sy' \<and> all_returned sy')"
proof -
  note ok = send_reach_pcs [OF assms] send_reach_inv [OF assms]
  have "n \<le> 40 * length (sy_tasks sy) \<and> (all_returned sy' \<or> (\<exists>sy''. task_rel sv sy' sy''))"
    if "(task_rel sv ^^ n) sy sy'" for n sy'
    using task_run [OF that ok] total_rank_le [of sy] some_task_steps [of sy' sv] by fastforce
  then show ?thesis using task_run_finishes [OF ok] by blast
qed

section \<open>At most one call of the application\<close>

definition armed :: "string \<Rightarrow> 'w send_sys \<Rightarrow> nat" where
  "armed key sy = length (filter (\<lambda>t. tk_key t = key \<and> armed_pc (tk_pc t)) (sy_tasks sy))"

definition calls_of :: "string \<Rightarrow> 'w send_sys \<Rightarrow> nat" where
  "calls_of key sy = length (filter (\<lambda>(s, m, c). dedupKey s m = key) (sy_calls sy))"

lemma filter_update:
  "i < length xs \<Longrightarrow> length (filter P (xs[i := y])) + (if P (xs ! i) then 1 else 0) = length (filter P xs) + (if P y then 1 else 0)"
proof (induction xs arbitrary: i)
  case (Cons x xs)
  then show ?case by (cases i) auto
qed simp


text \<open>
  What the deduplication store and the rest of the injected code promise: while \<open>ok\<close> holds no call
  gives up a taken identity, and a claim is won only of an identity that was not taken.
\<close>

definition keeps :: "('w \<Rightarrow> bool) \<Rightarrow> ('w \<Rightarrow> string \<Rightarrow> bool) \<Rightarrow> 'w \<Rightarrow> 'w \<Rightarrow> bool" where
  "keeps ok taken w w' \<longleftrightarrow> ok w' \<and> (\<forall>k. taken w k \<longrightarrow> taken w' k)"

locale send_world =
  fixes sv :: "'w ServerProtocol" and env :: "'w \<Rightarrow> 'w \<Rightarrow> bool" and ok :: "'w \<Rightarrow> bool" and taken :: "'w \<Rightarrow> string \<Rightarrow> bool"
  assumes now_keeps: "ok w \<Longrightarrow> keeps ok taken w (snd (sv_Now sv w))"
    and lookup_keeps: "ok w \<Longrightarrow> keeps ok taken w (snd (sr_Lookup (sv_sessions sv) s n w))"
    and claim_keeps: "ok w \<Longrightarrow> keeps ok taken w (snd (ds_Claim (sv_dedup sv) s m fp w))"
    and claim_won: "ok w \<Longrightarrow> ds_Claim (sv_dedup sv) s m fp w = (Ret (True, x), w') \<Longrightarrow> \<not> taken w (dedupKey s m) \<and> taken w' (dedupKey s m)"
    and complete_keeps: "ok w \<Longrightarrow> keeps ok taken w (snd (ds_Complete (sv_dedup sv) s m ack w))"
    and app_keeps: "ok w \<Longrightarrow> keeps ok taken w (snd (sv_app sv m c w))"
    and inject_keeps: "ok w \<Longrightarrow> keeps ok taken w (snd (inject sv p w))"
    and env_keeps: "ok w \<Longrightarrow> env w w' \<Longrightarrow> keeps ok taken w w'"
begin

definition once_inv :: "'w send_sys \<Rightarrow> bool" where
  "once_inv sy \<longleftrightarrow> ok (sy_world sy) \<and> (\<forall>key. armed key sy + calls_of key sy \<le> (if taken (sy_world sy) key then 1 else 0))"

lemma callback_keeps: "ok w \<Longrightarrow> keeps ok taken w (snd (run_callback sv t cb w))"
  by (cases cb) (simp_all add: run_callback_def Let_def lookup_keeps claim_keeps complete_keeps app_keeps inject_keeps)

lemma once_mono:
  assumes "once_inv sy" "keeps ok taken (sy_world sy) (sy_world sy')"
    and "\<And>key. armed key sy' + calls_of key sy' \<le> armed key sy + calls_of key sy"
  shows "once_inv sy'"
  unfolding once_inv_def
proof (intro conjI allI)
  show "ok (sy_world sy')" using assms(2) by (simp add: keeps_def)
  fix key
  have "armed key sy + calls_of key sy \<le> (if taken (sy_world sy) key then 1 else 0)" using assms(1) by (simp add: once_inv_def)
  moreover have "taken (sy_world sy) key \<Longrightarrow> taken (sy_world sy') key" using assms(2) by (simp add: keeps_def)
  ultimately show "armed key sy' + calls_of key sy' \<le> (if taken (sy_world sy') key then 1 else 0)"
    using assms(3) [of key] by (auto split: if_splits)
qed

lemma once_run:
  assumes inv: "once_inv sy" and i: "i < length (sy_tasks sy)" and pc: "tk_pc (sy_tasks sy ! i) = PRun cb"
    and step: "task_step sv i sy = Some sy'"
  shows "once_inv sy'"
proof -
  define t where "t = sy_tasks sy ! i"
  obtain r w where r: "run_callback sv t cb (sy_world sy) = (r, w)" by fastforce
  have ok: "ok (sy_world sy)" using inv by (simp add: once_inv_def)
  have kp: "keeps ok taken (sy_world sy) w" using callback_keeps [OF ok, of t cb] r by simp
  have sy': "sy_tasks sy' = (sy_tasks sy)[i := t\<lparr>tk_pc := PEnd cb r\<rparr>]" "sy_world sy' = w"
    "sy_calls sy' = (if cb = CbApp then sy_calls sy @ [(env_SessionID (tk_frame t), env_ID (tk_frame t), tk_content t)] else sy_calls sy)"
    using step pc r by (auto simp: task_step_def Let_def t_def)
  have calls: "calls_of key sy' = calls_of key sy + (if cb = CbApp \<and> tk_key t = key then 1 else 0)" for key
    using sy'(3) by (simp add: calls_of_def tk_key_def)
  have count: "armed key sy' + (if tk_key t = key \<and> armed_pc (PRun cb) then 1 else 0)
      = armed key sy + (if tk_key t = key \<and> armed_pc (PEnd cb r) then 1 else 0)" for key
    using filter_update [OF i, of "\<lambda>t. tk_key t = key \<and> armed_pc (tk_pc t)" "t\<lparr>tk_pc := PEnd cb r\<rparr>"] pc sy'(1)
    by (simp add: armed_def t_def)
  show ?thesis
  proof (cases "cb = CbClaim \<and> armed_pc (PEnd cb r)")
    case True
    then obtain x where x: "r = RClaim (Ret (True, x))" using run_callback_matches [OF r] by (cases r) (auto elim!: armed_pc.elims)
    then have "ds_Claim (sv_dedup sv) (env_SessionID (tk_frame t)) (env_ID (tk_frame t)) (Sum256 (tk_content t)) (sy_world sy) = (Ret (True, x), w)"
      using r True by (auto simp: run_callback_def Let_def apfst_def map_prod_def split: prod.splits)
    from claim_won [OF ok this] have won: "\<not> taken (sy_world sy) (tk_key t)" "taken w (tk_key t)" by (simp_all add: tk_key_def)
    have "armed key sy + calls_of key sy \<le> (if taken (sy_world sy) key then 1 else 0)" for key using inv by (simp add: once_inv_def)
    then have "armed key sy' + calls_of key sy' \<le> (if taken w key then 1 else 0)" for key
      using count [of key] calls [of key] True won kp by (cases "tk_key t = key") (fastforce simp: keeps_def split: if_splits)+
    then show ?thesis using kp sy'(2) by (simp add: once_inv_def keeps_def)
  next
    case False
    then have "armed key sy' + calls_of key sy' \<le> armed key sy + calls_of key sy" for key
      using count [of key] calls [of key] by (cases cb) (auto split: if_splits)
    then show ?thesis using once_mono [OF inv] kp sy'(2) by simp
  qed
qed

lemma once_task:
  assumes inv: "once_inv sy" and pcs: "pcs_ok sy" and i: "i < length (sy_tasks sy)" and step: "task_step sv i sy = Some sy'"
  shows "once_inv sy'"
proof (cases "\<exists>cb. tk_pc (sy_tasks sy ! i) = PRun cb")
  case True
  then show ?thesis using once_run [OF inv i _ step] by blast
next
  case False
  have "pc_ok (tk_pc (sy_tasks sy ! i))" using pcs i by (simp add: pcs_ok_def)
  from task_step_task [OF step i this] False obtain t' where
    t': "sy_tasks sy' = (sy_tasks sy)[i := t']" "tk_frame t' = tk_frame (sy_tasks sy ! i)"
    and p: "plain_step sy sy' (tk_pc (sy_tasks sy ! i)) (tk_pc t')" by auto
  have key: "tk_key t' = tk_key (sy_tasks sy ! i)" using t'(2) by (simp add: tk_key_def)
  have "armed key sy' \<le> armed key sy" for key
    using filter_update [OF i, of "\<lambda>t. tk_key t = key \<and> armed_pc (tk_pc t)" t'] t'(1) key p
    by (auto simp: armed_def plain_step_def split: if_splits)
  moreover have "ok (sy_world sy)" using inv by (simp add: once_inv_def)
  ultimately show ?thesis using p by (intro once_mono [OF inv]) (simp_all add: plain_step_def keeps_def calls_of_def)
qed

lemma once_step:
  assumes inv: "once_inv sy" and pcs: "pcs_ok sy" and step: "send_step sv env sy sy'"
  shows "once_inv sy'"
proof -
  have ok: "ok (sy_world sy)" using inv by (simp add: once_inv_def)
  from step show ?thesis
  proof (cases rule: send_step.cases)
    case (spawn now w frame payload queue)
    then show ?thesis using now_keeps [OF ok] by (intro once_mono [OF inv]) (simp_all add: armed_def calls_of_def)
  next
    case (task i)
    then show ?thesis using once_task [OF inv pcs] by blast
  next
    case (cancel i e)
    have "armed key sy' \<le> armed key sy" for key
      using filter_update [OF cancel(2), of "\<lambda>t. tk_key t = key \<and> armed_pc (tk_pc t)" "(sy_tasks sy ! i)\<lparr>tk_pc := PDone no_result (Err e)\<rparr>"] cancel(1,3)
      by (simp add: armed_def split: if_splits)
    then show ?thesis using cancel ok by (intro once_mono [OF inv]) (simp_all add: keeps_def calls_of_def)
  next
    case (environment w)
    then show ?thesis using env_keeps [OF ok] by (intro once_mono [OF inv]) (simp_all add: armed_def calls_of_def)
  qed
qed

lemma once_reach: "send_reach sv env w0 sy \<Longrightarrow> ok w0 \<Longrightarrow> once_inv sy"
proof (induction rule: send_reach.induct)
  case (init queues)
  then show ?case by (simp add: once_inv_def send_init_def armed_def calls_of_def)
next
  case (step sy sy')
  then show ?case using once_step [OF _ send_reach_pcs [OF step.hyps(1)] step.hyps(2)] by simp
qed

lemma calls_at_most_once:
  assumes "send_reach sv env w0 sy" "ok w0"
  shows "calls_of key sy \<le> 1"
proof -
  have "armed key sy + calls_of key sy \<le> (if taken (sy_world sy) key then 1 else 0)"
    using once_reach [OF assms] by (simp add: once_inv_def)
  then show ?thesis by (auto split: if_splits)
qed

end

section \<open>The memory store keeps the contract for its retention\<close>

text \<open>A server moved onto the memory world.\<close>

definition on_memory :: "duration \<Rightarrow> 'a ApplicationHandler \<Rightarrow> 'a FailureInjector option \<Rightarrow> 'a memory_world ServerProtocol \<Rightarrow> 'a memory_world ServerProtocol" where
  "on_memory ttl app injector sv = sv\<lparr>sv_Now := memory_now, sv_sessions := memory_sessions, sv_dedup := memory_dedup ttl, sv_replay := memory_replay,
     sv_appender := memory_appender, sv_app := (\<lambda>mid content. on_app (app mid content)),
     sv_FailureInjector := map_option (\<lambda>f p. on_app (f p)) injector\<rparr>"

lemma memory_server_on: "memory_server ttl app injector sv \<Longrightarrow> on_memory ttl app injector sv = sv"
  by (simp add: memory_server_def on_memory_def)

text \<open>Within one retention of its start a memory store has forgotten nothing.\<close>

definition fresh_store :: "time \<Rightarrow> duration \<Rightarrow> 'a memory_world \<Rightarrow> bool" where
  "fresh_store t0 ttl w \<longleftrightarrow> md_ttl (mw_dedup w) = ttl \<and> t0 \<le> FakeClock_Now (mw_clock w) \<and> FakeClock_Now (mw_clock w) < t0 + ttl
     \<and> (\<forall>k e. map_get (md_records (mw_dedup w)) k = Some e \<longrightarrow> dr_State (me_record e) = DedupProcessing \<or> t0 + ttl \<le> me_expiresAt e)"

definition claimed_key :: "'a memory_world \<Rightarrow> string \<Rightarrow> bool" where
  "claimed_key w k \<longleftrightarrow> map_get (md_records (mw_dedup w)) k \<noteq> None"

text \<open>What else may happen: time passes within the retention; sessions, events and the application's state change.\<close>

definition within_retention :: "time \<Rightarrow> duration \<Rightarrow> 'a memory_world \<Rightarrow> 'a memory_world \<Rightarrow> bool" where
  "within_retention t0 ttl w w' \<longleftrightarrow> mw_dedup w' = mw_dedup w \<and> t0 \<le> FakeClock_Now (mw_clock w') \<and> FakeClock_Now (mw_clock w') < t0 + ttl"

lemma keeps_same_dedup:
  "fresh_store t0 ttl w \<Longrightarrow> mw_dedup w' = mw_dedup w \<Longrightarrow> mw_clock w' = mw_clock w \<Longrightarrow> keeps (fresh_store t0 ttl) claimed_key w w'"
  by (simp add: keeps_def fresh_store_def claimed_key_def)

lemma on_app_same: "mw_dedup (snd (on_app f w)) = mw_dedup w" "mw_clock (snd (on_app f w)) = mw_clock w"
  by (simp_all add: on_app_def Let_def case_prod_beta)

lemma keeps_refl: "fresh_store t0 ttl w \<Longrightarrow> keeps (fresh_store t0 ttl) claimed_key w w"
  by (simp add: keeps_def)

lemma keeps_on_app: "fresh_store t0 ttl w \<Longrightarrow> keeps (fresh_store t0 ttl) claimed_key w (snd (on_app f w))"
  using keeps_same_dedup on_app_same by blast

lemma fresh_storeD:
  "fresh_store t0 ttl w \<Longrightarrow> map_get (md_records (mw_dedup w)) k = Some e \<Longrightarrow> dr_State (me_record e) \<noteq> DedupProcessing
    \<Longrightarrow> FakeClock_Now (mw_clock w) < me_expiresAt e"
  by (fastforce simp: fresh_store_def)

lemma memory_claim:
  assumes "fresh_store t0 ttl w"
  shows "keeps (fresh_store t0 ttl) claimed_key w (snd (ds_Claim (memory_dedup ttl) s m fp w))"
    "ds_Claim (memory_dedup ttl) s m fp w = (Ret (True, x), w') \<Longrightarrow> \<not> claimed_key w (dedupKey s m) \<and> claimed_key w' (dedupKey s m)"
proof -
  show "keeps (fresh_store t0 ttl) claimed_key w (snd (ds_Claim (memory_dedup ttl) s m fp w))"
    using assms
    by (auto simp: keeps_def fresh_store_def claimed_key_def memory_dedup_def Claim_def time_Add_def Let_def split: option.splits if_splits)
  show "\<not> claimed_key w (dedupKey s m) \<and> claimed_key w' (dedupKey s m)" if "ds_Claim (memory_dedup ttl) s m fp w = (Ret (True, x), w')"
    using that fresh_storeD [OF assms, of "dedupKey s m"]
    by (auto simp: claimed_key_def memory_dedup_def Claim_def Let_def split: option.splits if_splits)
qed

lemma memory_complete:
  assumes "fresh_store t0 ttl w"
  shows "keeps (fresh_store t0 ttl) claimed_key w (snd (ds_Complete (memory_dedup ttl) s m ack w))"
  using assms
  by (auto simp: keeps_def fresh_store_def claimed_key_def memory_dedup_def Complete_def time_Add_def Let_def split: option.splits if_splits)

interpretation mem_send: send_world "on_memory ttl app injector sv" "within_retention t0 ttl" "fresh_store t0 ttl" claimed_key
  for ttl app injector sv t0
proof unfold_locales
  fix w w' :: "'a memory_world" and s m fp x
  assume "fresh_store t0 ttl w" "ds_Claim (sv_dedup (on_memory ttl app injector sv)) s m fp w = (Ret (True, x), w')"
  then show "\<not> claimed_key w (dedupKey s m) \<and> claimed_key w' (dedupKey s m)"
    by (intro memory_claim(2)) (simp_all add: on_memory_def)
next
  fix w w' :: "'a memory_world" assume "fresh_store t0 ttl w" "within_retention t0 ttl w w'"
  then show "keeps (fresh_store t0 ttl) claimed_key w w'" by (simp add: keeps_def fresh_store_def within_retention_def claimed_key_def)
qed (simp_all add: on_memory_def memory_now_def memory_sessions_def inject_def memory_claim(1) memory_complete keeps_refl keeps_on_app
      split: option.splits)

lemma counts_distinct: "(\<And>k. length (filter (\<lambda>x. f x = k) xs) \<le> 1) \<Longrightarrow> distinct (map f xs)"
proof (induction xs)
  case (Cons x xs)
  have "length (filter (\<lambda>y. f y = k) xs) \<le> 1" for k using Cons.prems [of k] by (simp split: if_splits)
  moreover have "filter (\<lambda>y. f y = f x) xs = []" using Cons.prems [of "f x"] by simp
  ultimately show ?case using Cons.IH by (auto simp: filter_empty_conv)
qed simp

text \<open>
  C2: At-most-once delivery.  On a server with the memory stores, whatever interleaving of SENDs,
  retries, cancellations, failures and panics of the application and of the injected faults takes
  place within the retention of the deduplication store, the application is called at most once for
  each pair of session and message identity.
\<close>

theorem send_at_most_once:
  assumes "memory_server ttl app injector sv" "0 < ttl"
    and "send_reach sv (within_retention t0 ttl) (new_world t0 ttl a) sy"
  shows "distinct (map (\<lambda>(s, m, c). (s, m)) (sy_calls sy))"
proof -
  have "fresh_store t0 ttl (new_world t0 ttl a)"
    using assms(2) by (simp add: fresh_store_def new_world_def NewMemoryDedupStore_def NewFakeClock_def FakeClock_Now_def)
  moreover have "send_reach (on_memory ttl app injector sv) (within_retention t0 ttl) (new_world t0 ttl a) sy"
    using assms(1,3) by (simp add: memory_server_on)
  ultimately have "calls_of key sy \<le> 1" for key using mem_send.calls_at_most_once by blast
  then have "distinct (map (\<lambda>(s, m, c). dedupKey s m) (sy_calls sy))"
    by (intro counts_distinct) (simp add: calls_of_def case_prod_unfold)
  then show ?thesis by (auto simp: distinct_map inj_on_def)
qed

section \<open>A retry that meets its original\<close>

fun run_tasks :: "'w ServerProtocol \<Rightarrow> nat list \<Rightarrow> 'w send_sys \<Rightarrow> 'w send_sys option" where
  "run_tasks sv [] sy = Some sy"
| "run_tasks sv (i # is) sy = (if i < length (sy_tasks sy) then (case task_step sv i sy of None \<Rightarrow> None | Some sy' \<Rightarrow> run_tasks sv is sy') else None)"

lemma run_tasks_reach: "run_tasks sv is sy = Some sy' \<Longrightarrow> send_reach sv env w0 sy \<Longrightarrow> send_reach sv env w0 sy'"
proof (induction "is" arbitrary: sy)
  case (Cons i "is")
  then obtain sy1 where "i < length (sy_tasks sy)" "task_step sv i sy = Some sy1" "run_tasks sv is sy1 = Some sy'"
    by (auto split: if_splits option.splits)
  then show ?case using Cons.IH send_reach.step [OF Cons.prems(2) send_step.task] by blast
qed simp

definition retry_send :: Envelope where
  \<open>retry_send = \<lparr>env_V = 2, env_Type = FrameSend, env_ID = ''m-1'', env_SessionID = ''s-1'', env_Seq = 0, env_Timestamp = 0,
     env_Payload = ''{"content":7}''\<rparr>\<close>

definition demo_world :: "(string \<times> bytes) list memory_world" where
  "demo_world = (new_world 0 (24 * hour) [])\<lparr>mw_sessions :=
     \<lparr>mr_sessions = [(''s-1'', \<lparr>st_SessionID = ''s-1'', st_ExpiresAt = 24 * hour, st_Capabilities = no_capabilities\<rparr>)]\<rparr>\<rparr>"

definition demo_task :: send_task where
  "demo_task = \<lparr>tk_frame = retry_send, tk_now = 0, tk_content = ''7'', tk_out = 0, tk_flight = 0, tk_pc = PStart\<rparr>"

definition demo_started :: "(string \<times> bytes) list memory_world send_sys" where
  "demo_started = (send_init demo_world (\<lambda>_. NewOutboundQueue))\<lparr>sy_tasks := [demo_task, demo_task]\<rparr>"

lemma demo_payload: "decodePayload (env_Payload retry_send) dec_SendPayload zero_SendPayload True = Inr \<lparr>sp_Content = ''7''\<rparr>"
  by code_simp

lemma demo_started_reach:
  "send_reach example_server (within_retention 0 (24 * hour)) (new_world 0 (24 * hour) []) demo_started"
proof -
  let ?env = "within_retention 0 (24 * hour)" and ?init = "send_init (new_world 0 (24 * hour) []) (\<lambda>_. NewOutboundQueue)"
  let ?reach = "send_reach example_server ?env (new_world 0 (24 * hour) [])"
  have spawn: "?reach (sy\<lparr>sy_tasks := sy_tasks sy @ [demo_task]\<rparr>)" if "?reach sy" "sy_world sy = demo_world" for sy
  proof -
    have "send_step example_server ?env sy (sy\<lparr>sy_world := demo_world, sy_tasks := sy_tasks sy @ [\<lparr>tk_frame = retry_send, tk_now = 0,
        tk_content = [] @ sp_Content \<lparr>sp_Content = ''7''\<rparr>, tk_out = 0, tk_flight = 0, tk_pc = PStart\<rparr>]\<rparr>)"
      using that(2) demo_payload
      by (intro send_step.spawn) (simp_all add: example_server_def memory_now_def demo_world_def new_world_def NewFakeClock_def FakeClock_Now_def)
    moreover have "sy\<lparr>sy_world := demo_world\<rparr> = sy" using that(2) by (cases sy) simp
    ultimately show ?thesis using that(1) by (auto simp: demo_task_def intro: send_reach.step)
  qed
  have "send_step example_server ?env ?init (?init\<lparr>sy_world := demo_world\<rparr>)"
    by (intro send_step.environment)
      (simp add: within_retention_def send_init_def demo_world_def new_world_def NewFakeClock_def FakeClock_Now_def hour_def)
  then have "?reach (?init\<lparr>sy_world := demo_world\<rparr>)" by (rule send_reach.step [OF send_reach.init])
  then have "?reach (send_init demo_world (\<lambda>_. NewOutboundQueue))" by (simp add: send_init_def)
  from spawn [OF this] have one: "?reach ((send_init demo_world (\<lambda>_. NewOutboundQueue))\<lparr>sy_tasks := [demo_task]\<rparr>)" by (simp add: send_init_def)
  from spawn [OF this] show ?thesis by (simp add: demo_started_def send_init_def)
qed

lemma retry_run:
  "\<exists>sy. run_tasks example_server [0,0,0,0,0,0,0,0,0,0,0,1,0] demo_started = Some sy
    \<and> sy_calls sy = [(''s-1'', ''m-1'', ''7'')] \<and> map tk_pc (sy_tasks sy) = [PEnd CbApp (RUnit (Ret ())), PActive]"
  by (simp add: demo_started_def send_init_def demo_task_def retry_send_def task_step_def Let_def start_step_def acquireFlight_def tk_key_def
      set_task_def set_pc_def begin_callback_def end_callback_def set_flight_def run_callback_def example_server_def memory_sessions_def
      session_Lookup_def demo_world_def new_world_def hour_def after_callback_def recover_result_def recover_send_def memory_dedup_def Claim_def
      NewMemoryDedupStore_def inject_def next_unit_def on_app_def assistantApp_def)

theorem sends_terminate_witness:
  "\<exists>n sy'. (task_rel example_server ^^ n) demo_started sy' \<and> n \<le> 80 \<and> all_returned sy' \<and> length (sy_tasks demo_started) = 2"
proof -
  note T = sends_terminate [OF demo_started_reach]
  from conjunct2 [OF T] obtain n sy' where run: "(task_rel example_server ^^ n) demo_started sy'" "all_returned sy'" by (elim exE conjE)
  moreover have "length (sy_tasks demo_started) = 2" by (simp add: demo_started_def)
  moreover have "n \<le> 40 * length (sy_tasks demo_started)" using conjunct1 [OF T, rule_format, OF run(1)] by (rule conjunct1)
  ultimately show ?thesis by (intro exI [of _ n] exI [of _ sy']) simp
qed

theorem send_at_most_once_witness:
  "\<exists>sy. send_reach example_server (within_retention 0 (24 * hour)) (new_world 0 (24 * hour) []) sy \<and> length (sy_tasks sy) = 2
    \<and> sy_calls sy = [(''s-1'', ''m-1'', ''7'')] \<and> distinct (map (\<lambda>(s, m, c). (s, m)) (sy_calls sy))"
proof -
  obtain sy where sy: "run_tasks example_server [0,0,0,0,0,0,0,0,0,0,0,1,0] demo_started = Some sy" "sy_calls sy = [(''s-1'', ''m-1'', ''7'')]"
    "map tk_pc (sy_tasks sy) = [PEnd CbApp (RUnit (Ret ())), PActive]"
    using retry_run by (elim exE conjE)
  have "length (map tk_pc (sy_tasks sy)) = 2" using sy(3) by simp
  then show ?thesis
    using sy(2) run_tasks_reach [OF sy(1) demo_started_reach] send_at_most_once [OF example_server_memory _ run_tasks_reach [OF sy(1) demo_started_reach]]
    by (auto simp: hour_def)
qed

text \<open>
  C35: One original per identity.  In every reachable state the SENDs that run callbacks have pairwise
  different identities, each is the registered flight of its identity, and the guard that refuses a
  second active callback of a flight never refuses.
\<close>

theorem one_flight_per_identity:
  assumes "send_reach sv env w0 sy" "leads sy i"
  shows "map_get (sy_flights sy) (tk_key (sy_tasks sy ! i)) = Some (tk_flight (sy_tasks sy ! i))
    \<and> (\<forall>j. leads sy j \<longrightarrow> tk_key (sy_tasks sy ! j) = tk_key (sy_tasks sy ! i) \<longrightarrow> j = i)
    \<and> (\<forall>cb. tk_pc (sy_tasks sy ! i) = PBegin cb \<longrightarrow> begin_callback (tk_key (sy_tasks sy ! i)) (tk_flight (sy_tasks sy ! i)) sy \<noteq> None)"
proof -
  note inv = send_reach_inv [OF assms(1)]
  have "j = i" if "leads sy j" "tk_key (sy_tasks sy ! j) = tk_key (sy_tasks sy ! i)" for j
    using flight_invD(4) [OF inv that(1)] flight_invD(4) [OF inv assms(2)] flight_invD(6) [OF inv that(1) assms(2)] that(2) by simp
  then show ?thesis
    using flight_invD(4,5) [OF inv assms(2)] by (auto simp: begin_callback_def)
qed

theorem one_flight_per_identity_witness:
  "\<exists>sy :: (string \<times> bytes) list memory_world send_sys. leads sy 0 \<and> length (sy_tasks sy) = 2 \<and> map_get (sy_flights sy) (tk_key (sy_tasks sy ! 0)) = Some (tk_flight (sy_tasks sy ! 0))
    \<and> (\<forall>j. leads sy j \<longrightarrow> tk_key (sy_tasks sy ! j) = tk_key (sy_tasks sy ! 0) \<longrightarrow> j = 0)"
proof -
  obtain sy where sy: "run_tasks example_server [0,0,0,0,0,0,0,0,0,0,0,1,0] demo_started = Some sy"
    "map tk_pc (sy_tasks sy) = [PEnd CbApp (RUnit (Ret ())), PActive]"
    using retry_run by (elim exE conjE)
  then have "leads sy 0" "length (sy_tasks sy) = 2" by (auto simp: leads_def)
  then show ?thesis using one_flight_per_identity [OF run_tasks_reach [OF sy(1) demo_started_reach], of 0] by blast
qed

end
