(* ===== verification/Stream_Lane.thy ===== *)
theory Stream_Lane
  imports Server Go_Map
begin

text \<open>
  Stream lanes: \<open>runStream\<close>, \<open>streamLane.run\<close> and \<open>streamLane.invokeCallback\<close> under any interleaving of
  goroutines.  Each step of a goroutine is one critical section of \<open>laneMu\<close> or of a lane's \<open>mu\<close>, one
  callback, or one channel operation.  Goroutines and lanes are named by numbers.
\<close>

section \<open>State\<close>

text \<open>
  The function a stream operation runs on its lane: it ends with an outcome, does work of its own, or
  calls \<open>invokeCallback\<close> with a callback and goes on with its result, or with the refusal.
\<close>

datatype 'w body =
    Finish "unit outcome"
  | Work "'w \<Rightarrow> 'w body \<times> 'w"
  | Callback "'w body" "'w \<Rightarrow> 'w body \<times> 'w"

record 'w streamRequest =
  rq_fn :: "'w body"
  rq_done :: nat  \<comment> \<open>the channel \<open>done\<close>, named by the goroutine that made it\<close>

record 'w streamLane =
  ln_running :: bool
  ln_callbackActive :: bool
  ln_queue :: "'w streamRequest list"
  ln_users :: int

definition new_lane :: "'w streamLane" where
  "new_lane = \<lparr>ln_running = False, ln_callbackActive = False, ln_queue = [], ln_users = 0\<rparr>"

datatype 'w lane_pc =
    LIdle                             \<comment> \<open>no goroutine yet\<close>
  | LStart                            \<comment> \<open>before the first critical section of \<open>runStream\<close>\<close>
  | LRun                              \<comment> \<open>before the first critical section of \<open>run\<close>\<close>
  | LLoop                             \<comment> \<open>before the critical section of the loop\<close>
  | LExec nat "'w body"               \<comment> \<open>in the function of the request with that channel\<close>
  | LCall nat "'w \<Rightarrow> 'w body \<times> 'w"  \<comment> \<open>before the callback itself\<close>
  | LReset nat "'w body"              \<comment> \<open>before the deferred reset of \<open>invokeCallback\<close>\<close>
  | LReply nat "unit outcome"         \<comment> \<open>before the send on \<open>done\<close>\<close>
  | LWait                             \<comment> \<open>before the receive from its own \<open>done\<close>\<close>
  | LLeave "unit outcome"             \<comment> \<open>before the deferred critical section of \<open>runStream\<close>\<close>
  | LRet "unit outcome"

record 'w lane_task =
  lt_session :: string
  lt_body :: "'w body"
  lt_lane :: nat
  lt_done :: "unit outcome option"  \<comment> \<open>what its buffered channel \<open>done\<close> has received\<close>
  lt_pc :: "'w lane_pc"

record 'w lane_sys =
  ls_world :: 'w
  ls_lanes :: "(string, nat) gomap"
  ls_heap :: "nat \<Rightarrow> 'w streamLane"
  ls_next :: nat  \<comment> \<open>the next unused lane\<close>
  ls_task :: "nat \<Rightarrow> 'w lane_task"
  ls_accepted :: "(string \<times> nat) list"  \<comment> \<open>ghost: requests in the order they were queued\<close>
  ls_started :: "(string \<times> nat) list"   \<comment> \<open>ghost: requests in the order they began to run\<close>

section \<open>Operations\<close>

definition set_lane :: "nat \<Rightarrow> 'w streamLane \<Rightarrow> 'w lane_sys \<Rightarrow> 'w lane_sys" where
  "set_lane l lane st = st\<lparr>ls_heap := (ls_heap st)(l := lane)\<rparr>"

definition goto :: "nat \<Rightarrow> 'w lane_pc \<Rightarrow> 'w lane_sys \<Rightarrow> 'w lane_sys" where
  "goto i pc st = st\<lparr>ls_task := (ls_task st)(i := (ls_task st i)\<lparr>lt_pc := pc\<rparr>)\<rparr>"

text \<open>\<open>runStream\<close>: take the session's lane, or make it, and count in; the deferred part counts out.\<close>

definition enter_lane :: "nat \<Rightarrow> 'w lane_sys \<Rightarrow> 'w lane_sys" where
  "enter_lane i st =
     (let t = ls_task st i;
          (l, st1) = (case map_get (ls_lanes st) (lt_session t) of
             Some l \<Rightarrow> (l, st)
           | None \<Rightarrow> (ls_next st, set_lane (ls_next st) new_lane
               (st\<lparr>ls_next := ls_next st + 1, ls_lanes := map_put (lt_session t) (ls_next st) (ls_lanes st)\<rparr>)));
          st2 = set_lane l ((ls_heap st1 l)\<lparr>ln_users := ln_users (ls_heap st1 l) + 1\<rparr>) st1
      in st2\<lparr>ls_task := (ls_task st2)(i := t\<lparr>lt_lane := l, lt_pc := LRun\<rparr>)\<rparr>)"

definition leave_lane :: "nat \<Rightarrow> unit outcome \<Rightarrow> 'w lane_sys \<Rightarrow> 'w lane_sys" where
  "leave_lane i out st =
     (let t = ls_task st i; l = lt_lane t; users = ln_users (ls_heap st l) - 1;
          st1 = set_lane l ((ls_heap st l)\<lparr>ln_users := users\<rparr>) st
      in goto i (LRet out) (if users = 0 \<and> map_get (ls_lanes st) (lt_session t) = Some l
           then st1\<lparr>ls_lanes := map_del (lt_session t) (ls_lanes st)\<rparr> else st1))"

text \<open>\<open>run\<close>: refuse while a callback is active, else queue the request; the first one in runs the loop.\<close>

definition submit :: "nat \<Rightarrow> 'w lane_sys \<Rightarrow> 'w lane_sys" where
  "submit i st =
     (let t = ls_task st i; l = lt_lane t; lane = ls_heap st l in
      if ln_callbackActive lane then goto i (LLeave (Err (Sentinel ErrStreamCallbackActive))) st
      else (let st1 = set_lane l (lane\<lparr>ln_queue := ln_queue lane @ [\<lparr>rq_fn = lt_body t, rq_done = i\<rparr>], ln_running := True\<rparr>)
                  (st\<lparr>ls_accepted := ls_accepted st @ [(lt_session t, i)]\<rparr>)
            in goto i (if ln_running lane then LWait else LLoop) st1))"

definition next_request :: "nat \<Rightarrow> 'w lane_sys \<Rightarrow> 'w lane_sys" where
  "next_request i st =
     (let t = ls_task st i; l = lt_lane t; lane = ls_heap st l in
      case ln_queue lane of
        [] \<Rightarrow> goto i LWait (set_lane l (lane\<lparr>ln_running := False\<rparr>) st)
      | request # rest \<Rightarrow> goto i (LExec (rq_done request) (rq_fn request)) (set_lane l (lane\<lparr>ln_queue := rest\<rparr>)
          (st\<lparr>ls_started := ls_started st @ [(lt_session t, rq_done request)]\<rparr>)))"

text \<open>\<open>invokeStreamRequest\<close> turns a panic of the function into an error.\<close>

definition stream_recover :: "unit outcome \<Rightarrow> unit outcome" where
  "stream_recover out = (case out of Panic s \<Rightarrow> Err (NewError (''kmtproto: stream operation panicked: '' @ s)) | _ \<Rightarrow> out)"

definition exec_body :: "nat \<Rightarrow> nat \<Rightarrow> 'w body \<Rightarrow> 'w lane_sys \<Rightarrow> 'w lane_sys" where
  "exec_body i d b st =
     (case b of
        Finish out \<Rightarrow> goto i (LReply d (stream_recover out)) st
      | Work f \<Rightarrow> (let (b', w) = f (ls_world st) in goto i (LExec d b') (st\<lparr>ls_world := w\<rparr>))
      | Callback refused f \<Rightarrow>
          (let l = lt_lane (ls_task st i); lane = ls_heap st l in
           if ln_callbackActive lane then goto i (LExec d refused) st
           else goto i (LCall d f) (set_lane l (lane\<lparr>ln_callbackActive := True\<rparr>) st)))"

text \<open>One step of goroutine \<open>i\<close>; \<open>None\<close> when it is blocked, has returned or does not exist.\<close>

definition lane_step :: "nat \<Rightarrow> 'w lane_sys \<Rightarrow> 'w lane_sys option" where
  "lane_step i st =
     (let t = ls_task st i; l = lt_lane t in
      case lt_pc t of
        LIdle \<Rightarrow> None
      | LStart \<Rightarrow> Some (enter_lane i st)
      | LRun \<Rightarrow> Some (submit i st)
      | LLoop \<Rightarrow> Some (next_request i st)
      | LExec d b \<Rightarrow> Some (exec_body i d b st)
      | LCall d f \<Rightarrow> (let (b, w) = f (ls_world st) in Some (goto i (LReset d b) (st\<lparr>ls_world := w\<rparr>)))
      | LReset d b \<Rightarrow> Some (goto i (LExec d b) (set_lane l ((ls_heap st l)\<lparr>ln_callbackActive := False\<rparr>) st))
      | LReply d out \<Rightarrow> Some (goto i LLoop (st\<lparr>ls_task := (ls_task st)(d := (ls_task st d)\<lparr>lt_done := Some out\<rparr>)\<rparr>))
      | LWait \<Rightarrow> map_option (\<lambda>out. goto i (LLeave out) st) (lt_done t)
      | LLeave out \<Rightarrow> Some (leave_lane i out st)
      | LRet out \<Rightarrow> None)"

definition lane_init :: "'w \<Rightarrow> 'w lane_sys" where
  "lane_init w = \<lparr>ls_world = w, ls_lanes = [], ls_heap = (\<lambda>_. new_lane), ls_next = 0,
     ls_task = (\<lambda>_. \<lparr>lt_session = [], lt_body = Finish (Ret ()), lt_lane = 0, lt_done = None, lt_pc = LIdle\<rparr>),
     ls_accepted = [], ls_started = []\<rparr>"

inductive lane_reach :: "'w \<Rightarrow> 'w lane_sys \<Rightarrow> bool" for w0 where
  init: "lane_reach w0 (lane_init w0)"
| spawn: "lane_reach w0 st \<Longrightarrow> lt_pc (ls_task st i) = LIdle \<Longrightarrow>
    lane_reach w0 (st\<lparr>ls_task := (ls_task st)(i := \<lparr>lt_session = sid, lt_body = b, lt_lane = 0, lt_done = None, lt_pc = LStart\<rparr>)\<rparr>)"
| step: "lane_reach w0 st \<Longrightarrow> lane_step i st = Some st' \<Longrightarrow> lane_reach w0 st'"
| environment: "lane_reach w0 st \<Longrightarrow> lane_reach w0 (st\<lparr>ls_world := w\<rparr>)"

end
