(* ===== verification/Stream_Lane_Inv.thy ===== *)
theory Stream_Lane_Inv
  imports Stream_Lane
begin

text \<open>
  Invariants of the stream lanes: one goroutine runs the requests of a session, in the order they
  were queued, no call waits for a request nobody will run, and a lane exists exactly while in use.
\<close>

section \<open>The invariant of one lane\<close>

fun inside :: "'w lane_pc \<Rightarrow> bool" where
  "inside LIdle = False" | "inside LStart = False" | "inside (LRet out) = False" | "inside pc = True"

fun current :: "'w lane_pc \<Rightarrow> nat list" where
  "current (LExec d b) = [d]" | "current (LCall d f) = [d]" | "current (LReset d b) = [d]" | "current (LReply d out) = [d]"
| "current pc = []"

definition runner :: "'w lane_pc \<Rightarrow> bool" where
  "runner pc \<longleftrightarrow> pc = LLoop \<or> current pc \<noteq> []"

fun in_callback :: "'w lane_pc \<Rightarrow> bool" where
  "in_callback (LCall d f) = True" | "in_callback (LReset d b) = True" | "in_callback pc = False"

lemma runner_simps [simp]:
  "runner LLoop" "runner (LExec d b)" "runner (LCall d f)" "runner (LReset d b)" "runner (LReply d out)"
  "\<not> runner LIdle" "\<not> runner LStart" "\<not> runner LRun" "\<not> runner LWait" "\<not> runner (LLeave out)" "\<not> runner (LRet out)"
  by (simp_all add: runner_def)

lemma in_callback_runner: "in_callback pc \<Longrightarrow> runner pc"
  by (cases pc) simp_all

lemma runner_inside: "runner pc \<Longrightarrow> inside pc"
  by (cases pc) simp_all

text \<open>The calls that still expect the answer to their request.\<close>

definition pending :: "nat set \<Rightarrow> (nat \<Rightarrow> 'w lane_pc) \<Rightarrow> (nat \<Rightarrow> unit outcome option) \<Rightarrow> nat set" where
  "pending M pc dn = {i \<in> M. (pc i = LWait \<or> runner (pc i)) \<and> dn i = None}"

definition waiting_ids :: "'w streamLane \<Rightarrow> nat list" where
  "waiting_ids lane = map rq_done (ln_queue lane)"

definition lane_base :: "'w streamLane \<Rightarrow> nat set \<Rightarrow> (nat \<Rightarrow> 'w lane_pc) \<Rightarrow> (nat \<Rightarrow> unit outcome option) \<Rightarrow> bool" where
  "lane_base lane M pc dn \<longleftrightarrow> finite M \<and> M \<noteq> {} \<and> ln_users lane = int (card M)
     \<and> (\<forall>i \<in> M. inside (pc i)) \<and> (\<forall>i \<in> M. pc i = LRun \<longrightarrow> dn i = None)"

definition lane_idle :: "'w streamLane \<Rightarrow> nat set \<Rightarrow> (nat \<Rightarrow> 'w lane_pc) \<Rightarrow> (nat \<Rightarrow> unit outcome option) \<Rightarrow> bool" where
  "lane_idle lane M pc dn \<longleftrightarrow> (\<forall>j \<in> M. \<not> runner (pc j)) \<and> \<not> ln_running lane \<and> \<not> ln_callbackActive lane
     \<and> waiting_ids lane = [] \<and> pending M pc dn = {}"

definition lane_runs :: "'w streamLane \<Rightarrow> nat set \<Rightarrow> (nat \<Rightarrow> 'w lane_pc) \<Rightarrow> (nat \<Rightarrow> unit outcome option) \<Rightarrow> nat \<Rightarrow> bool" where
  "lane_runs lane M pc dn r \<longleftrightarrow> r \<in> M \<and> (\<forall>j \<in> M. runner (pc j) \<longleftrightarrow> j = r) \<and> ln_running lane
     \<and> (ln_callbackActive lane \<longleftrightarrow> in_callback (pc r)) \<and> distinct (current (pc r) @ waiting_ids lane)
     \<and> set (current (pc r) @ waiting_ids lane) = pending M pc dn"

definition lane_ok :: "'w streamLane \<Rightarrow> nat set \<Rightarrow> (nat \<Rightarrow> 'w lane_pc) \<Rightarrow> (nat \<Rightarrow> unit outcome option) \<Rightarrow> bool" where
  "lane_ok lane M pc dn \<longleftrightarrow> lane_base lane M pc dn \<and> (lane_idle lane M pc dn \<or> (\<exists>r. lane_runs lane M pc dn r))"

lemma lane_ok_runner: "lane_ok lane M pc dn \<Longrightarrow> i \<in> M \<Longrightarrow> runner (pc i) \<Longrightarrow> lane_runs lane M pc dn i"
  by (auto simp: lane_ok_def lane_idle_def lane_runs_def)

lemma lane_ok_cong:
  assumes "lane_ok lane M pc dn" "\<And>i. i \<in> M \<Longrightarrow> pc' i = pc i" "\<And>i. i \<in> M \<Longrightarrow> dn' i = dn i"
  shows "lane_ok lane M pc' dn'"
proof -
  have pend: "pending M pc' dn' = pending M pc dn" using assms(2,3) by (auto simp: pending_def)
  have "lane_base lane M pc' dn'" using assms by (simp add: lane_ok_def lane_base_def)
  moreover have "lane_idle lane M pc dn \<Longrightarrow> lane_idle lane M pc' dn'" "lane_runs lane M pc dn r \<Longrightarrow> lane_runs lane M pc' dn' r" for r
    using assms(2) by (simp_all add: lane_idle_def lane_runs_def pend)
  ultimately show ?thesis using assms(1) unfolding lane_ok_def by blast
qed

lemma lane_ok_other:
  "lane_ok lane M pc dn \<Longrightarrow> i \<notin> M \<Longrightarrow> lane_ok lane M (pc(i := p)) dn"
  "lane_ok lane M pc dn \<Longrightarrow> i \<notin> M \<Longrightarrow> lane_ok lane M (pc(i := p)) (dn(i := d))"
  by (erule lane_ok_cong; fastforce)+

text \<open>The runner goes on with the same requests outstanding.\<close>

lemma runner_goes_on:
  assumes ok: "lane_ok lane M pc dn" and i: "i \<in> M" "runner (pc i)" and p: "runner p" "current p @ waiting_ids lane' = current (pc i) @ waiting_ids lane"
    and lane': "ln_running lane' = ln_running lane" "ln_users lane' = ln_users lane" "ln_callbackActive lane' \<longleftrightarrow> in_callback p"
  shows "lane_ok lane' M (pc(i := p)) dn"
proof -
  have pend: "pending M (pc(i := p)) dn = pending M pc dn" using i p(1) by (auto simp: pending_def)
  have "p \<noteq> LRun" using p(1) by auto
  then have "lane_base lane' M (pc(i := p)) dn" using ok lane'(2) runner_inside [OF p(1)] by (simp add: lane_ok_def lane_base_def)
  moreover have "lane_runs lane' M (pc(i := p)) dn i"
    using lane_ok_runner [OF ok i] p lane' by (simp add: lane_runs_def pend del: distinct_append set_append)
  ultimately show ?thesis unfolding lane_ok_def by blast
qed

text \<open>A request is queued: by the new runner, or by a call that waits for the present one.\<close>

lemma request_queued:
  assumes ok: "lane_ok lane M pc dn" and i: "i \<in> M" "pc i = LRun"
    and lane': "waiting_ids lane' = waiting_ids lane @ [i]" "ln_running lane'" "ln_users lane' = ln_users lane" "ln_callbackActive lane' = ln_callbackActive lane"
  shows "lane_ok lane' M (pc(i := if ln_running lane then LWait else LLoop)) dn"
proof -
  let ?pc = "pc(i := if ln_running lane then LWait else LLoop)"
  have dn: "dn i = None" using ok i by (simp add: lane_ok_def lane_base_def)
  have pend: "pending M (pc(i := LWait)) dn = insert i (pending M pc dn)" "pending M (pc(i := LLoop)) dn = insert i (pending M pc dn)"
    using i(1) dn by (auto simp: pending_def)
  have new: "i \<notin> pending M pc dn" using i(2) by (simp add: pending_def)
  have "lane_base lane' M ?pc dn" using ok lane'(3) by (simp add: lane_ok_def lane_base_def)
  moreover have "lane_runs lane' M ?pc dn i" if "lane_idle lane M pc dn"
    using that i(1) lane' by (auto simp: lane_idle_def lane_runs_def pend)
  moreover have "lane_runs lane' M ?pc dn r" if r: "lane_runs lane M pc dn r" for r
  proof -
    have "r \<noteq> i" using r i by (auto simp: lane_runs_def)
    then show ?thesis using r i lane' new by (auto simp: lane_runs_def pend)
  qed
  ultimately show ?thesis using ok unfolding lane_ok_def by blast
qed

text \<open>The runner finds the queue empty.\<close>

lemma runner_stops:
  assumes ok: "lane_ok lane M pc dn" and i: "i \<in> M" "pc i = LLoop" and q: "ln_queue lane = []"
  shows "lane_ok (lane\<lparr>ln_running := False\<rparr>) M (pc(i := LWait)) dn"
proof -
  have run: "lane_runs lane M pc dn i" using lane_ok_runner [OF ok i(1)] i(2) by simp
  have "pending M (pc(i := LWait)) dn = pending M pc dn" using i by (auto simp: pending_def)
  then have "lane_idle (lane\<lparr>ln_running := False\<rparr>) M (pc(i := LWait)) dn"
    using run i(2) q by (simp add: lane_runs_def lane_idle_def waiting_ids_def)
  moreover have "lane_base (lane\<lparr>ln_running := False\<rparr>) M (pc(i := LWait)) dn" using ok by (simp add: lane_ok_def lane_base_def)
  ultimately show ?thesis unfolding lane_ok_def by blast
qed

text \<open>The runner answers a request.\<close>

lemma runner_replies:
  assumes ok: "lane_ok lane M pc dn" and i: "i \<in> M" "pc i = LReply d out"
  shows "d \<in> M" "lane_ok lane M (pc(i := LLoop)) (dn(d := Some out))"
proof -
  have run: "lane_runs lane M pc dn i" using lane_ok_runner [OF ok i(1)] i(2) by simp
  then have d: "d \<in> pending M pc dn" using i(2) by (auto simp: lane_runs_def)
  then show "d \<in> M" by (simp add: pending_def)
  have "pending M (pc(i := LLoop)) (dn(d := Some out)) = pending M pc dn - {d}" using i by (auto simp: pending_def)
  moreover have "set (waiting_ids lane) = pending M pc dn - {d}" using run i(2) by (auto simp: lane_runs_def)
  ultimately have "lane_runs lane M (pc(i := LLoop)) (dn(d := Some out)) i" using run i(2) by (simp add: lane_runs_def)
  moreover have "pc d \<noteq> LRun" using d by (auto simp: pending_def)
  then have "lane_base lane M (pc(i := LLoop)) (dn(d := Some out))" using ok by (simp add: lane_ok_def lane_base_def)
  ultimately show "lane_ok lane M (pc(i := LLoop)) (dn(d := Some out))" unfolding lane_ok_def by blast
qed

text \<open>A call that is refused or answered goes to leave; others come and go.\<close>

lemma call_ends:
  assumes ok: "lane_ok lane M pc dn" and i: "i \<in> M" "pc i = LRun \<or> pc i = LWait \<and> dn i \<noteq> None"
  shows "lane_ok lane M (pc(i := LLeave out)) dn"
proof -
  have pend: "pending M (pc(i := LLeave out)) dn = pending M pc dn" using i(2) by (auto simp: pending_def)
  have "lane_base lane M (pc(i := LLeave out)) dn" using ok by (simp add: lane_ok_def lane_base_def)
  moreover have "lane_idle lane M pc dn \<Longrightarrow> lane_idle lane M (pc(i := LLeave out)) dn" by (simp add: lane_idle_def pend)
  moreover have "lane_runs lane M (pc(i := LLeave out)) dn r" if r: "lane_runs lane M pc dn r" for r
  proof -
    have "r \<noteq> i" using r i by (auto simp: lane_runs_def)
    then show ?thesis using r i by (auto simp: lane_runs_def pend)
  qed
  ultimately show ?thesis using ok unfolding lane_ok_def by blast
qed

lemma call_enters:
  assumes ok: "lane_ok lane M pc dn" and i: "i \<notin> M" "dn i = None"
  shows "lane_ok (lane\<lparr>ln_users := ln_users lane + 1\<rparr>) (insert i M) (pc(i := LRun)) dn"
proof -
  let ?lane = "lane\<lparr>ln_users := ln_users lane + 1\<rparr>"
  have pend: "pending (insert i M) (pc(i := LRun)) dn = pending M pc dn" using i(1) by (auto simp: pending_def)
  have w: "waiting_ids ?lane = waiting_ids lane" by (simp add: waiting_ids_def)
  have "lane_base ?lane (insert i M) (pc(i := LRun)) dn" using ok i by (simp add: lane_ok_def lane_base_def)
  moreover have "lane_idle lane M pc dn \<Longrightarrow> lane_idle ?lane (insert i M) (pc(i := LRun)) dn" by (simp add: lane_idle_def pend w)
  moreover have "lane_runs ?lane (insert i M) (pc(i := LRun)) dn r" if r: "lane_runs lane M pc dn r" for r
  proof -
    have "r \<noteq> i" using r i by (auto simp: lane_runs_def)
    then show ?thesis using r i by (auto simp: lane_runs_def pend w)
  qed
  ultimately show ?thesis using ok unfolding lane_ok_def by blast
qed

lemma first_enters: "dn i = None \<Longrightarrow> lane_ok (new_lane\<lparr>ln_users := 1\<rparr>) {i} (pc(i := LRun)) dn"
  by (auto simp: lane_ok_def lane_base_def lane_idle_def waiting_ids_def new_lane_def pending_def)

lemma users_after: "lane_ok lane M pc dn \<Longrightarrow> i \<in> M \<Longrightarrow> ln_users lane - 1 = int (card (M - {i}))"
proof -
  assume "lane_ok lane M pc dn" "i \<in> M"
  then have "finite M" "ln_users lane = int (card M)" "0 < card M" by (auto simp: lane_ok_def lane_base_def card_gt_0_iff)
  then show ?thesis using \<open>i \<in> M\<close> by (simp add: card_Diff_singleton)
qed

lemma call_leaves:
  assumes ok: "lane_ok lane M pc dn" and i: "i \<in> M" "pc i = LLeave out" and rest: "M - {i} \<noteq> {}"
  shows "lane_ok (lane\<lparr>ln_users := ln_users lane - 1\<rparr>) (M - {i}) (pc(i := LRet out)) dn"
proof -
  let ?lane = "lane\<lparr>ln_users := ln_users lane - 1\<rparr>"
  have pend: "pending (M - {i}) (pc(i := LRet out)) dn = pending M pc dn" using i(2) by (auto simp: pending_def)
  have w: "waiting_ids ?lane = waiting_ids lane" by (simp add: waiting_ids_def)
  have "lane_base ?lane (M - {i}) (pc(i := LRet out)) dn"
    using ok rest users_after [OF ok i(1)] by (simp add: lane_ok_def lane_base_def)
  moreover have "lane_idle lane M pc dn \<Longrightarrow> lane_idle ?lane (M - {i}) (pc(i := LRet out)) dn" by (simp add: lane_idle_def pend w)
  moreover have "lane_runs ?lane (M - {i}) (pc(i := LRet out)) dn r" if r: "lane_runs lane M pc dn r" for r
  proof -
    have "r \<noteq> i" using r i by (auto simp: lane_runs_def)
    then show ?thesis using r i by (auto simp: lane_runs_def pend w)
  qed
  ultimately show ?thesis using ok unfolding lane_ok_def by blast
qed

section \<open>The invariant of all lanes\<close>

definition pcs :: "'w lane_sys \<Rightarrow> nat \<Rightarrow> 'w lane_pc" where
  "pcs st i = lt_pc (ls_task st i)"

definition dones :: "'w lane_sys \<Rightarrow> nat \<Rightarrow> unit outcome option" where
  "dones st i = lt_done (ls_task st i)"

definition members :: "'w lane_sys \<Rightarrow> nat \<Rightarrow> nat set" where
  "members st l = {i. inside (pcs st i) \<and> lt_lane (ls_task st i) = l}"

definition live_ok :: "'w lane_sys \<Rightarrow> nat \<Rightarrow> bool" where
  "live_ok st l \<longleftrightarrow> lane_ok (ls_heap st l) (members st l) (pcs st) (dones st)"

definition lanes_inv :: "'w lane_sys \<Rightarrow> bool" where
  "lanes_inv st \<longleftrightarrow>
     (\<forall>i. inside (pcs st i) \<longrightarrow> map_get (ls_lanes st) (lt_session (ls_task st i)) = Some (lt_lane (ls_task st i)))
     \<and> (\<forall>i. pcs st i = LStart \<longrightarrow> dones st i = None)
     \<and> (\<forall>s l. map_get (ls_lanes st) s = Some l \<longrightarrow> l < ls_next st \<and> live_ok st l)
     \<and> (\<forall>s s' l. map_get (ls_lanes st) s = Some l \<longrightarrow> map_get (ls_lanes st) s' = Some l \<longrightarrow> s = s')"

lemma lanes_invD:
  assumes "lanes_inv st"
  shows "inside (pcs st i) \<Longrightarrow> map_get (ls_lanes st) (lt_session (ls_task st i)) = Some (lt_lane (ls_task st i))"
    "pcs st i = LStart \<Longrightarrow> dones st i = None"
    "map_get (ls_lanes st) s = Some l \<Longrightarrow> l < ls_next st" "map_get (ls_lanes st) s = Some l \<Longrightarrow> live_ok st l"
    "map_get (ls_lanes st) s = Some l \<Longrightarrow> map_get (ls_lanes st) s' = Some l \<Longrightarrow> s = s'"
  using assms unfolding lanes_inv_def by blast+

lemma lanes_inv_live:
  assumes "lanes_inv st" "inside (pcs st i)"
  shows "lane_ok (ls_heap st (lt_lane (ls_task st i))) (members st (lt_lane (ls_task st i))) (pcs st) (dones st)"
    "i \<in> members st (lt_lane (ls_task st i))"
  using lanes_invD(4) [OF assms(1) lanes_invD(1) [OF assms]] assms(2) by (simp_all add: live_ok_def members_def)

text \<open>A step inside one lane.\<close>

lemma inside_step:
  assumes inv: "lanes_inv st" and i: "inside (pcs st i)" and l: "l = lt_lane (ls_task st i)"
    and st': "ls_lanes st' = ls_lanes st" "ls_next st' = ls_next st" "ls_heap st' = (ls_heap st)(l := lane')"
      "\<And>j. lt_session (ls_task st' j) = lt_session (ls_task st j)" "\<And>j. lt_lane (ls_task st' j) = lt_lane (ls_task st j)"
      "\<And>j. j \<notin> members st l \<Longrightarrow> pcs st' j = pcs st j \<and> dones st' j = dones st j" "\<And>j. j \<in> members st l \<Longrightarrow> inside (pcs st' j)"
    and ok: "lane_ok lane' (members st l) (pcs st') (dones st')"
  shows "lanes_inv st'"
proof -
  have ins: "inside (pcs st' j) \<longleftrightarrow> inside (pcs st j)" for j using st'(6,7) by (cases "j \<in> members st l") (auto simp: members_def)
  have mem: "members st' k = members st k" for k by (simp add: members_def ins st'(5))
  have start: "pcs st' j = LStart \<Longrightarrow> pcs st j = LStart \<and> dones st' j = dones st j" for j using st'(6,7) by (cases "j \<in> members st l") force+
  have live: "live_ok st' k" if "live_ok st k" for k
  proof (cases "k = l")
    case True
    then show ?thesis using ok st'(3) by (simp add: live_ok_def mem)
  next
    case False
    then have "j \<notin> members st l" if "j \<in> members st k" for j using that by (simp add: members_def)
    then show ?thesis using lane_ok_cong [OF that [unfolded live_ok_def], of "pcs st'" "dones st'"] st'(3,6) False by (simp add: live_ok_def mem)
  qed
  show ?thesis
    unfolding lanes_inv_def ins st'(1,2,4,5) using lanes_invD [OF inv] start live by (metis (no_types, lifting))
qed

section \<open>Preservation\<close>

lemma goto_sel [simp]:
  "ls_world (goto i pc st) = ls_world st" "ls_lanes (goto i pc st) = ls_lanes st" "ls_heap (goto i pc st) = ls_heap st"
  "ls_next (goto i pc st) = ls_next st" "ls_accepted (goto i pc st) = ls_accepted st" "ls_started (goto i pc st) = ls_started st"
  "lt_session (ls_task (goto i pc st) j) = lt_session (ls_task st j)" "lt_lane (ls_task (goto i pc st) j) = lt_lane (ls_task st j)"
  "pcs (goto i pc st) = (pcs st)(i := pc)" "dones (goto i pc st) = dones st"
  by (auto simp: goto_def pcs_def dones_def fun_eq_iff)

lemma set_lane_sel [simp]:
  "ls_world (set_lane l lane st) = ls_world st" "ls_lanes (set_lane l lane st) = ls_lanes st" "ls_heap (set_lane l lane st) = (ls_heap st)(l := lane)"
  "ls_next (set_lane l lane st) = ls_next st" "ls_accepted (set_lane l lane st) = ls_accepted st" "ls_started (set_lane l lane st) = ls_started st"
  "ls_task (set_lane l lane st) = ls_task st"
  by (simp_all add: set_lane_def)

lemma pcs_cong: "ls_task st' = ls_task st \<Longrightarrow> pcs st' = pcs st \<and> dones st' = dones st"
  by (simp add: pcs_def dones_def fun_eq_iff)

lemma goto_step:
  assumes inv: "lanes_inv st" and i: "inside (pcs st i)" and l: "l = lt_lane (ls_task st i)"
    and st1: "ls_lanes st1 = ls_lanes st" "ls_next st1 = ls_next st" "ls_task st1 = ls_task st" "ls_heap st1 = (ls_heap st)(l := lane')"
    and p: "inside p" and ok: "lane_ok lane' (members st l) ((pcs st)(i := p)) (dones st)"
  shows "lanes_inv (goto i p st1)"
proof -
  note same = pcs_cong [OF st1(3)]
  have "i \<in> members st l" using lanes_inv_live(2) [OF inv i] l by simp
  then show ?thesis
    using st1 p ok by (intro inside_step [OF inv i l, of "goto i p st1" lane']) (auto simp: same members_def)
qed

lemma enter_lane_inv:
  assumes inv: "lanes_inv st" and i: "pcs st i = LStart"
  shows "lanes_inv (enter_lane i st)"
proof -
  define t where "t = ls_task st i"
  define l where "l = (case map_get (ls_lanes st) (lt_session t) of Some l \<Rightarrow> l | None \<Rightarrow> ls_next st)"
  let ?st = "enter_lane i st" and ?old = "case map_get (ls_lanes st) (lt_session t) of Some l \<Rightarrow> ls_heap st l | None \<Rightarrow> new_lane"
  have st': "ls_heap ?st = (ls_heap st)(l := ?old\<lparr>ln_users := ln_users ?old + 1\<rparr>)"
    "ls_lanes ?st = (case map_get (ls_lanes st) (lt_session t) of Some l \<Rightarrow> ls_lanes st | None \<Rightarrow> map_put (lt_session t) l (ls_lanes st))"
    "ls_next st \<le> ls_next ?st" "l < ls_next ?st" "ls_task ?st = (ls_task st)(i := t\<lparr>lt_lane := l, lt_pc := LRun\<rparr>)"
    using lanes_invD(3) [OF inv] by (auto simp: enter_lane_def Let_def t_def l_def fun_eq_iff split: option.splits)
  have pc: "pcs ?st = (pcs st)(i := LRun)" "dones ?st = dones st" using st'(5) by (auto simp: pcs_def dones_def t_def fun_eq_iff)
  have dn: "dones st i = None" using lanes_invD(2) [OF inv i] .
  have ni: "i \<notin> members st k" for k using i by (simp add: members_def)
  have mem: "members ?st k = (if k = l then insert i (members st l) else members st k)" for k
    using st'(5) i by (auto simp: members_def pc split: if_splits)
  have lane: "map_get (ls_lanes ?st) s = Some k \<longleftrightarrow> map_get (ls_lanes st) s = Some k \<or> s = lt_session t \<and> k = l" for s k
    using st'(2) by (auto simp: l_def split: option.splits if_splits)
  have fresh: "k \<noteq> l" if "map_get (ls_lanes st) s = Some k" "map_get (ls_lanes st) (lt_session t) = None" for s k
    using lanes_invD(3) [OF inv that(1)] that(2) by (simp add: l_def)
  have none: "members st l = {}" if "map_get (ls_lanes st) (lt_session t) = None"
    using lanes_invD(1) [OF inv] fresh that by (fastforce simp: members_def)
  have mine: "live_ok ?st l"
  proof (cases "map_get (ls_lanes st) (lt_session t)")
    case None
    then show ?thesis using first_enters [of "dones st" i "pcs st"] dn none st'(1) by (simp add: live_ok_def pc mem new_lane_def)
  next
    case (Some k)
    then have "lane_ok (ls_heap st l) (members st l) (pcs st) (dones st)" using lanes_invD(4) [OF inv Some] by (simp add: l_def live_ok_def)
    from call_enters [OF this ni] dn show ?thesis using Some st'(1) by (simp add: live_ok_def pc mem l_def)
  qed
  have other: "live_ok ?st k" if "live_ok st k" "k \<noteq> l" for k
    using lane_ok_other(1) [OF that(1) [unfolded live_ok_def] ni] that(2) st'(1) by (simp add: live_ok_def mem pc)
  have uniq: "s = lt_session t" if "map_get (ls_lanes st) s = Some l" for s
  proof (cases "map_get (ls_lanes st) (lt_session t)")
    case None
    then show ?thesis using fresh [OF that] by simp
  next
    case (Some k)
    then show ?thesis using lanes_invD(5) [OF inv that, of "lt_session t"] by (simp add: l_def)
  qed
  show ?thesis
    unfolding lanes_inv_def
  proof (intro conjI allI impI)
    fix j assume "inside (pcs ?st j)"
    then show "map_get (ls_lanes ?st) (lt_session (ls_task ?st j)) = Some (lt_lane (ls_task ?st j))"
      using lanes_invD(1) [OF inv, of j] lane st'(5) by (auto simp: pc split: if_splits)
  next
    fix j assume "pcs ?st j = LStart"
    then show "dones ?st j = None" using lanes_invD(2) [OF inv, of j] by (simp add: pc split: if_splits)
  next
    fix s k assume "map_get (ls_lanes ?st) s = Some k"
    then show "k < ls_next ?st" "live_ok ?st k"
      using lane [of s k] lanes_invD(3,4) [OF inv, of s k] st'(3,4) mine other [of k] by (cases "k = l"; auto)+
  next
    fix s s' k assume "map_get (ls_lanes ?st) s = Some k" "map_get (ls_lanes ?st) s' = Some k"
    then show "s = s'" using lane [of s k] lane [of s' k] uniq [of s] uniq [of s'] lanes_invD(5) [OF inv, of s k s'] by blast
  qed
qed

lemma leave_lane_inv:
  assumes inv: "lanes_inv st" and i: "pcs st i = LLeave out"
  shows "lanes_inv (leave_lane i out st)"
proof -
  define t l where "t = ls_task st i" and "l = lt_lane t"
  let ?st = "leave_lane i out st" and ?lane = "(ls_heap st l)\<lparr>ln_users := ln_users (ls_heap st l) - 1\<rparr>"
  have ins: "inside (pcs st i)" using i by simp
  have ok: "lane_ok (ls_heap st l) (members st l) (pcs st) (dones st)" and mi: "i \<in> members st l"
    using lanes_inv_live [OF inv ins] by (simp_all add: l_def t_def)
  have mine: "map_get (ls_lanes st) (lt_session t) = Some l" using lanes_invD(1) [OF inv ins] by (simp add: t_def l_def)
  have fin: "finite (members st l)" using ok by (simp add: lane_ok_def lane_base_def)
  have zero: "ln_users (ls_heap st l) - 1 = 0 \<longleftrightarrow> members st l - {i} = {}" using users_after [OF ok mi] fin by simp
  have st': "ls_heap ?st = (ls_heap st)(l := ?lane)" "ls_next ?st = ls_next st"
    "ls_lanes ?st = (if members st l - {i} = {} then map_del (lt_session t) (ls_lanes st) else ls_lanes st)"
    "pcs ?st = (pcs st)(i := LRet out)" "dones ?st = dones st"
    "\<And>j. lt_session (ls_task ?st j) = lt_session (ls_task st j)" "\<And>j. lt_lane (ls_task ?st j) = lt_lane (ls_task st j)"
    using mine zero by (auto simp: leave_lane_def Let_def t_def [symmetric] l_def [symmetric] pcs_def dones_def fun_eq_iff goto_def)
  have mem: "members ?st k = members st k - {i}" for k unfolding members_def st'(4,7) by auto
  have lane: "map_get (ls_lanes ?st) s = Some k \<longleftrightarrow> map_get (ls_lanes st) s = Some k \<and> (k = l \<longrightarrow> members st l - {i} \<noteq> {})" for s k
  proof -
    have "k = l \<longleftrightarrow> s = lt_session t" if g: "map_get (ls_lanes st) s = Some k"
    proof
      assume "k = l"
      then show "s = lt_session t" using lanes_invD(5) [OF inv g, of "lt_session t"] mine by blast
    next
      assume "s = lt_session t"
      then show "k = l" using mine g by simp
    qed
    then show ?thesis unfolding st'(3) by auto
  qed
  have live: "live_ok ?st k" if k: "live_ok st k" "k = l \<longrightarrow> members st l - {i} \<noteq> {}" for k
  proof (cases "k = l")
    case True
    then show ?thesis using call_leaves [OF ok mi i] k(2) unfolding live_ok_def mem st'(1,4,5) by simp
  next
    case False
    then have ni: "i \<notin> members st k" by (simp add: members_def l_def t_def)
    then show ?thesis using lane_ok_other(1) [OF k(1) [unfolded live_ok_def] ni] False unfolding live_ok_def mem st'(1,4,5) by simp
  qed
  show ?thesis
    unfolding lanes_inv_def
  proof (intro conjI allI impI)
    fix j assume j: "inside (pcs ?st j)"
    then have "j \<noteq> i" "inside (pcs st j)" unfolding st'(4) by (auto split: if_splits)
    then show "map_get (ls_lanes ?st) (lt_session (ls_task ?st j)) = Some (lt_lane (ls_task ?st j))"
      using lanes_invD(1) [OF inv, of j] lane [of "lt_session (ls_task st j)"] unfolding st'(6,7) by (auto simp: members_def)
  next
    fix j assume "pcs ?st j = LStart"
    then show "dones ?st j = None" using lanes_invD(2) [OF inv, of j] unfolding st'(4,5) by (simp split: if_splits)
  next
    fix s k assume "map_get (ls_lanes ?st) s = Some k"
    then show "k < ls_next ?st" "live_ok ?st k" using lane [of s k] live [of k] lanes_invD(3,4) [OF inv, of s k] unfolding st'(2) by blast+
  next
    fix s s' k assume "map_get (ls_lanes ?st) s = Some k" "map_get (ls_lanes ?st) s' = Some k"
    then show "s = s'" using lane [of s k] lane [of s' k] lanes_invD(5) [OF inv, of s k s'] by blast
  qed
qed

lemma lane_step_inv:
  assumes inv: "lanes_inv st" and step: "lane_step i st = Some st'"
  shows "lanes_inv st'"
proof -
  define t l where "t = ls_task st i" and "l = lt_lane t"
  have pc: "lt_pc t = pcs st i" "lt_done t = dones st i" by (simp_all add: t_def pcs_def dones_def)
  note step' = step [unfolded lane_step_def Let_def, folded t_def, folded l_def, unfolded pc]
  have live: "lane_ok (ls_heap st l) (members st l) (pcs st) (dones st)" "i \<in> members st l" if "inside (pcs st i)"
    using lanes_inv_live [OF inv that] by (simp_all add: l_def t_def)
  have l: "l = lt_lane (ls_task st i)" by (simp add: l_def t_def)
  have run: "lanes_inv (goto i p st1)"
    if "runner (pcs st i)" "runner p" "current p @ waiting_ids lane' = current (pcs st i) @ waiting_ids (ls_heap st l)"
      "ls_lanes st1 = ls_lanes st" "ls_next st1 = ls_next st" "ls_task st1 = ls_task st" "ls_heap st1 = (ls_heap st)(l := lane')"
      "ln_running lane' = ln_running (ls_heap st l)" "ln_users lane' = ln_users (ls_heap st l)" "ln_callbackActive lane' \<longleftrightarrow> in_callback p" for p st1 lane'
    using that live [OF runner_inside [OF that(1)]]
    by (intro goto_step [OF inv runner_inside [OF that(1)] l] runner_goes_on) (auto intro: runner_inside)
  have quiet: "ln_callbackActive (ls_heap st l) \<longleftrightarrow> in_callback (pcs st i)" if "runner (pcs st i)"
    using lane_ok_runner [OF live(1) live(2) that] runner_inside [OF that] by (simp add: lane_runs_def)
  show ?thesis
  proof (cases "pcs st i")
    case LStart
    then show ?thesis using step' enter_lane_inv [OF inv LStart] by simp
  next
    case LRun
    then have ok: "lane_ok (ls_heap st l) (members st l) (pcs st) (dones st)" "i \<in> members st l" using live by auto
    have "lanes_inv (submit i st)"
    proof (cases "ln_callbackActive (ls_heap st l)")
      case True
      then show ?thesis
        using LRun call_ends [OF ok] goto_step [OF inv _ l, of st "ls_heap st l"] by (simp add: submit_def Let_def t_def [symmetric] l_def [symmetric])
    next
      case False
      let ?lane = "(ls_heap st l)\<lparr>ln_queue := ln_queue (ls_heap st l) @ [\<lparr>rq_fn = lt_body t, rq_done = i\<rparr>], ln_running := True\<rparr>"
      have "lane_ok ?lane (members st l) ((pcs st)(i := if ln_running (ls_heap st l) then LWait else LLoop)) (dones st)"
        by (rule request_queued [OF ok LRun]) (simp_all add: waiting_ids_def)
      then show ?thesis
        using LRun False by (auto simp: submit_def Let_def t_def [symmetric] l_def [symmetric] intro!: goto_step [OF inv _ l, of _ ?lane])
    qed
    then show ?thesis using step' LRun by simp
  next
    case LLoop
    then have ok: "lane_ok (ls_heap st l) (members st l) (pcs st) (dones st)" "i \<in> members st l" using live by auto
    have "lanes_inv (next_request i st)"
    proof (cases "ln_queue (ls_heap st l)")
      case Nil
      then show ?thesis
        using LLoop runner_stops [OF ok LLoop Nil] by (auto simp: next_request_def Let_def t_def [symmetric] l_def [symmetric] intro!: goto_step [OF inv _ l])
    next
      case (Cons request rest)
      then show ?thesis
        using LLoop quiet by (auto simp: next_request_def Let_def t_def [symmetric] l_def [symmetric] waiting_ids_def intro!: run [of _ "(ls_heap st l)\<lparr>ln_queue := rest\<rparr>"])
    qed
    then show ?thesis using step' LLoop by simp
  next
    case (LExec d b)
    have "lanes_inv (exec_body i d b st)"
    proof (cases b)
      case (Callback refused f)
      then show ?thesis
        using LExec quiet
        by (auto simp: exec_body_def Let_def t_def [symmetric] l_def [symmetric] waiting_ids_def
            intro!: run [of _ "(ls_heap st l)\<lparr>ln_callbackActive := True\<rparr>"])
    qed (use LExec quiet in \<open>auto simp: exec_body_def split: prod.splits intro!: run [of _ "ls_heap st l"]\<close>)
    then show ?thesis using step' LExec by simp
  next
    case (LReply d out)
    then have ok: "lane_ok (ls_heap st l) (members st l) (pcs st) (dones st)" "i \<in> members st l" using live by auto
    note reply = runner_replies [OF ok LReply]
    have st': "st' = goto i LLoop (st\<lparr>ls_task := (ls_task st)(d := (ls_task st d)\<lparr>lt_done := Some out\<rparr>)\<rparr>)" using step' LReply by simp
    have "pcs st' = (pcs st)(i := LLoop)" "dones st' = (dones st)(d := Some out)" by (auto simp: st' goto_def pcs_def dones_def fun_eq_iff)
    then show ?thesis
      using LReply reply ok(2) by (intro inside_step [OF inv _ l, of st' "ls_heap st l"]) (auto simp: st' members_def)
  next
    case LWait
    then have ok: "lane_ok (ls_heap st l) (members st l) (pcs st) (dones st)" "i \<in> members st l" using live by auto
    show ?thesis
      using step' LWait call_ends [OF ok] goto_step [OF inv _ l, of st "ls_heap st l"] by auto
  next
    case (LLeave out)
    then show ?thesis using step' leave_lane_inv [OF inv LLeave] by simp
  next
    case (LCall d f)
    then show ?thesis using step' quiet by (auto split: prod.splits intro!: run [of _ "ls_heap st l"])
  next
    case (LReset d b)
    then show ?thesis using step' by (auto simp: waiting_ids_def intro!: run [of _ "(ls_heap st l)\<lparr>ln_callbackActive := False\<rparr>"])
  qed (use step' in auto)
qed

lemma spawn_inv:
  assumes inv: "lanes_inv st" and i: "pcs st i = LIdle"
    and st': "st' = st\<lparr>ls_task := (ls_task st)(i := \<lparr>lt_session = sid, lt_body = b, lt_lane = 0, lt_done = None, lt_pc = LStart\<rparr>)\<rparr>"
  shows "lanes_inv st'"
proof -
  have pc: "pcs st' = (pcs st)(i := LStart)" "dones st' = (dones st)(i := None)" using st' by (auto simp: pcs_def dones_def fun_eq_iff)
  have ni: "i \<notin> members st k" for k using i by (simp add: members_def)
  have sel: "ls_lanes st' = ls_lanes st" "ls_heap st' = ls_heap st" "ls_next st' = ls_next st" "\<And>j. j \<noteq> i \<Longrightarrow> ls_task st' j = ls_task st j"
    using st' by simp_all
  have ins: "inside (pcs st' j) \<longleftrightarrow> inside (pcs st j)" "inside (pcs st j) \<Longrightarrow> ls_task st' j = ls_task st j" for j
    using i sel(4) [of j] by (cases "j = i"; simp add: pc)+
  have mem: "members st' k = members st k" for k using ins by (auto simp: members_def)
  have live: "live_ok st' k" if "live_ok st k" for k
    using lane_ok_other(2) [OF that [unfolded live_ok_def] ni] unfolding live_ok_def mem sel pc .
  show ?thesis
    unfolding lanes_inv_def ins sel
  proof (intro conjI allI impI)
    fix j assume "inside (pcs st j)"
    then show "map_get (ls_lanes st) (lt_session (ls_task st' j)) = Some (lt_lane (ls_task st' j))" using lanes_invD(1) [OF inv, of j] ins(2) by simp
  next
    fix j assume "pcs st' j = LStart"
    then show "dones st' j = None" using lanes_invD(2) [OF inv, of j] by (simp add: pc split: if_splits)
  qed (use lanes_invD(3,4,5) [OF inv] live in blast)+
qed

lemma lane_reach_inv: "lane_reach w0 st \<Longrightarrow> lanes_inv st"
proof (induction rule: lane_reach.induct)
  case init
  then show ?case by (simp add: lanes_inv_def lane_init_def pcs_def)
next
  case (spawn st i sid b)
  then show ?case using spawn_inv [of st i] by (simp add: pcs_def)
next
  case (step st i st')
  then show ?case using lane_step_inv by blast
next
  case (environment st w)
  then show ?case by (simp add: lanes_inv_def live_ok_def members_def pcs_def [abs_def] dones_def [abs_def])
qed

end
