(* ===== verification/Stream_Lane_Props.thy ===== *)
theory Stream_Lane_Props
  imports Stream_Lane_Inv
begin

text \<open>
  What the stream lanes promise: serial execution per session in the order of arrival, no deadlock,
  and no lane left behind.
\<close>

section \<open>Order\<close>

definition ids_of :: "string \<Rightarrow> (string \<times> nat) list \<Rightarrow> nat list" where
  "ids_of s xs = map snd (filter (\<lambda>x. fst x = s) xs)"

lemma ids_of_simps [simp]: "ids_of s [] = []" "ids_of s (xs @ [(s', i)]) = ids_of s xs @ (if s' = s then [i] else [])"
  by (simp_all add: ids_of_def)

definition queued_ids :: "'w lane_sys \<Rightarrow> string \<Rightarrow> nat list" where
  "queued_ids st s = (case map_get (ls_lanes st) s of Some l \<Rightarrow> waiting_ids (ls_heap st l) | None \<Rightarrow> [])"

lemma queued_ids_cong:
  "queued_ids (goto i pc st) s = queued_ids st s" "queued_ids (st\<lparr>ls_world := w\<rparr>) s = queued_ids st s" "queued_ids (st\<lparr>ls_task := ts\<rparr>) s = queued_ids st s"
  by (simp_all add: queued_ids_def split: option.splits)

lemma pcs_simps [simp]:
  "pcs (set_lane l lane st) = pcs st" "pcs (st\<lparr>ls_world := w\<rparr>) = pcs st" "pcs (st\<lparr>ls_started := xs\<rparr>) = pcs st" "pcs (st\<lparr>ls_accepted := xs\<rparr>) = pcs st"
  "pcs (st\<lparr>ls_task := (ls_task st)(d := (ls_task st d)\<lparr>lt_done := x\<rparr>)\<rparr>) = pcs st"
  by (simp_all add: pcs_def fun_eq_iff)

definition early :: "'w lane_pc \<Rightarrow> bool" where
  "early pc \<longleftrightarrow> pc = LIdle \<or> pc = LStart \<or> pc = LRun"

lemma early_simps [simp]:
  "early LIdle" "early LStart" "early LRun" "\<not> early LLoop" "\<not> early (LExec d b)" "\<not> early (LCall d f)" "\<not> early (LReset d b)"
  "\<not> early (LReply d out)" "\<not> early LWait" "\<not> early (LLeave out)" "\<not> early (LRet out)"
  by (simp_all add: early_def)

definition order_inv :: "'w lane_sys \<Rightarrow> bool" where
  "order_inv st \<longleftrightarrow> (\<forall>s. ids_of s (ls_accepted st) = ids_of s (ls_started st) @ queued_ids st s)
     \<and> distinct (map snd (ls_accepted st)) \<and> (\<forall>i. early (pcs st i) \<longrightarrow> i \<notin> snd ` set (ls_accepted st))"

lemma order_same:
  assumes "order_inv st" "ls_accepted st' = ls_accepted st" "ls_started st' = ls_started st"
    and "\<And>s. queued_ids st' s = queued_ids st s" "\<And>i. early (pcs st' i) \<Longrightarrow> early (pcs st i)"
  shows "order_inv st'"
  using assms unfolding order_inv_def by simp

lemma queued_same:
  assumes "ls_lanes st' = ls_lanes st" "ls_heap st' = (ls_heap st)(l := lane')" "waiting_ids lane' = waiting_ids (ls_heap st l)"
  shows "queued_ids st' s = queued_ids st s"
  using assms by (simp add: queued_ids_def split: option.splits)

text \<open>A step that changes the queue of its own lane changes the queue of its own session only.\<close>

lemma queued_mine:
  assumes inv: "lanes_inv st" and i: "inside (pcs st i)" and st': "ls_lanes st' = ls_lanes st" "ls_heap st' = (ls_heap st)(lt_lane (ls_task st i) := lane')"
  shows "queued_ids st' s = (if s = lt_session (ls_task st i) then waiting_ids lane' else queued_ids st s)"
    "queued_ids st (lt_session (ls_task st i)) = waiting_ids (ls_heap st (lt_lane (ls_task st i)))"
proof -
  note mine = lanes_invD(1) [OF inv i]
  show "queued_ids st (lt_session (ls_task st i)) = waiting_ids (ls_heap st (lt_lane (ls_task st i)))" using mine by (simp add: queued_ids_def)
  show "queued_ids st' s = (if s = lt_session (ls_task st i) then waiting_ids lane' else queued_ids st s)"
  proof (cases "s = lt_session (ls_task st i)")
    case True
    then show ?thesis using mine st' by (simp add: queued_ids_def)
  next
    case False
    then have "map_get (ls_lanes st) s \<noteq> Some (lt_lane (ls_task st i))" using lanes_invD(5) [OF inv mine] by blast
    then show ?thesis using False st' by (auto simp: queued_ids_def split: option.splits)
  qed
qed

lemma submit_order:
  assumes inv: "lanes_inv st" and ord: "order_inv st" and i: "pcs st i = LRun"
  shows "order_inv (submit i st)"
proof (cases "ln_callbackActive (ls_heap st (lt_lane (ls_task st i)))")
  case True
  then show ?thesis using i
    by (intro order_same [OF ord]) (auto simp: submit_def Let_def queued_ids_cong split: if_splits)
next
  case False
  define t l where "t = ls_task st i" and "l = lt_lane t"
  let ?lane = "(ls_heap st l)\<lparr>ln_queue := ln_queue (ls_heap st l) @ [\<lparr>rq_fn = lt_body t, rq_done = i\<rparr>], ln_running := True\<rparr>"
  have st': "ls_lanes (submit i st) = ls_lanes st" "ls_heap (submit i st) = (ls_heap st)(l := ?lane)" "ls_started (submit i st) = ls_started st"
    "ls_accepted (submit i st) = ls_accepted st @ [(lt_session t, i)]" "\<And>j. early (pcs (submit i st) j) \<Longrightarrow> early (pcs st j) \<and> j \<noteq> i"
    using False by (auto simp: submit_def Let_def t_def l_def pcs_def split: if_splits)
  have ins: "inside (pcs st i)" using i by simp
  note Q = queued_mine [OF inv ins st'(1) st'(2) [unfolded l_def t_def]]
  have "ids_of s (ls_accepted (submit i st)) = ids_of s (ls_started (submit i st)) @ queued_ids (submit i st) s" for s
    using ord Q by (auto simp: order_inv_def st'(3,4) t_def l_def waiting_ids_def)
  moreover have "i \<notin> snd ` set (ls_accepted st)" using ord i by (simp add: order_inv_def)
  ultimately show ?thesis using ord st'(5) by (auto simp: order_inv_def st'(4))
qed

lemma next_request_order:
  assumes inv: "lanes_inv st" and ord: "order_inv st" and i: "pcs st i = LLoop"
  shows "order_inv (next_request i st)"
proof (cases "ln_queue (ls_heap st (lt_lane (ls_task st i)))")
  case Nil
  then show ?thesis using i
    by (intro order_same [OF ord] queued_same [of _ _ "lt_lane (ls_task st i)" "(ls_heap st (lt_lane (ls_task st i)))\<lparr>ln_running := False\<rparr>"]) (auto simp: next_request_def Let_def waiting_ids_def split: if_splits)
next
  case (Cons request rest)
  define t l where "t = ls_task st i" and "l = lt_lane t"
  let ?st = "next_request i st" and ?lane = "(ls_heap st l)\<lparr>ln_queue := rest\<rparr>"
  have st': "ls_lanes ?st = ls_lanes st" "ls_heap ?st = (ls_heap st)(l := ?lane)" "ls_accepted ?st = ls_accepted st"
    "ls_started ?st = ls_started st @ [(lt_session t, rq_done request)]" "\<And>j. early (pcs ?st j) \<Longrightarrow> early (pcs st j)"
    using Cons by (auto simp: next_request_def Let_def t_def l_def pcs_def split: if_splits)
  have ins: "inside (pcs st i)" using i by simp
  note Q = queued_mine [OF inv ins st'(1) st'(2) [unfolded l_def t_def]]
  have "ids_of s (ls_accepted ?st) = ids_of s (ls_started ?st) @ queued_ids ?st s" for s
    using ord Q Cons by (auto simp: order_inv_def st'(3,4) t_def l_def waiting_ids_def)
  then show ?thesis using ord st'(5) by (auto simp: order_inv_def st'(3))
qed

lemma enter_order:
  assumes inv: "lanes_inv st" and ord: "order_inv st" and i: "pcs st i = LStart"
  shows "order_inv (enter_lane i st)"
proof (rule order_same [OF ord])
  fix s
  show "queued_ids (enter_lane i st) s = queued_ids st s"
  proof (cases "map_get (ls_lanes st) (lt_session (ls_task st i))")
    case None
    have "map_get (ls_lanes st) s \<noteq> Some (ls_next st)" using lanes_invD(3) [OF inv, of s "ls_next st"] by blast
    then show ?thesis using None
      by (auto simp: enter_lane_def Let_def queued_ids_def waiting_ids_def new_lane_def split: option.splits)
  next
    case (Some l)
    then show ?thesis by (auto simp: enter_lane_def Let_def queued_ids_def waiting_ids_def split: option.splits)
  qed
next
  fix j assume "early (pcs (enter_lane i st) j)"
  then show "early (pcs st j)" using i by (cases "j = i") (auto simp: enter_lane_def Let_def pcs_def split: option.splits)
qed (simp_all add: enter_lane_def Let_def split: option.splits)

lemma leave_order:
  assumes inv: "lanes_inv st" and ord: "order_inv st" and i: "pcs st i = LLeave out"
  shows "order_inv (leave_lane i out st)"
proof (rule order_same [OF ord])
  define t l where "t = ls_task st i" and "l = lt_lane t"
  have ins: "inside (pcs st i)" using i by simp
  have ok: "lane_ok (ls_heap st l) (members st l) (pcs st) (dones st)" and mi: "i \<in> members st l"
    using lanes_inv_live [OF inv ins] by (simp_all add: l_def t_def)
  have last: "waiting_ids (ls_heap st l) = []" if "ln_users (ls_heap st l) - 1 = 0"
  proof -
    have "finite (members st l)" using ok by (simp add: lane_ok_def lane_base_def)
    then have only: "j = i" if "j \<in> members st l" for j using users_after [OF ok mi] \<open>ln_users (ls_heap st l) - 1 = 0\<close> that by auto
    have "\<not> lane_runs (ls_heap st l) (members st l) (pcs st) (dones st) r" for r
    proof
      assume r: "lane_runs (ls_heap st l) (members st l) (pcs st) (dones st) r"
      then have "r \<in> members st l" "runner (pcs st r)" by (auto simp: lane_runs_def)
      then show False using only i by fastforce
    qed
    then show ?thesis using ok by (auto simp: lane_ok_def lane_idle_def)
  qed
  fix s
  show "queued_ids (leave_lane i out st) s = queued_ids st s"
    using last lanes_invD(1) [OF inv ins]
    by (auto simp: leave_lane_def Let_def queued_ids_def waiting_ids_def t_def l_def split: option.splits)
next
  fix j assume "early (pcs (leave_lane i out st) j)"
  then show "early (pcs st j)" by (auto simp: leave_lane_def Let_def pcs_def goto_def split: if_splits)
qed (simp_all add: leave_lane_def Let_def)

lemma exec_body_order:
  assumes "order_inv st" "pcs st i = LExec d b"
  shows "order_inv (exec_body i d b st)"
proof (cases b)
  case (Callback refused f)
  then show ?thesis
    by (intro order_same [OF assms(1)] queued_same [of _ _ "lt_lane (ls_task st i)" "ls_heap (exec_body i d b st) (lt_lane (ls_task st i))"])
      (auto simp: exec_body_def Let_def waiting_ids_def split: if_splits)
qed (auto simp: exec_body_def queued_ids_cong split: prod.splits if_splits intro!: order_same [OF assms(1)])

lemma lane_step_order:
  assumes inv: "lanes_inv st" and ord: "order_inv st" and step: "lane_step i st = Some st'"
  shows "order_inv st'"
proof -
  have pc: "lt_pc (ls_task st i) = pcs st i" by (simp add: pcs_def)
  note step' = step [unfolded lane_step_def Let_def pc]
  show ?thesis
  proof (cases "pcs st i")
    case LStart
    then show ?thesis using step' enter_order [OF inv ord LStart] by simp
  next
    case LRun
    then show ?thesis using step' submit_order [OF inv ord LRun] by simp
  next
    case LLoop
    then show ?thesis using step' next_request_order [OF inv ord LLoop] by simp
  next
    case (LExec d b)
    then show ?thesis using step' exec_body_order [OF ord LExec] by simp
  next
    case (LLeave out)
    then show ?thesis using step' leave_order [OF inv ord LLeave] by simp
  next
    case (LReset d b)
    then show ?thesis using step'
      by (intro order_same [OF ord] queued_same [of _ _ "lt_lane (ls_task st i)" "(ls_heap st (lt_lane (ls_task st i)))\<lparr>ln_callbackActive := False\<rparr>"])
        (auto simp: waiting_ids_def split: if_splits)
  qed (use step' in \<open>auto simp: queued_ids_cong split: prod.splits if_splits intro!: order_same [OF ord]\<close>)
qed

lemma lane_reach_order: "lane_reach w0 st \<Longrightarrow> order_inv st"
proof (induction rule: lane_reach.induct)
  case init
  then show ?case by (simp add: order_inv_def lane_init_def queued_ids_def)
next
  case (spawn st i sid b)
  then show ?case by (intro order_same [OF spawn.IH]) (auto simp: queued_ids_cong pcs_def split: if_splits)
next
  case (step st i st')
  then show ?case using lane_step_order [OF lane_reach_inv [OF step.hyps(1)] step.IH step.hyps(2)] by simp
next
  case (environment st w)
  then show ?case by (intro order_same [OF environment.IH]) (auto simp: queued_ids_cong)
qed

section \<open>Two calls of one session\<close>

fun run_lanes :: "nat list \<Rightarrow> 'w lane_sys \<Rightarrow> 'w lane_sys option" where
  "run_lanes [] st = Some st"
| "run_lanes (i # is) st = (case lane_step i st of None \<Rightarrow> None | Some st' \<Rightarrow> run_lanes is st')"

lemma run_lanes_reach: "run_lanes is st = Some st' \<Longrightarrow> lane_reach w0 st \<Longrightarrow> lane_reach w0 st'"
proof (induction "is" arbitrary: st)
  case (Cons i "is")
  then obtain st1 where "lane_step i st = Some st1" "run_lanes is st1 = Some st'" by (auto split: option.splits)
  then show ?case using Cons.IH lane_reach.step [OF Cons.prems(2)] by blast
qed simp

definition demo_body :: "nat body" where
  "demo_body = Callback (Finish (Err (Sentinel ErrStreamCallbackActive))) (\<lambda>w. (Finish (Ret ()), w + 1))"

definition demo_call :: "nat lane_task" where
  "demo_call = \<lparr>lt_session = ''s-1'', lt_body = demo_body, lt_lane = 0, lt_done = None, lt_pc = LStart\<rparr>"

definition demo_lanes :: "nat lane_sys" where
  "demo_lanes = (lane_init 0)\<lparr>ls_task := (ls_task (lane_init 0))(0 := demo_call, 1 := demo_call)\<rparr>"

lemma demo_lanes_reach: "lane_reach 0 demo_lanes"
proof -
  have "lane_reach 0 ((lane_init 0)\<lparr>ls_task := (ls_task (lane_init 0))(0 := demo_call)\<rparr>)"
    unfolding demo_call_def by (rule lane_reach.spawn [OF lane_reach.init]) (simp add: lane_init_def)
  from lane_reach.spawn [OF this, of 1 "''s-1''" demo_body] show ?thesis
    by (simp add: demo_lanes_def demo_call_def lane_init_def)
qed

lemmas lane_run_simps = demo_lanes_def demo_call_def demo_body_def lane_init_def lane_step_def enter_lane_def submit_def next_request_def
  exec_body_def leave_lane_def set_lane_def goto_def new_lane_def stream_recover_def

text \<open>The second call waits while the first is about to run its callback.\<close>

lemma demo_waiting:
  "\<exists>st. run_lanes [0, 1, 0, 1, 0] demo_lanes = Some st \<and> pcs st 0 = LExec 0 demo_body \<and> pcs st 1 = LWait \<and> lane_step 1 st = None
    \<and> ls_accepted st = [(''s-1'', 0), (''s-1'', 1)] \<and> ls_started st = [(''s-1'', 0)] \<and> lt_session (ls_task st 1) = ''s-1''"
  by (simp add: lane_run_simps pcs_def)

section \<open>Properties\<close>

text \<open>
  C8: Per-session serialisation.  In every reachable state at most one goroutine runs stream requests
  of a session, its \<open>invokeCallback\<close> never finds a callback active, and the table of lanes has an
  entry for a session exactly while some call of that session is under way.
\<close>

theorem stream_serial:
  assumes "lane_reach w0 st"
  shows "(\<forall>i j. runner (pcs st i) \<longrightarrow> runner (pcs st j) \<longrightarrow> lt_session (ls_task st i) = lt_session (ls_task st j) \<longrightarrow> i = j)
    \<and> (\<forall>i d refused f. pcs st i = LExec d (Callback refused f) \<longrightarrow> \<not> ln_callbackActive (ls_heap st (lt_lane (ls_task st i))))
    \<and> (\<forall>s. map_get (ls_lanes st) s \<noteq> None \<longleftrightarrow> (\<exists>i. inside (pcs st i) \<and> lt_session (ls_task st i) = s))"
proof (intro conjI allI impI)
  note inv = lane_reach_inv [OF assms]
  have runs: "lane_runs (ls_heap st (lt_lane (ls_task st i))) (members st (lt_lane (ls_task st i))) (pcs st) (dones st) i"
    if "runner (pcs st i)" for i
    using lane_ok_runner [OF lanes_inv_live [OF inv runner_inside [OF that]] that] .
  fix i j assume r: "runner (pcs st i)" "runner (pcs st j)" "lt_session (ls_task st i) = lt_session (ls_task st j)"
  then have "lt_lane (ls_task st i) = lt_lane (ls_task st j)"
    using lanes_invD(1) [OF inv, of i] lanes_invD(1) [OF inv, of j] runner_inside by fastforce
  then have "j \<in> members st (lt_lane (ls_task st i))" using r(2) by (simp add: members_def runner_inside)
  then show "i = j" using runs [OF r(1)] r(2) by (auto simp: lane_runs_def)
next
  note inv = lane_reach_inv [OF assms]
  fix i d refused f assume "pcs st i = LExec d (Callback refused f)"
  then show "\<not> ln_callbackActive (ls_heap st (lt_lane (ls_task st i)))"
    using lane_ok_runner [OF lanes_inv_live [OF inv]] by (auto simp: lane_runs_def)
next
  note inv = lane_reach_inv [OF assms]
  fix s show "map_get (ls_lanes st) s \<noteq> None \<longleftrightarrow> (\<exists>i. inside (pcs st i) \<and> lt_session (ls_task st i) = s)"
  proof
    assume "map_get (ls_lanes st) s \<noteq> None"
    then obtain l where l: "map_get (ls_lanes st) s = Some l" by blast
    then obtain i where i: "inside (pcs st i)" "lt_lane (ls_task st i) = l"
      using lanes_invD(4) [OF inv l] by (auto simp: live_ok_def lane_ok_def lane_base_def members_def)
    then show "\<exists>i. inside (pcs st i) \<and> lt_session (ls_task st i) = s"
      using lanes_invD(5) [OF inv l] lanes_invD(1) [OF inv i(1)] by auto
  next
    assume "\<exists>i. inside (pcs st i) \<and> lt_session (ls_task st i) = s"
    then show "map_get (ls_lanes st) s \<noteq> None" using lanes_invD(1) [OF inv] by auto
  qed
qed

theorem stream_serial_witness:
  "\<exists>st. pcs st 0 = LExec 0 demo_body \<and> pcs st 1 = LWait \<and> (\<forall>j. runner (pcs st j) \<longrightarrow> lt_session (ls_task st 0) = lt_session (ls_task st j) \<longrightarrow> j = 0)"
proof -
  obtain st where st: "run_lanes [0, 1, 0, 1, 0] demo_lanes = Some st" "pcs st 0 = LExec 0 demo_body" "pcs st 1 = LWait" using demo_waiting by blast
  have "runner (pcs st 0)" using st(2) by simp
  then show ?thesis using st conjunct1 [OF stream_serial [OF run_lanes_reach [OF st(1) demo_lanes_reach]]] by metis
qed

text \<open>
  C36: Order.  The requests of a session begin in the order in which they were accepted, each once:
  those that have begun, followed by those in the queue of the session's lane, are all the accepted ones.
\<close>

theorem stream_fifo:
  assumes "lane_reach w0 st"
  shows "ids_of s (ls_accepted st) = ids_of s (ls_started st)
      @ (case map_get (ls_lanes st) s of Some l \<Rightarrow> map rq_done (ln_queue (ls_heap st l)) | None \<Rightarrow> [])
    \<and> distinct (map snd (ls_accepted st))"
  using lane_reach_order [OF assms] unfolding order_inv_def queued_ids_def waiting_ids_def by blast

theorem stream_fifo_witness:
  "\<exists>st :: nat lane_sys. ids_of ''s-1'' (ls_accepted st) = [0, 1] \<and> ids_of ''s-1'' (ls_started st) = [0]
    \<and> (case map_get (ls_lanes st) ''s-1'' of Some l \<Rightarrow> map rq_done (ln_queue (ls_heap st l)) | None \<Rightarrow> []) = [1]"
proof -
  obtain st where st: "run_lanes [0, 1, 0, 1, 0] demo_lanes = Some st" "ls_accepted st = [(''s-1'', 0), (''s-1'', 1)]" "ls_started st = [(''s-1'', 0)]"
    using demo_waiting by blast
  then show ?thesis
    using stream_fifo [OF run_lanes_reach [OF st(1) demo_lanes_reach], of "''s-1''"] by (intro exI [of _ st]) (simp add: ids_of_def)
qed

text \<open>
  C37: No deadlock.  In every reachable state a call that has not returned, or another one of the same
  session, can step: a call waits only while a goroutine is running the requests of its lane.
\<close>

theorem stream_progress:
  assumes "lane_reach w0 st" "pcs st i = LStart \<or> inside (pcs st i)"
  shows "\<exists>j st'. lane_step j st = Some st' \<and> lt_session (ls_task st j) = lt_session (ls_task st i)"
proof (cases "pcs st i = LWait \<and> dones st i = None")
  case False
  then have "lane_step i st \<noteq> None"
    using assms(2) by (cases "pcs st i") (auto simp: lane_step_def Let_def pcs_def dones_def split: prod.splits)
  then show ?thesis by blast
next
  case True
  note inv = lane_reach_inv [OF assms(1)]
  define l where "l = lt_lane (ls_task st i)"
  have ok: "lane_ok (ls_heap st l) (members st l) (pcs st) (dones st)" and mi: "i \<in> members st l"
    using lanes_inv_live [OF inv, of i] True by (simp_all add: l_def)
  have "i \<in> pending (members st l) (pcs st) (dones st)" using True mi by (simp add: pending_def)
  then obtain r where r: "r \<in> members st l" "runner (pcs st r)" using ok by (auto simp: lane_ok_def lane_idle_def lane_runs_def)
  then have same: "lt_session (ls_task st r) = lt_session (ls_task st i)"
    using lanes_invD(5) [OF inv lanes_invD(1) [OF inv, of r], of "lt_session (ls_task st i)"] lanes_invD(1) [OF inv, of i] True
    by (simp add: members_def l_def)
  have "lane_step r st \<noteq> None" using r(2) by (cases "pcs st r") (auto simp: lane_step_def Let_def pcs_def split: prod.splits)
  then show ?thesis using same by blast
qed

theorem stream_progress_witness:
  "\<exists>st :: nat lane_sys. lane_step 1 st = None \<and> pcs st 1 = LWait \<and> (\<exists>j st'. lane_step j st = Some st' \<and> lt_session (ls_task st j) = ''s-1'')"
proof -
  obtain st where st: "run_lanes [0, 1, 0, 1, 0] demo_lanes = Some st" "pcs st 1 = LWait" "lane_step 1 st = None" "lt_session (ls_task st 1) = ''s-1''"
    using demo_waiting by blast
  then show ?thesis using stream_progress [OF run_lanes_reach [OF st(1) demo_lanes_reach], of 1] by (intro exI [of _ st]) simp
qed

end
