(* ===== verification/Admission_Steps.thy ===== *)
theory Admission_Steps
  imports Admission Server_Memory
begin

text \<open>
  Connections come and go while calls of \<open>ServerAdmission.Handle\<close> are under way: every interleaving of
  \<open>Replace\<close>, of the two critical sections of \<open>Handle\<close> with the server's work between them, of the
  writers that drain the queues, and of whatever changes the collaborators' state.  The server's work of
  one call is one step here; its own interleavings are those of the flights and the lanes.
\<close>

section \<open>Steps\<close>

datatype handle_call =
    Admitted ServerAdmission ConnectionGeneration nat Envelope  \<comment> \<open>with the gate it was admitted by\<close>
  | Rejected nat Envelope
  | Processed ConnectionGeneration nat serverHandleResult
  | Returned

record 'w gate_sys =
  gs_gate :: "'w gate"
  gs_calls :: "handle_call list"

definition gs_adm :: "'w gate_sys \<Rightarrow> ServerAdmission" where
  "gs_adm gs = gt_adm (gs_gate gs)"

definition gs_queues :: "'w gate_sys \<Rightarrow> OutboundQueue list" where
  "gs_queues gs = gt_queues (gs_gate gs)"

definition drained :: "OutboundQueue \<Rightarrow> OutboundQueue \<Rightarrow> bool" where
  "drained q q' \<longleftrightarrow> (\<exists>taken. q_frames q = taken @ q_frames q') \<and> (q_closed q \<longrightarrow> q_closed q')"

inductive gate_step :: "'w ServerProtocol \<Rightarrow> 'w gate_sys \<Rightarrow> 'w gate_sys \<Rightarrow> bool" for sv where
  replace: "gate_step sv gs (gs\<lparr>gs_gate := snd (Replace (gs_gate gs))\<rparr>)"
| admitted: "admit sv generation frame (gs_adm gs) = (Process i, c) \<Longrightarrow>
    gate_step sv gs (gs\<lparr>gs_gate := (gs_gate gs)\<lparr>gt_adm := c\<rparr>, gs_calls := gs_calls gs @ [Admitted (gs_adm gs) generation i frame]\<rparr>)"
| rejected: "admit sv generation frame (gs_adm gs) = (Reject i, c) \<Longrightarrow>
    gate_step sv gs (gs\<lparr>gs_gate := (gs_gate gs)\<lparr>gt_adm := c\<rparr>, gs_calls := gs_calls gs @ [Rejected i frame]\<rparr>)"
| answer: "k < length (gs_calls gs) \<Longrightarrow> gs_calls gs ! k = Rejected i frame \<Longrightarrow>
    enqueueError sv (env_SessionID frame) (env_ID frame) ErrorProtocolViolation
      ''frame is invalid for server connection state'' False (gate_io i (gs_gate gs)) = (out, io) \<Longrightarrow>
    gate_step sv gs (gs\<lparr>gs_gate := set_io i io (gs_gate gs), gs_calls := (gs_calls gs)[k := Returned]\<rparr>)"
| process: "k < length (gs_calls gs) \<Longrightarrow> gs_calls gs ! k = Admitted a generation i frame \<Longrightarrow>
    invokeServerProcess sv ot frame (gate_io i (gs_gate gs)) = (result, out, io) \<Longrightarrow>
    gate_step sv gs (gs\<lparr>gs_gate := set_io i io (gs_gate gs), gs_calls := (gs_calls gs)[k := Processed generation i result]\<rparr>)"
| finish: "k < length (gs_calls gs) \<Longrightarrow> gs_calls gs ! k = Processed generation i result \<Longrightarrow>
    gate_step sv gs (gs\<lparr>gs_gate := (gs_gate gs)\<lparr>gt_adm := applyResult generation i result (gs_adm gs)\<rparr>,
      gs_calls := (gs_calls gs)[k := Returned]\<rparr>)"
| drain: "i < length (gs_queues gs) \<Longrightarrow> drained (gs_queues gs ! i) q \<Longrightarrow>
    gate_step sv gs (gs\<lparr>gs_gate := (gs_gate gs)\<lparr>gt_queues := (gs_queues gs)[i := q], gt_world := w\<rparr>\<rparr>)"

inductive gate_reach :: "'w ServerProtocol \<Rightarrow> 'w gate_sys \<Rightarrow> bool" for sv where
  init: "gate_reach sv \<lparr>gs_gate = \<lparr>gt_adm = NewServerAdmission, gt_queues = [], gt_world = w\<rparr>, gs_calls = []\<rparr>"
| step: "gate_reach sv gs \<Longrightarrow> gate_step sv gs gs' \<Longrightarrow> gate_reach sv gs'"

section \<open>Invariant\<close>

definition adm_ok :: "ServerAdmission \<Rightarrow> bool" where
  "adm_ok c \<longleftrightarrow> (if ad_state c = ServerAdmissionReady \<or> ad_state c = ServerAdmissionResuming then ad_sessionID c \<noteq> []
     else ad_capabilities c = no_capabilities)"

definition old_closed :: "ServerAdmission \<Rightarrow> OutboundQueue list \<Rightarrow> bool" where
  "old_closed c qs \<longleftrightarrow> (case ad_outbound c of None \<Rightarrow> True | Some i \<Rightarrow> i < length qs)
     \<and> (\<forall>i < length qs. ad_outbound c \<noteq> Some i \<longrightarrow> q_closed (qs ! i))"

text \<open>
  When a frame may be handed to the server: on an open connection, and a well-formed one only if the
  state of the connection admits its type and its session.
\<close>

definition admitted_ok :: "'w ServerProtocol \<Rightarrow> ServerAdmission \<Rightarrow> Envelope \<Rightarrow> bool" where
  "admitted_ok sv a frame \<longleftrightarrow> ad_state a \<noteq> ServerAdmissionClosed
     \<and> (ValidateFrame (Some frame) (sv_Limits sv) (sv_StrictValidation sv) = None \<longrightarrow>
         ad_state a = ServerAdmissionAwaitingHandshake \<and> \<not> ad_handshake a \<and> env_Type frame \<in> {FrameHello, FrameResume, FrameError}
       \<or> ad_state a = ServerAdmissionReady \<and> env_SessionID frame = ad_sessionID a \<and> ad_sessionID a \<noteq> []
           \<and> env_Type frame \<in> {FramePing, FrameSend, FrameStateQuery, FrameResume, FrameError}
       \<or> ad_state a = ServerAdmissionResuming \<and> env_Type frame = FrameError)"

definition handle_ok :: "'w ServerProtocol \<Rightarrow> nat \<Rightarrow> handle_call \<Rightarrow> bool" where
  "handle_ok sv n call = (case call of Admitted a generation i frame \<Rightarrow> i < n \<and> ad_generation a = generation \<and> ad_outbound a = Some i \<and> admitted_ok sv a frame
     | Rejected i frame \<Rightarrow> i < n | Processed generation i result \<Rightarrow> i < n | Returned \<Rightarrow> True)"

definition gate_inv :: "'w ServerProtocol \<Rightarrow> 'w gate_sys \<Rightarrow> bool" where
  "gate_inv sv gs \<longleftrightarrow> adm_ok (gs_adm gs) \<and> old_closed (gs_adm gs) (gs_queues gs)
     \<and> list_all (handle_ok sv (length (gs_queues gs))) (gs_calls gs)"

lemma request_types:
  "FrameHello \<noteq> FramePing" "FrameHello \<noteq> FrameSend" "FrameHello \<noteq> FrameStateQuery" "FrameHello \<noteq> FrameResume" "FrameHello \<noteq> FrameError"
  "FrameResume \<noteq> FramePing" "FrameResume \<noteq> FrameSend" "FrameResume \<noteq> FrameStateQuery" "FrameResume \<noteq> FrameError"
  by code_simp+

lemma admit_Process:
  assumes "admit sv generation frame c = (Process i, c')"
  shows "ad_outbound c = Some i" "ad_generation c = generation" "ad_state c \<noteq> ServerAdmissionClosed"
    "ValidateFrame (Some frame) (sv_Limits sv) (sv_StrictValidation sv) = None \<Longrightarrow>
       allowed_frame (ad_state c) (env_Type frame) \<and> (ad_state c = ServerAdmissionReady \<longrightarrow> env_SessionID frame = ad_sessionID c)
       \<and> (ad_state c = ServerAdmissionAwaitingHandshake \<longrightarrow> \<not> ad_handshake c)"
  using assms by (simp_all add: admit_def split: option.splits if_splits)

lemma admit_admitted_ok:
  assumes "admit sv generation frame c = (Process i, c')" "adm_ok c"
  shows "admitted_ok sv c frame"
  using admit_Process(3,4) [OF assms(1)] assms(2) unfolding admitted_ok_def adm_ok_def allowed_frame_def
  by (cases "ad_state c") (simp_all, argo+)

lemma admit_admission:
  assumes "admit sv generation frame c = (d, c')"
  shows "ad_outbound c' = ad_outbound c" "adm_ok c \<Longrightarrow> adm_ok c'" "d = Reject i \<Longrightarrow> ad_outbound c = Some i"
  using assms by (auto simp: admit_def adm_ok_def split: option.splits if_splits)

lemma applyResult_admission:
  "ad_outbound (applyResult generation i result c) = ad_outbound c" "adm_ok c \<Longrightarrow> adm_ok (applyResult generation i result c)"
  by (auto simp: applyResult_def adm_ok_def Let_def)

lemma old_closed_update:
  assumes "old_closed c qs" "q_closed (qs ! i) \<Longrightarrow> q_closed q"
  shows "old_closed c (qs[i := q])"
proof -
  have "q_closed (qs[i := q] ! j)" if "j < length qs" "q_closed (qs ! j)" for j using that assms(2) by (cases "j = i") auto
  then show ?thesis using assms(1) by (simp add: old_closed_def split: option.splits)
qed

lemma Replace_closed:
  assumes "old_closed (gt_adm g) (gt_queues g)"
  shows "old_closed (gt_adm (snd (Replace g))) (gt_queues (snd (Replace g)))"
  using assms by (auto simp: old_closed_def Replace_def Let_def nth_append nth_list_update queue_closed_simps split: option.splits)

lemma Replace_ok: "adm_ok (gt_adm (snd (Replace g)))" "length (gt_queues g) \<le> length (gt_queues (snd (Replace g)))"
  by (simp_all add: Replace_def adm_ok_def Let_def split: option.splits)

lemma sends_invokeServerProcess: "sends sv io (snd (snd (invokeServerProcess sv ot frame io)))"
proof -
  have "sends sv io (snd (snd (processFrame sv ot frame io)))" using sends_processFrame [of sv io ot frame] by (simp add: end_io_def)
  then show ?thesis
    by (auto simp: invokeServerProcess_def split: prod.splits outcome.splits intro: sends_trans sends_close)
qed

lemma handle_ok_mono: "handle_ok sv n call \<Longrightarrow> n \<le> m \<Longrightarrow> handle_ok sv m call"
  by (auto simp: handle_ok_def split: handle_call.splits)

lemma gate_invI:
  assumes "gate_inv sv gs" "adm_ok (gs_adm gs')" "old_closed (gs_adm gs') (gs_queues gs')"
    and "length (gs_queues gs) \<le> length (gs_queues gs')"
    and "gs_calls gs' = gs_calls gs \<or> (\<exists>call. handle_ok sv (length (gs_queues gs')) call
      \<and> (gs_calls gs' = gs_calls gs @ [call] \<or> (\<exists>k. gs_calls gs' = (gs_calls gs)[k := call])))"
  shows "gate_inv sv gs'"
proof -
  have old: "list_all (handle_ok sv (length (gs_queues gs'))) (gs_calls gs)"
    using assms(1,4) handle_ok_mono by (fastforce simp: gate_inv_def list_all_iff)
  then have "list_all (handle_ok sv (length (gs_queues gs'))) (gs_calls gs')"
    using assms(5) set_update_subset_insert by (fastforce simp: list_all_iff)
  then show ?thesis using assms(2,3) by (simp add: gate_inv_def)
qed

lemma gate_inv_update:
  assumes "gate_inv sv gs" "adm_ok (gs_adm gs')" "old_closed (gs_adm gs') (gs_queues gs')"
    and "length (gs_queues gs') = length (gs_queues gs)" "gs_calls gs' = (gs_calls gs)[k := call]" "handle_ok sv (length (gs_queues gs)) call"
  shows "gate_inv sv gs'"
  by (rule gate_invI [OF assms(1-3)]) (use assms(4-6) in auto)

lemma set_io_closed:
  assumes "old_closed (gt_adm g) (gt_queues g)" "sends sv (gate_io i g) io"
  shows "old_closed (gt_adm (set_io i io g)) (gt_queues (set_io i io g))"
  using old_closed_update [OF assms(1), of i "io_out io"] assms(2) by (auto simp: set_io_def gate_io_def sends_def)

lemma gate_step_inv:
  assumes inv: "gate_inv sv gs" and step: "gate_step sv gs gs'"
  shows "gate_inv sv gs'"
proof -
  have ok: "adm_ok (gs_adm gs)" "old_closed (gs_adm gs) (gs_queues gs)" using inv by (simp_all add: gate_inv_def)
  have call: "handle_ok sv (length (gs_queues gs)) (gs_calls gs ! k)" if "k < length (gs_calls gs)" for k
    using inv that by (simp add: gate_inv_def list_all_length)
  from step show ?thesis
  proof (cases rule: gate_step.cases)
    case replace
    then show ?thesis using ok(2) Replace_closed [of "gs_gate gs"] Replace_ok [of "gs_gate gs"]
      by (intro gate_invI [OF inv]) (simp_all add: gs_adm_def gs_queues_def)
  next
    case (admitted generation frame i c)
    note A = admit_admission [OF admitted(2)] and P = admit_Process [OF admitted(2)]
    have "i < length (gs_queues gs)" using P(1) ok(2) by (simp add: old_closed_def)
    then have "handle_ok sv (length (gs_queues gs)) (Admitted (gs_adm gs) generation i frame)"
      using P(1,2) admit_admitted_ok [OF admitted(2) ok(1)] by (simp add: handle_ok_def)
    then show ?thesis using admitted(1) A(1,2) ok by (intro gate_invI [OF inv]) (auto simp: gs_adm_def gs_queues_def old_closed_def)
  next
    case (rejected generation frame i c)
    note A = admit_admission [OF rejected(2)]
    have "handle_ok sv (length (gs_queues gs)) (Rejected i frame)" using A(3) ok(2) by (simp add: old_closed_def handle_ok_def)
    then show ?thesis using rejected(1) A(1,2) ok by (intro gate_invI [OF inv]) (auto simp: gs_adm_def gs_queues_def old_closed_def)
  next
    case (answer k i frame out io)
    have "sends sv (gate_io i (gs_gate gs)) io" using sends_enqueueError answer(4) by (metis snd_conv)
    then show ?thesis using answer(1) ok set_io_closed [of "gs_gate gs" sv i io]
      by (intro gate_inv_update [OF inv, of _ k Returned]) (simp_all add: gs_adm_def gs_queues_def set_io_def handle_ok_def)
  next
    case (process k a generation i frame ot result out io)
    have "sends sv (gate_io i (gs_gate gs)) io" using sends_invokeServerProcess process(4) by (metis snd_conv)
    moreover have "handle_ok sv (length (gs_queues gs)) (Processed generation i result)" using call [OF process(2)] process(3) by (simp add: handle_ok_def)
    ultimately show ?thesis using process(1) ok set_io_closed [of "gs_gate gs" sv i io]
      by (intro gate_inv_update [OF inv, of _ k "Processed generation i result"]) (simp_all add: gs_adm_def gs_queues_def set_io_def)
  next
    case (finish k generation i result)
    then show ?thesis using ok applyResult_admission
      by (intro gate_inv_update [OF inv, of _ k Returned]) (simp_all add: gs_adm_def gs_queues_def old_closed_def handle_ok_def)
  next
    case (drain i q w)
    then show ?thesis using ok old_closed_update
      by (intro gate_invI [OF inv]) (auto simp: gs_adm_def gs_queues_def drained_def)
  qed
qed

lemma gate_reach_inv: "gate_reach sv gs \<Longrightarrow> gate_inv sv gs"
proof (induction rule: gate_reach.induct)
  case (init w)
  then show ?case by (simp add: gate_inv_def gs_adm_def gs_queues_def adm_ok_def old_closed_def NewServerAdmission_def)
next
  case (step gs gs')
  then show ?case using gate_step_inv by blast
qed

section \<open>Properties\<close>


text \<open>
  C38: Replacement fences late calls.  Whatever the server does for a call whose connection has been
  replaced, no queue gets a frame from it, and its result leaves the gate of the new connection unchanged.
\<close>

theorem late_call_fenced:
  assumes "gate_reach sv gs" "Admitted a generation i frame \<in> set (gs_calls gs)" "ad_outbound (gs_adm gs) \<noteq> Some i"
    and "invokeServerProcess sv ot frame (gate_io i (gs_gate gs)) = (result, out, io)"
  shows "map q_frames (gt_queues (set_io i io (gs_gate gs))) = map q_frames (gs_queues gs)
    \<and> applyResult generation i result (gs_adm gs) = gs_adm gs"
proof -
  note inv = gate_reach_inv [OF assms(1)]
  have i: "i < length (gs_queues gs)" using inv assms(2) by (auto simp: gate_inv_def list_all_iff handle_ok_def)
  then have "q_closed (gs_queues gs ! i)" using inv assms(3) by (simp add: gate_inv_def old_closed_def)
  moreover have "sends sv (gate_io i (gs_gate gs)) io" using sends_invokeServerProcess assms(4) by (metis snd_conv)
  ultimately have "q_frames (io_out io) = q_frames (gs_queues gs ! i)" by (auto simp: sends_def gate_io_def gs_queues_def)
  then have "map q_frames (gt_queues (set_io i io (gs_gate gs))) = map q_frames (gs_queues gs)"
    using i by (simp add: set_io_def gs_queues_def map_update list_update_id [of "map q_frames _", symmetric] list_update_same_conv)
  then show ?thesis using assms(3) by (simp add: applyResult_def)
qed

section \<open>A replaced connection\<close>

definition gate_hello :: Envelope where
  \<open>gate_hello = \<lparr>env_V = 2, env_Type = FrameHello, env_ID = [], env_SessionID = [], env_Seq = 0, env_Timestamp = 0,
     env_Payload = ''{"client_name":"demo"}''\<rparr>\<close>

definition gate_malformed :: Envelope where
  "gate_malformed = gate_hello\<lparr>env_Payload := ''{}x''\<rparr>"

definition gate_error :: Envelope where
  \<open>gate_error = \<lparr>env_V = 2, env_Type = FrameError, env_ID = [], env_SessionID = [], env_Seq = 0, env_Timestamp = 0,
     env_Payload = ''{"code":"INTERNAL","message":"m","retryable":true}''\<rparr>\<close>

lemma gate_hello_valid: "ValidateFrame (Some gate_hello) (normalizeLimits DefaultLimits) True = None"
  by code_simp

lemma gate_malformed_invalid:
  "ValidateFrame (Some gate_malformed) (normalizeLimits DefaultLimits) True
     = Some (ProtocolError ErrorBadRequest ''frame cannot be encoded: invalid JSON'' [] False False None)"
  by code_simp

lemma gate_error_valid: "ValidateFrame (Some gate_error) (normalizeLimits DefaultLimits) True = None"
  by code_simp

lemma example_server_sel: "sv_Limits example_server = normalizeLimits DefaultLimits" "sv_StrictValidation example_server = True"
  by (simp_all add: example_server_def)

definition gate_world :: "(string \<times> bytes) list memory_world" where
  "gate_world = new_world 0 (24 * hour) []"

definition connected :: ServerAdmission where
  "connected = \<lparr>ad_generation = 1, ad_outbound = Some 0, ad_state = ServerAdmissionAwaitingHandshake, ad_sessionID = [],
     ad_capabilities = no_capabilities, ad_handshake = False\<rparr>"

definition gate_connected :: "(string \<times> bytes) list memory_world gate_sys" where
  "gate_connected = \<lparr>gs_gate = \<lparr>gt_adm = connected, gt_queues = [NewOutboundQueue], gt_world = gate_world\<rparr>, gs_calls = []\<rparr>"

lemma gate_connected_reach: "gate_reach example_server gate_connected"
proof -
  let ?init = "\<lparr>gs_gate = \<lparr>gt_adm = NewServerAdmission, gt_queues = [], gt_world = gate_world\<rparr>, gs_calls = []\<rparr>"
  have "gate_reach example_server (?init\<lparr>gs_gate := snd (Replace (gs_gate ?init))\<rparr>)"
    by (rule gate_reach.step [OF gate_reach.init gate_step.replace])
  then show ?thesis by (simp add: Replace_def NewServerAdmission_def gate_connected_def connected_def)
qed

lemma admit_hello: "admit example_server 1 gate_hello connected = (Process 0, connected\<lparr>ad_handshake := True\<rparr>)"
  using gate_hello_valid request_types
  by (simp add: admit_def connected_def example_server_sel allowed_frame_def) (simp add: gate_hello_def)

lemma hello_admitted:
  assumes "gate_reach example_server gs" "gs_adm gs = connected"
  shows "gate_reach example_server (gs\<lparr>gs_gate := (gs_gate gs)\<lparr>gt_adm := connected\<lparr>ad_handshake := True\<rparr>\<rparr>,
    gs_calls := gs_calls gs @ [Admitted connected 1 0 gate_hello]\<rparr>)"
proof -
  have "admit example_server 1 gate_hello (gs_adm gs) = (Process 0, connected\<lparr>ad_handshake := True\<rparr>)" using admit_hello assms(2) by simp
  from gate_reach.step [OF assms(1) gate_step.admitted [OF this]] show ?thesis using assms(2) by simp
qed

text \<open>
  A malformed frame of the same connection, handled while a HELLO is in progress, takes the mark of the
  handshake away: a second HELLO is then admitted beside the first.
\<close>

lemma second_hello_admitted:
  "\<exists>gs. gate_reach example_server gs \<and> gs_calls gs = [Admitted connected 1 0 gate_hello, Returned, Admitted connected 1 0 gate_hello]"
proof -
  note sel = gs_adm_def gate_connected_def
  let ?busy = "connected\<lparr>ad_handshake := True\<rparr>"
  define g1 where "g1 = gate_connected\<lparr>gs_gate := (gs_gate gate_connected)\<lparr>gt_adm := ?busy\<rparr>, gs_calls := [Admitted connected 1 0 gate_hello]\<rparr>"
  have r1: "gate_reach example_server g1" using hello_admitted [OF gate_connected_reach] by (simp add: sel g1_def)
  have a2: "admit example_server 1 gate_malformed (gs_adm g1) = (Process 0, ?busy)"
    using gate_malformed_invalid by (simp add: admit_def g1_def sel example_server_sel connected_def)
  define g2 where "g2 = g1\<lparr>gs_calls := [Admitted connected 1 0 gate_hello, Admitted ?busy 1 0 gate_malformed]\<rparr>"
  have r2: "gate_reach example_server g2"
    using gate_reach.step [OF r1 gate_step.admitted [OF a2]] by (simp add: g1_def g2_def sel)
  have ty: "env_Type gate_malformed \<noteq> FrameError" using request_types(5) by (simp add: gate_malformed_def gate_hello_def)
  obtain io where p: "invokeServerProcess example_server alone gate_malformed (gate_io 0 (gs_gate g2)) = (no_result, Ret (), io)"
    using gate_malformed_invalid ty
    by (simp add: invokeServerProcess_def processFrame_def example_server_sel BehaviorForErrorCode_def no_behavior_def no_result_def)
  define g3 where "g3 = g2\<lparr>gs_gate := set_io 0 io (gs_gate g2), gs_calls := [Admitted connected 1 0 gate_hello, Processed 1 0 no_result]\<rparr>"
  have r3: "gate_reach example_server g3"
    using gate_reach.step [OF r2 gate_step.process [OF _ _ p, of 1 ?busy 1]] by (simp add: g2_def g3_def)
  have "applyResult 1 0 no_result (gs_adm g3) = connected"
    by (simp add: applyResult_def g3_def g2_def g1_def sel set_io_def connected_def no_result_def)
  then have r4: "gate_reach example_server (g3\<lparr>gs_gate := (gs_gate g3)\<lparr>gt_adm := connected\<rparr>, gs_calls := [Admitted connected 1 0 gate_hello, Returned]\<rparr>)"
    using gate_reach.step [OF r3 gate_step.finish [of 1 g3 1 0 no_result]] by (simp add: g3_def)
  from hello_admitted [OF this] show ?thesis by (auto simp: gs_adm_def)
qed

text \<open>An ERROR that does not name the session of a READY connection is answered with an ERROR.\<close>

definition gate_ready :: "(string \<times> bytes) list memory_world gate" where
  "gate_ready = \<lparr>gt_adm = connected\<lparr>ad_state := ServerAdmissionReady, ad_sessionID := ''s-1''\<rparr>, gt_queues = [NewOutboundQueue], gt_world = gate_world\<rparr>"

lemma error_answered_with_error:
  "Handle example_server ot 1 gate_error gate_ready =
    (let (out, io) = enqueueError example_server [] [] ErrorProtocolViolation ''frame is invalid for server connection state'' False (gate_io 0 gate_ready)
     in (out, set_io 0 io (gate_ready\<lparr>gt_adm := (gt_adm gate_ready)\<lparr>ad_state := ServerAdmissionClosed\<rparr>\<rparr>)))"
  "env_Type gate_error = FrameError"
proof -
  have ty: "env_SessionID gate_error = []" "env_ID gate_error = []" "env_Type gate_error = FrameError" by (simp_all add: gate_error_def)
  have adm: "admit example_server 1 gate_error (gt_adm gate_ready) = (Reject 0, (gt_adm gate_ready)\<lparr>ad_state := ServerAdmissionClosed\<rparr>)"
    using gate_error_valid ty by (simp add: admit_def example_server_sel gate_ready_def connected_def)
  show "env_Type gate_error = FrameError" by (rule ty)
  show "Handle example_server ot 1 gate_error gate_ready =
    (let (out, io) = enqueueError example_server [] [] ErrorProtocolViolation ''frame is invalid for server connection state'' False (gate_io 0 gate_ready)
     in (out, set_io 0 io (gate_ready\<lparr>gt_adm := (gt_adm gate_ready)\<lparr>ad_state := ServerAdmissionClosed\<rparr>\<rparr>)))"
    using adm ty by (simp add: Handle_def gate_io_def)
qed

section \<open>Instances\<close>


theorem late_call_fenced_witness:
  "\<exists>gs :: (string \<times> bytes) list memory_world gate_sys. \<exists>io result. ad_outbound (gs_adm gs) = Some 1
    \<and> map q_frames (gt_queues (set_io 0 io (gs_gate gs))) = map q_frames (gs_queues gs) \<and> applyResult 1 0 result (gs_adm gs) = gs_adm gs"
proof -
  define g1 where "g1 = gate_connected\<lparr>gs_gate := (gs_gate gate_connected)\<lparr>gt_adm := connected\<lparr>ad_handshake := True\<rparr>\<rparr>, gs_calls := [Admitted connected 1 0 gate_hello]\<rparr>"
  have "gate_reach example_server g1" using hello_admitted [OF gate_connected_reach] by (simp add: gs_adm_def gate_connected_def g1_def)
  define g2 where "g2 = g1\<lparr>gs_gate := snd (Replace (gs_gate g1))\<rparr>"
  have r2: "gate_reach example_server g2" unfolding g2_def by (rule gate_reach.step [OF \<open>gate_reach example_server g1\<close> gate_step.replace])
  have out: "ad_outbound (gs_adm g2) = Some 1" by (simp add: g2_def g1_def gs_adm_def Replace_def gate_connected_def connected_def)
  have mem: "Admitted connected 1 0 gate_hello \<in> set (gs_calls g2)" by (simp add: g2_def g1_def)
  obtain result out' io where "invokeServerProcess example_server alone gate_hello (gate_io 0 (gs_gate g2)) = (result, out', io)" by (cases rule: prod_cases3)
  from late_call_fenced [OF r2 mem _ this] out show ?thesis by (intro exI [of _ g2] exI [of _ io] exI [of _ result]) simp
qed


end
