(* ===== verification/Server_Publish.thy ===== *)
theory Server_Publish
  imports Server_Memory
begin

text \<open>
  Publishing content that is not in compact form: the replay store marshals it, and the comparison of
  \<open>PublishEvent\<close> then finds other bytes than were asked for.
\<close>

definition spaced_content :: bytes where
  "spaced_content = ''[ 1]''"

definition spaced_event :: Envelope where
  \<open>spaced_event = \<lparr>env_V = 2, env_Type = FrameEvent, env_ID = ''e-1'', env_SessionID = ''s-1'', env_Seq = 1, env_Timestamp = 0,
     env_Payload = ''{"event_type":"t","content":[1]}''\<rparr>\<close>

lemma spaced_append:
  "fst (Append ''s-1'' ''e-1'' ''t'' spaced_content 0 NewMemoryReplayStore) = Inr spaced_event"
  "CurrentSeq ''s-1'' (snd (Append ''s-1'' ''e-1'' ''t'' spaced_content 0 NewMemoryReplayStore)) = 1"
  by code_simp+

lemma spaced_decoded:
  "decodePayload (env_Payload spaced_event) dec_EventPayload zero_EventPayload True = Inr \<lparr>ep_EventType = ''t'', ep_Content = ''[1]''\<rparr>"
  by code_simp

text \<open>The event is appended and will be replayed, but the publication fails and nothing is queued.\<close>

lemma spaced_publication_fails:
  "fst (Append ''s-1'' ''e-1'' ''t'' spaced_content 0 NewMemoryReplayStore) = Inr spaced_event
    \<and> CurrentSeq ''s-1'' (snd (Append ''s-1'' ''e-1'' ''t'' spaced_content 0 NewMemoryReplayStore)) = 1
    \<and> (\<exists>e. publish_appended example_server ''s-1'' ''e-1'' ''t'' spaced_content spaced_event io = (Err e, io))"
proof -
  have "sv_StrictValidation example_server = True" by (simp add: example_server_def)
  moreover have "''[1]'' \<noteq> spaced_content" by (simp add: spaced_content_def)
  ultimately have "\<exists>e. publish_appended example_server ''s-1'' ''e-1'' ''t'' spaced_content spaced_event io = (Err e, io)"
    using spaced_decoded by (cases "server_validate example_server spaced_event") (simp_all add: publish_appended_def)
  then show ?thesis using spaced_append by blast
qed

section \<open>ERROR replies about frames with control characters\<close>

text \<open>
  \<open>errorFrameAt\<close> drops identities that are too long or not UTF-8, but validation refuses control
  characters as well: the ERROR about a frame whose session identity has one is never queued.
\<close>

lemma error_reply_dropped:
  "\<exists>e. enqueueErrorAt example_server [CHR 0x01] [] ErrorBadRequest ''m'' False 0 io = (Err e, io)"
proof -
  have "validateOutboundFrame (Some (errorFrameAt example_server [CHR 0x01] [] ErrorBadRequest ''m'' False 0)) (normalizeLimits DefaultLimits) True \<noteq> None"
    by code_simp
  then show ?thesis
    by (auto simp: enqueueErrorAt_def enqueueFrame_def server_validate_def example_server_def split: option.splits)
qed

end
