(* ===== verification/Spec2Isabelle.thy ===== *)
theory Spec2Isabelle
  imports Client_Live Ident Store_Contract Server_Resume Admission Send_Once Stream_Lane_Props Admission_Steps Server_Publish
begin

text \<open>
  A model of \<open>kmtproto\<close>, the transport-independent core of a messaging protocol with sessions,
  sequenced events, acknowledged sends, resumption and State synchronisation, and the theorems that
  make it correct.

  \<^bold>\<open>The program.\<close>  A client (\<open>client.go\<close>) and a server (\<open>server.go\<close>) exchange frames: envelopes with
  a JSON payload (\<open>types.go\<close>, \<open>payload.go\<close>), encoded and decoded by \<open>json_codec.go\<close> and checked by
  \<open>validate.go\<close> within the limits of \<open>limits.go\<close>.  The client is a state machine whose methods return
  actions (\<open>action.go\<close>).  The server is a gate per connection (\<open>ServerAdmission\<close>) in front of
  \<open>ServerProtocol\<close>, which works on injected stores (\<open>store.go\<close> has the interfaces and in-memory
  ones) and writes frames to outbound queues (\<open>outbound.go\<close>).  Both sides negotiate capabilities
  (\<open>capability.go\<close>) and merge State objects (\<open>state.go\<close>); \<open>id.go\<close> makes identifiers, \<open>error.go\<close>
  has the protocol errors, \<open>clock.go\<close> the clocks.

  \<^bold>\<open>Conventions\<close> (\<open>Prelude\<close>, \<open>Go_Bytes\<close>, \<open>Go_Map\<close>).  Go strings and byte slices are byte strings;
  \<open>uint16\<close>, \<open>uint64\<close> and \<open>int64\<close> are words, so sequence numbers wrap; lengths and \<open>int\<close> are integers, times and
  durations integers of nanoseconds.  A Go function that may fail returns an optional error or a sum; one that
  may also panic returns an \<open>outcome\<close>.  A Go map is an association list with distinct keys, so that
  its length and iteration are those of the code.  Structs are records, methods functions on them; a
  critical section of a mutex is one function.  Injected code is a parameter: a function on a state of
  any type that returns, fails or panics.  What the clock and the random source give is an argument.

  \<^bold>\<open>JSON and the codec.\<close>  \<open>Go_Json\<close> models \<open>encoding/json\<close> on bytes; \<open>Go_Json_Text\<close>, \<open>Go_Json_Quote\<close>
  and \<open>Go_Json_Build\<close> relate values and texts.  \<open>Proto_Error\<close>, \<open>Proto_Limits\<close>, \<open>Proto_Types\<close>,
  \<open>Payload_Codec\<close>, \<open>Validate\<close> and \<open>Json_Codec\<close> follow the files of those names, one definition per
  function and frame type.  \<open>Payload_Roundtrip\<close> and \<open>Codec_Roundtrip\<close> show that an encodable frame decodes to
  itself and that accepted frames are valid and bounded.  The parser is fuelled by twice the length of its input plus
  two, and \<open>parse_fuel_enough\<close> shows that more changes nothing; nesting is limited to ten thousand levels as in Go.

  \<^bold>\<open>Capabilities, State, identifiers.\<close>  \<open>Capability\<close>: negotiation selects the greatest common version
  and the client accepts it.  \<open>State_Object\<close>, \<open>State_Data\<close>, \<open>State_Merge\<close>: comparison of State data is
  equality of JSON meanings with exact numbers, merging converges in any order, and the snapshot accumulator counts
  exactly.  \<open>Sort_Strings\<close>: the in-place sort.  \<open>Ident\<close>: ULIDs determine their inputs and sort by time.

  \<^bold>\<open>Client.\<close>  \<open>Client\<close> has every method of \<open>ClientProtocol\<close>; \<open>Client_Inv\<close> its invariant,
  \<open>Client_Step\<close> its preservation, \<open>Client_Reach\<close> the histories of calls, \<open>Client_Props\<close>,
  \<open>Client_Recovery\<close> and \<open>Client_Live\<close> what holds of them: each event is delivered once and in order, recovery is
  all or nothing, sends stay pending until acknowledged, a generation fences whatever the client does under it, and
  a PING that stays unanswered while the client stays READY or SUSPECT ends in a disconnect.

  \<^bold>\<open>Queues and stores.\<close>  \<open>Outbound\<close> interleaves producers, closers and consumers of one queue, and \<open>SingleWriter.Run\<close>
  with the producers and closers of its queue: the queue is first in first out, a single consumer is always woken, and
  the sender gets the frames in order; the sender is a parameter that may fail, the context may end at any wait.  \<open>Store\<close> has the memory stores, \<open>Replay_Log\<close> shows by the locale
  \<open>event_log\<close>, interpreted on the memory store, that it is an append-only log with a retention floor, and
  \<open>Store_Contract\<close> what the session and deduplication stores promise.  \<open>Sha256\<close> computes the
  fingerprint of a SEND, its constants derived from the roots of primes.

  \<^bold>\<open>Server.\<close>  \<open>Server_Env\<close> has the interfaces and construction, \<open>Server\<close> every handler and
  publication as one call sees them; \<open>others\<close> says what a call finds of concurrent ones.  \<open>Server_Frames\<close> and
  \<open>Server_Resume\<close> show that only encodable frames are queued and that RESUME answers with one ERROR or the complete
  batch.  \<open>Server_Memory\<close> is a server on the memory stores, the one of \<open>examples/basic\<close> among them.
  Concurrency is modelled by step relations with a program counter per goroutine:
  \<^item> \<open>Send_Flight\<close>: the flights of \<open>handleSend\<close>, one step per critical section of \<open>flightMu\<close>,
    callback or queue operation.  \<open>Send_Flight_Inv\<close> has one original per identity; \<open>Send_Once\<close> shows
    that every call returns and, by the locale \<open>send_world\<close> interpreted on the memory world, that
    the application gets each SEND at most once within the retention of the store.
  \<^item> \<open>Stream_Lane\<close>: \<open>runStream\<close>, \<open>run\<close> and \<open>invokeCallback\<close>.  \<open>Stream_Lane_Inv\<close> and \<open>Stream_Lane_Props\<close>
    show serial execution per session in order of arrival, no deadlock, and no lane left behind.
  \<^item> \<open>Admission\<close> and \<open>Admission_Steps\<close>: the gate, and the interleavings of \<open>Replace\<close> with calls of
    \<open>Handle\<close>; which frames reach the server in which state, and that late calls of a replaced connection change nothing.
  \<open>Server_Publish\<close> and the end of \<open>Admission_Steps\<close> hold instances where the code does not do what it
  means to.

  \<^bold>\<open>Bounds.\<close>  A SEND takes at most forty steps of its own (\<open>pc_rank\<close>): seven callbacks of three steps
  each, with a few around them.  At-most-once is shown for one retention from the start of the store,
  as an entry may be dropped after that.

  \<^bold>\<open>Not modelled.\<close>  \<open>RealClock\<close> and the system's random source are arguments.  Contexts appear as the
  choice to end a wait; their values do not.  Guards against nil receivers and queues have no
  counterpart where the model has no nil.  \<open>Codec\<close> of \<open>codec.go\<close> is an interface with the one
  implementation modelled here.  The wording of JSON diagnostics is reduced to their kind.  Injected
  callbacks are taken to return; in \<open>Admission_Steps\<close> the server's work for one frame is one step.
  \<open>main\<close> of the example is a script over modelled operations; only the server it builds is modelled, and
  \<open>doc.go\<close> holds no code.
\<close>

end
